(* ===== verification/Prelude.thy ===== *)
theory Prelude
  imports
    Main
    "HOL-Library.Word"
    "HOL-Library.Multiset"
    "HOL-Library.AList"
    "HOL-Library.List_Lexorder"
    "HOL-Library.Char_ord"
begin

text \<open>
  Shared vocabulary of the development: the machine types of the Go sources, the
  readings of \<open>net/netip\<close> values, the outcome of a Go call that may fail or panic,
  buffered channels of capacity one, and the lemmas on association lists and sorted
  lists which several components use. No definition of this theory models a file of
  the repository; they render the parts of the Go language and of its standard
  library that the sources use.
\<close>

section \<open>Fact collections\<close>

named_theorems keyed_simps \<open>rewriting of association lists that stand for Go maps\<close>
named_theorems step_defs \<open>definitions of the atomic steps of a component\<close>

section \<open>Machine types\<close>

type_synonym byte = "8 word"
type_synonym u16 = "16 word"
type_synonym u32 = "32 word"

text \<open>\<open>time.Time\<close> and \<open>time.Duration\<close> count nanoseconds; \<open>time.Time{}\<close> is 0.\<close>

type_synonym time = int
type_synonym duration = int

definition millisecond :: duration where "millisecond = 1000000"
definition second :: duration where "second = 1000 * millisecond"

lemma second_eq: "second = 1000000000"
  by (simp add: second_def millisecond_def)

lemmas duration_eqs = second_eq millisecond_def

section \<open>Go outcomes\<close>

text \<open>
  A call returns a value or panics. The panics that the sources can run into are the use
  of a nil pointer or interface, a second \<open>close\<close> of a channel, a send on a closed channel,
  an index out of range, \<open>As16\<close> of the zero address and a call of \<open>panic\<close>.
\<close>

datatype go_panic = NilDereference | CloseOfClosedChannel | SendOnClosedChannel | IndexOutOfRange | ZeroAddr | ExplicitPanic

datatype 'a outcome = Returns 'a | Panics go_panic

fun bind_outcome :: "'a outcome \<Rightarrow> ('a \<Rightarrow> 'b outcome) \<Rightarrow> 'b outcome" where
  "bind_outcome (Returns x) f = f x"
| "bind_outcome (Panics p) f = Panics p"

lemma bind_outcome_Returns [simp]: "bind_outcome m Returns = m"
  by (cases m) auto

lemma bind_outcome_assoc:
  "bind_outcome (bind_outcome m f) g = bind_outcome m (\<lambda>x. bind_outcome (f x) g)"
  by (cases m) auto

lemma bind_outcome_eq_Returns:
  "bind_outcome m f = Returns y \<longleftrightarrow> (\<exists>x. m = Returns x \<and> f x = Returns y)"
  by (cases m) auto

text \<open>The default for an empty setting.\<close>

definition or_default :: "string \<Rightarrow> string \<Rightarrow> string" where
  "or_default s d = (if s = [] then d else s)"

section \<open>Addresses of net/netip\<close>

text \<open>
  \<open>InvalidIP\<close> is the zero \<open>netip.Addr\<close>. An IPv6 address carries its zone.
  \<open>Unmap\<close> turns an IPv4-mapped IPv6 address (\<open>::ffff:a.b.c.d\<close>) into the IPv4
  address and drops the zone, and leaves every other address alone.
\<close>

datatype ip_addr = InvalidIP | IP4 "32 word" | IP6 "128 word" string

datatype addr_port = AddrPort (ap_addr: ip_addr) (ap_port: u16)

definition is_4in6 :: "128 word \<Rightarrow> bool" where
  "is_4in6 w \<longleftrightarrow> drop_bit 32 w = 0xFFFF"

fun unmap :: "ip_addr \<Rightarrow> ip_addr" where
  "unmap InvalidIP = InvalidIP"
| "unmap (IP4 w) = IP4 w"
| "unmap (IP6 w z) = (if is_4in6 w then IP4 (ucast w) else IP6 w z)"

fun is_4 :: "ip_addr \<Rightarrow> bool" where
  "is_4 (IP4 _) = True"
| "is_4 _ = False"

fun is_6 :: "ip_addr \<Rightarrow> bool" where
  "is_6 (IP6 _ _) = True"
| "is_6 _ = False"

definition addr_is_valid :: "ip_addr \<Rightarrow> bool" where
  "addr_is_valid a \<longleftrightarrow> a \<noteq> InvalidIP"

definition addr_port_is_valid :: "addr_port \<Rightarrow> bool" where
  "addr_port_is_valid ap \<longleftrightarrow> addr_is_valid (ap_addr ap)"

definition zero_addr_port :: addr_port where
  "zero_addr_port = AddrPort InvalidIP 0"

lemma unmap_idem [simp]: "unmap (unmap a) = unmap a"
  by (cases a) auto

lemma unmap_valid [simp]: "addr_is_valid (unmap a) = addr_is_valid a"
  by (cases a) (auto simp: addr_is_valid_def)

section \<open>Association lists as Go maps\<close>

text \<open>
  A Go map that the code fills in a loop and then ranges over is an association list
  with distinct keys, so that the iteration order (arbitrary in Go) is explicit and a
  theorem can say that it does not matter.
\<close>

definition alist_of :: "('a \<Rightarrow> 'k) \<Rightarrow> 'a list \<Rightarrow> ('k \<times> 'a) list" where
  "alist_of key xs = fold (\<lambda>x m. AList.update (key x) x m) xs []"

lemma distinct_fold_update:
  "distinct (map fst m) \<Longrightarrow>
     distinct (map fst (fold (\<lambda>x m. AList.update (key x) (val x) m) xs m))"
  by (induction xs arbitrary: m) (auto simp: distinct_update)

lemma distinct_alist_of [keyed_simps]: "distinct (map fst (alist_of key xs))"
  unfolding alist_of_def by (rule distinct_fold_update) simp

lemma keys_fold_update:
  "fst ` set (fold (\<lambda>x m. AList.update (key x) (val x) m) xs m)
     = fst ` set m \<union> key ` set xs"
  by (induction xs arbitrary: m) (auto simp: dom_update)

lemma keys_alist_of [keyed_simps]: "fst ` set (alist_of key xs) = key ` set xs"
  unfolding alist_of_def by (simp add: keys_fold_update)

lemma key_value_fold_update:
  "\<forall>(k, v) \<in> set m. key v = k \<Longrightarrow>
     \<forall>(k, v) \<in> set (fold (\<lambda>x m. AList.update (key x) x m) xs m). key v = k"
proof (induction xs arbitrary: m)
  case (Cons x xs)
  have "\<forall>(k, v) \<in> set (AList.update (key x) x m). key v = k"
  proof -
    have "set (AList.update (key x) x m) \<subseteq> insert (key x, x) (set m)"
      by (induction m) auto
    with Cons.prems show ?thesis by auto
  qed
  then show ?case by (simp add: Cons.IH)
qed simp

lemma key_value_alist_of: "(k, v) \<in> set (alist_of key xs) \<Longrightarrow> key v = k"
  using key_value_fold_update [of "[]" key xs] by (auto simp: alist_of_def)

lemma map_of_fold_update:
  "map_of (fold (\<lambda>x m. AList.update (key x) x m) xs m)
     = map_of m ++ map_of (rev (map (\<lambda>x. (key x, x)) xs))"
proof (induction xs arbitrary: m)
  case (Cons x xs)
  show ?case
    by (simp add: Cons.IH update_conv' map_add_def fun_eq_iff split: option.splits)
qed simp

lemma map_of_alist_of:
  "map_of (alist_of key xs) = map_of (rev (map (\<lambda>x. (key x, x)) xs))"
  by (simp add: alist_of_def map_of_fold_update)

lemma map_of_rev_distinct:
  assumes "distinct (map fst ps)"
  shows "map_of (rev ps) = map_of ps"
proof
  fix k
  have "distinct (map fst (rev ps))"
    using assms by (simp add: rev_map [symmetric])
  then have "map_of (rev ps) k = Some v \<longleftrightarrow> map_of ps k = Some v" for v
    using assms by (simp add: map_of_eq_Some_iff)
  then show "map_of (rev ps) k = map_of ps k"
    by (metis not_None_eq)
qed

lemma alist_of_distinct:
  assumes "distinct (map key xs)" "x \<in> set xs"
  shows "map_of (alist_of key xs) (key x) = Some x"
proof -
  have "distinct (map fst (map (\<lambda>x. (key x, x)) xs))"
    using assms(1) by (simp add: o_def)
  then show ?thesis
    using assms(2) by (simp add: map_of_alist_of map_of_rev_distinct map_of_eq_Some_iff)
qed

section \<open>Sorting by a key\<close>

text \<open>
  \<open>sort.Slice\<close> sorts in place by a comparison of keys. It is not stable, so where two
  elements have the same key the order of the result is not determined; the components
  use it on lists with distinct keys, where the result is the only sorted permutation.
\<close>

lemma sort_key_unique:
  assumes "mset xs = mset ys" "distinct (map f xs)"
  shows "sort_key f xs = sort_key f ys"
proof (rule sort_key_inj_key_eq)
  show "mset xs = mset (sort_key f ys)"
    using assms(1) by simp
  show "inj_on f (set xs)"
    using assms(2) by (simp add: distinct_map)
qed (simp add: sorted_sort_key)

end
