(* ===== verification/Ticker.thy ===== *)
theory Ticker
  imports Prelude
begin

text \<open>
  \<open>disco/ticker/ticker.go\<close>: the timer that decides when an endpoint sends its next
  ping. The state record is the Go struct; \<open>wakeCh\<close> and \<open>reset\<close> are channels of
  capacity one and hold at most one token, so each is a \<open>bool\<close>. The goroutine \<open>run\<close> is a
  small machine whose program counter names the points at which it releases the lock
  or blocks; the steps of the goroutine and the calls of \<open>SetState\<close> and \<open>Close\<close>
  interleave in \<open>ticker_step\<close>.
\<close>

section \<open>State\<close>

datatype ticker_state = Connecting | Connected | UnsetState

datatype ticker_priority = Primary | Sub | UnsetPriority

record ticker =
  tk_wakeCh :: bool
  tk_reset :: bool
  tk_closed :: bool
  tk_multiplier :: int
  tk_currentInterval :: duration
  tk_maxInterval :: duration
  tk_state :: ticker_state
  tk_priority :: ticker_priority

text \<open>
  The multiplier is a \<open>float64\<close> that is only ever 0 or 2. The product
  \<open>time.Duration(float64(currentInterval) * multiplier)\<close> is exact for intervals below
  \<open>2 ^ 52\<close> ns, and \<open>backoff_exact\<close> below shows that the interval never gets there; so
  the product is the integer product.
\<close>

section \<open>Operations\<close>

definition wake :: "ticker \<Rightarrow> ticker" where
  "wake t = t\<lparr>tk_wakeCh := True\<rparr>"

definition SetState :: "ticker_state \<Rightarrow> ticker_priority \<Rightarrow> bool \<Rightarrow> ticker \<Rightarrow> ticker" where
  "SetState st p forceReinit t =
     (if \<not> forceReinit \<and> tk_state t = st \<and> tk_priority t = p then t
      else
        let t1 = t\<lparr>tk_maxInterval := (if p = Primary then 3 * second else 10 * second)\<rparr>;
            t2 = (case st of
                    Connecting \<Rightarrow> t1\<lparr>tk_currentInterval := 100 * millisecond\<rparr>
                  | Connected \<Rightarrow> t1\<lparr>tk_currentInterval := 3 * second\<rparr>
                  | UnsetState \<Rightarrow> t1)
        in t2\<lparr>tk_multiplier := 2, tk_state := st, tk_priority := p, tk_reset := True\<rparr>)"

definition NewTicker :: ticker where
  "NewTicker = wake (SetState Connecting Primary False
     \<lparr>tk_wakeCh = False, tk_reset = False, tk_closed = False, tk_multiplier = 0,
      tk_currentInterval = 0, tk_maxInterval = 0,
      tk_state = UnsetState, tk_priority = UnsetPriority\<rparr>)"

text \<open>The last locked section of \<open>run\<close>: the interval grows up to its maximum.\<close>

definition backoff :: "ticker \<Rightarrow> ticker" where
  "backoff t =
     (let i = tk_currentInterval t * tk_multiplier t
      in t\<lparr>tk_currentInterval := (if i > tk_maxInterval t then tk_maxInterval t else i)\<rparr>)"

definition ticker_Close :: "ticker \<Rightarrow> ticker outcome" where
  "ticker_Close t =
     (if tk_closed t then Panics CloseOfClosedChannel else Returns (t\<lparr>tk_closed := True\<rparr>))"

text \<open>\<open>C()\<close> hands out \<open>wakeCh\<close>; receiving takes the token.\<close>

definition take_wake :: "ticker \<Rightarrow> ticker option" where
  "take_wake t = (if tk_wakeCh t then Some (t\<lparr>tk_wakeCh := False\<rparr>) else None)"

section \<open>The goroutine run\<close>

text \<open>
  \<open>Arm\<close> is the head of the loop, \<open>Wait d\<close> the \<open>select\<close> with a timer that fires from
  time \<open>d\<close> on, \<open>Backoff\<close> the point after \<open>runPrev = time.Now()\<close> and before the last
  locked section. \<open>fires\<close> is a ghost: the times at which the timer fired, latest first.
\<close>

datatype run_pc = Arm | Wait time | Backoff | Stopped

record ticker_sys =
  ts_ticker :: ticker
  ts_pc :: run_pc
  ts_runPrev :: time
  ts_fires :: "time list"

definition new_ticker_sys :: ticker_sys where
  "new_ticker_sys = \<lparr>ts_ticker = NewTicker, ts_pc = Arm, ts_runPrev = 0, ts_fires = []\<rparr>"

definition run_arm :: "time \<Rightarrow> ticker_sys \<Rightarrow> ticker_sys" where
  "run_arm now s =
     s\<lparr>ts_pc := Wait (max now (ts_runPrev s + tk_currentInterval (ts_ticker s)))\<rparr>"

definition run_reset :: "ticker_sys \<Rightarrow> ticker_sys" where
  "run_reset s = s\<lparr>ts_ticker := (ts_ticker s)\<lparr>tk_reset := False\<rparr>, ts_pc := Arm\<rparr>"

definition run_fire :: "time \<Rightarrow> ticker_sys \<Rightarrow> ticker_sys" where
  "run_fire now s =
     s\<lparr>ts_ticker := wake (ts_ticker s), ts_runPrev := now, ts_pc := Backoff,
       ts_fires := now # ts_fires s\<rparr>"

definition run_backoff :: "ticker_sys \<Rightarrow> ticker_sys" where
  "run_backoff s = s\<lparr>ts_ticker := backoff (ts_ticker s), ts_pc := Arm\<rparr>"

inductive ticker_step :: "ticker_sys \<Rightarrow> ticker_sys \<Rightarrow> bool" where
  arm: "ts_pc s = Arm \<Longrightarrow> ticker_step s (run_arm now s)"
| reset: "ts_pc s = Wait d \<Longrightarrow> tk_reset (ts_ticker s) \<Longrightarrow> ticker_step s (run_reset s)"
| closed: "ts_pc s = Wait d \<Longrightarrow> tk_closed (ts_ticker s) \<Longrightarrow>
    ticker_step s (s\<lparr>ts_pc := Stopped\<rparr>)"
| fire: "ts_pc s = Wait d \<Longrightarrow> d \<le> now \<Longrightarrow> ticker_step s (run_fire now s)"
| grow: "ts_pc s = Backoff \<Longrightarrow> ticker_step s (run_backoff s)"
| set_state: "st \<noteq> UnsetState \<Longrightarrow>
    ticker_step s (s\<lparr>ts_ticker := SetState st p force (ts_ticker s)\<rparr>)"
| receive: "take_wake (ts_ticker s) = Some t \<Longrightarrow> ticker_step s (s\<lparr>ts_ticker := t\<rparr>)"
| close: "ticker_Close (ts_ticker s) = Returns t \<Longrightarrow> ticker_step s (s\<lparr>ts_ticker := t\<rparr>)"

inductive_cases ticker_stepE: "ticker_step s s'"

inductive ticker_reachable :: "ticker_sys \<Rightarrow> bool" where
  init: "ticker_reachable new_ticker_sys"
| step: "ticker_reachable s \<Longrightarrow> ticker_step s s' \<Longrightarrow> ticker_reachable s'"

section \<open>Invariant\<close>

definition ticker_ok :: "ticker \<Rightarrow> bool" where
  "ticker_ok t \<longleftrightarrow>
     tk_multiplier t = 2 \<and> tk_state t \<noteq> UnsetState \<and>
     tk_maxInterval t = (if tk_priority t = Primary then 3 * second else 10 * second) \<and>
     100 * millisecond \<le> tk_currentInterval t \<and> tk_currentInterval t \<le> tk_maxInterval t"

lemma ticker_ok_frame [simp]:
  "ticker_ok (t\<lparr>tk_wakeCh := b\<rparr>) = ticker_ok t"
  "ticker_ok (t\<lparr>tk_reset := b\<rparr>) = ticker_ok t"
  "ticker_ok (t\<lparr>tk_closed := b\<rparr>) = ticker_ok t"
  by (simp_all add: ticker_ok_def)

lemma ticker_ok_wake [simp]: "ticker_ok (wake t) = ticker_ok t"
  by (simp add: wake_def)

lemma SetState_fields [simp]:
  "tk_state (SetState st p f t) = st"
  "tk_priority (SetState st p f t) = p"
  "tk_wakeCh (SetState st p f t) = tk_wakeCh t"
  "tk_closed (SetState st p f t) = tk_closed t"
  by (auto simp: SetState_def Let_def split: ticker_state.split)

lemma SetState_interval:
  assumes "st \<noteq> UnsetState" "f \<or> tk_state t \<noteq> st \<or> tk_priority t \<noteq> p"
  shows "tk_currentInterval (SetState st p f t)
           = (if st = Connecting then 100 * millisecond else 3 * second)"
    and "tk_maxInterval (SetState st p f t) = (if p = Primary then 3 * second else 10 * second)"
    and "tk_multiplier (SetState st p f t) = 2"
    and "tk_reset (SetState st p f t)"
  using assms by (auto simp: SetState_def Let_def split: ticker_state.split)

lemma SetState_same: "tk_state t = st \<Longrightarrow> tk_priority t = p \<Longrightarrow> SetState st p False t = t"
  by (simp add: SetState_def)

lemma ticker_ok_SetState:
  assumes "ticker_ok t" "st \<noteq> UnsetState"
  shows "ticker_ok (SetState st p f t)"
proof (cases "f \<or> tk_state t \<noteq> st \<or> tk_priority t \<noteq> p")
  case True
  with assms(2) show ?thesis
    by (simp add: ticker_ok_def SetState_interval duration_eqs)
next
  case False
  with assms(1) show ?thesis by (simp add: SetState_same)
qed

lemma ticker_ok_new [simp]: "ticker_ok NewTicker"
  unfolding NewTicker_def ticker_ok_wake
  by (simp add: ticker_ok_def SetState_interval duration_eqs)

lemma ticker_ok_backoff: "ticker_ok t \<Longrightarrow> ticker_ok (backoff t)"
  by (auto simp: ticker_ok_def backoff_def Let_def duration_eqs)

lemma backoff_exact: "ticker_ok t \<Longrightarrow> tk_currentInterval t * tk_multiplier t < 2 ^ 52"
  by (auto simp: ticker_ok_def duration_eqs split: if_splits)

lemma ticker_ok_take: "take_wake t = Some t' \<Longrightarrow> ticker_ok t \<Longrightarrow> ticker_ok t'"
  by (auto simp: take_wake_def split: if_splits)

lemma ticker_ok_close: "ticker_Close t = Returns t' \<Longrightarrow> ticker_ok t \<Longrightarrow> ticker_ok t'"
  by (auto simp: ticker_Close_def split: if_splits)

text \<open>
  The invariant of the whole machine: the timer is never armed earlier than a tenth of a
  second after the last time it fired, and so the firing times are that far apart.
\<close>

definition ticker_inv :: "ticker_sys \<Rightarrow> bool" where
  "ticker_inv s \<longleftrightarrow>
     ticker_ok (ts_ticker s) \<and>
     (\<forall>d. ts_pc s = Wait d \<longrightarrow> ts_runPrev s + 100 * millisecond \<le> d) \<and>
     (ts_fires s \<noteq> [] \<longrightarrow> hd (ts_fires s) = ts_runPrev s) \<and>
     successively (\<lambda>later earlier. earlier + 100 * millisecond \<le> later) (ts_fires s)"

lemma ticker_inv_init: "ticker_inv new_ticker_sys"
  by (simp add: ticker_inv_def new_ticker_sys_def)

lemma ticker_inv_ticker:
  "ticker_inv s \<Longrightarrow> ticker_ok t \<Longrightarrow> ticker_inv (s\<lparr>ts_ticker := t\<rparr>)"
  by (simp add: ticker_inv_def)

lemma ticker_inv_arm: "ticker_inv s \<Longrightarrow> ticker_inv (run_arm now s)"
  by (auto simp: ticker_inv_def run_arm_def ticker_ok_def)

lemma ticker_inv_fire:
  assumes "ticker_inv s" "ts_pc s = Wait d" "d \<le> now"
  shows "ticker_inv (run_fire now s)"
proof -
  have gap: "ts_runPrev s + 100 * millisecond \<le> now"
    using assms by (fastforce simp: ticker_inv_def)
  show ?thesis
  proof (cases "ts_fires s")
    case Nil
    with assms show ?thesis by (simp add: ticker_inv_def run_fire_def)
  next
    case (Cons f fs)
    with assms gap show ?thesis by (auto simp: ticker_inv_def run_fire_def)
  qed
qed

lemma ticker_inv_step: "ticker_step s s' \<Longrightarrow> ticker_inv s \<Longrightarrow> ticker_inv s'"
proof (induction rule: ticker_step.induct)
  case (arm s now)
  then show ?case by (simp add: ticker_inv_arm)
next
  case (fire s d now)
  then show ?case by (simp add: ticker_inv_fire)
next
  case (grow s)
  then show ?case by (simp add: ticker_inv_def run_backoff_def ticker_ok_backoff)
next
  case (set_state st s p force)
  then show ?case by (simp add: ticker_inv_def ticker_ok_SetState)
next
  case (receive s t)
  then show ?case using ticker_ok_take by (auto simp: ticker_inv_def)
next
  case (close s t)
  then show ?case using ticker_ok_close by (auto simp: ticker_inv_def)
qed (simp_all add: ticker_inv_def run_reset_def)

lemma ticker_reachable_inv: "ticker_reachable s \<Longrightarrow> ticker_inv s"
  by (induction rule: ticker_reachable.induct) (auto intro: ticker_inv_init ticker_inv_step)

section \<open>The growth of the interval\<close>

lemma backoff_frame [simp]:
  "tk_maxInterval (backoff t) = tk_maxInterval t"
  "tk_multiplier (backoff t) = tk_multiplier t"
  "tk_state (backoff t) = tk_state t"
  "tk_priority (backoff t) = tk_priority t"
  by (simp_all add: backoff_def Let_def)

lemma backoff_interval:
  "tk_currentInterval (backoff t)
     = min (tk_maxInterval t) (tk_currentInterval t * tk_multiplier t)"
  by (simp add: backoff_def Let_def min_def)

lemma backoff_frame_iter [simp]:
  "tk_maxInterval ((backoff ^^ n) t) = tk_maxInterval t"
  "tk_multiplier ((backoff ^^ n) t) = tk_multiplier t"
  by (induction n) auto

lemma backoff_iter:
  assumes "tk_multiplier t = 2" "0 \<le> tk_currentInterval t"
    "tk_currentInterval t \<le> tk_maxInterval t"
  shows "tk_currentInterval ((backoff ^^ n) t) = min (tk_maxInterval t) (tk_currentInterval t * 2 ^ n)"
proof (induction n)
  case (Suc n)
  have "0 \<le> tk_currentInterval t * 2 ^ n"
    using assms(2) by simp
  with Suc assms show ?case
    by (simp add: backoff_interval min_def)
qed (use assms in simp)

section \<open>Properties\<close>


definition example_ticker_run :: ticker_sys where
  "example_ticker_run =
     (let t0 = 1000 * second
      in run_fire (t0 + 200 * millisecond)
           (run_arm t0 (run_backoff (run_fire t0 (run_arm t0 new_ticker_sys)))))"

lemma new_ticker_fields:
  "tk_currentInterval NewTicker = 100 * millisecond"
  "tk_maxInterval NewTicker = 3 * second"
  "tk_multiplier NewTicker = 2"
  "tk_wakeCh NewTicker" "tk_reset NewTicker" "\<not> tk_closed NewTicker"
  by (simp_all add: NewTicker_def wake_def SetState_def)

lemma example_ticker_reachable: "ticker_reachable example_ticker_run"
proof -
  let ?t = "1000 * second"
  let ?s1 = "run_arm ?t new_ticker_sys"
  let ?s2 = "run_fire ?t ?s1"
  let ?s3 = "run_backoff ?s2"
  let ?s4 = "run_arm ?t ?s3"
  note run_defs = run_arm_def run_fire_def run_backoff_def new_ticker_sys_def
    new_ticker_fields backoff_interval wake_def duration_eqs
  have "ticker_reachable ?s1"
    by (rule step [OF init arm]) (simp add: new_ticker_sys_def)
  then have "ticker_reachable ?s2"
    by (rule step, intro fire [where d = "?t"]) (simp_all add: run_defs)
  then have "ticker_reachable ?s3"
    by (rule step, intro grow) (simp add: run_fire_def)
  then have "ticker_reachable ?s4"
    by (rule step, intro arm) (simp add: run_backoff_def)
  then have "ticker_reachable (run_fire (?t + 200 * millisecond) ?s4)"
    by (rule step, intro fire [where d = "?t + 200 * millisecond"]) (simp_all add: run_defs)
  then show ?thesis by (simp add: example_ticker_run_def Let_def)
qed


text \<open>
  Exponential backoff: after a call of \<open>SetState\<close> that takes effect and \<open>n\<close> firings
  the interval is \<open>100 ms * 2 ^ n\<close> (connecting) or \<open>3 s * 2 ^ n\<close> (connected), cut off at
  the maximum for the priority; a call that repeats the current state and priority
  without \<open>forceReinit\<close> changes nothing, so it does not restart the backoff.
\<close>

lemma SetState_backoff:
  assumes "st \<noteq> UnsetState"
  shows "if force \<or> tk_state t \<noteq> st \<or> tk_priority t \<noteq> p
         then tk_currentInterval ((backoff ^^ n) (SetState st p force t))
                = min (if p = Primary then 3 * second else 10 * second)
                      ((if st = Connecting then 100 * millisecond else 3 * second) * 2 ^ n)
         else SetState st p force t = t"
  using assms
  by (simp add: backoff_iter SetState_interval SetState_same duration_eqs)

end
