(* ===== verification/PktMgr.thy ===== *)
theory PktMgr
  imports Prelude
begin

text \<open>
  \<open>disco/pktmgr/pktmgr.go\<close>: the table of pings that wait for their pong. \<open>pm_m\<close> is the
  map from packet number to sending time. Every \<open>AddPacket\<close> starts a goroutine that
  sleeps for the timeout and then removes the packet and reports a drop; the sleeping
  goroutines are the list \<open>pm_timers\<close> of packet number and wake-up time.
\<close>

section \<open>State and operations\<close>

record pktmgr =
  pm_m :: "u32 \<rightharpoonup> time"
  pm_timers :: "(u32 \<times> time) list"
  pm_timeout :: duration

definition pktmgr_New :: "duration \<Rightarrow> pktmgr" where
  "pktmgr_New timeout = \<lparr>pm_m = Map.empty, pm_timers = [], pm_timeout = timeout\<rparr>"

definition AddPacket :: "u32 \<Rightarrow> time \<Rightarrow> pktmgr \<Rightarrow> pktmgr" where
  "AddPacket i now m =
     m\<lparr>pm_m := (pm_m m)(i \<mapsto> now), pm_timers := pm_timers m @ [(i, now + pm_timeout m)]\<rparr>"

text \<open>
  The body of the sleeping goroutine \<open>n\<close>: the second component says whether
  \<open>dropCallback\<close> is called.
\<close>

definition timer_fires :: "nat \<Rightarrow> pktmgr \<Rightarrow> pktmgr \<times> bool" where
  "timer_fires n m =
     (let i = fst (pm_timers m ! n);
          m' = m\<lparr>pm_timers := take n (pm_timers m) @ drop (Suc n) (pm_timers m)\<rparr>
      in case pm_m m i of
           None \<Rightarrow> (m', False)
         | Some _ \<Rightarrow> (m'\<lparr>pm_m := (pm_m m)(i := None)\<rparr>, True))"

text \<open>
  \<open>RecvAck\<close> also forgets every packet that was sent before the acknowledged one, so
  that a pong that overtakes the answers to earlier pings does not report them lost.
\<close>

definition RecvAck :: "u32 \<Rightarrow> time \<Rightarrow> pktmgr \<Rightarrow> pktmgr \<times> duration option" where
  "RecvAck i now m =
     (case pm_m m i of
        None \<Rightarrow> (m, None)
      | Some recvedAt \<Rightarrow>
          (let left = (pm_m m)(i := None);
               kept = (\<lambda>k. case left k of
                         None \<Rightarrow> None
                       | Some t \<Rightarrow> if t < recvedAt then None else Some t)
           in (m\<lparr>pm_m := kept\<rparr>, Some (now - recvedAt))))"

section \<open>Runs\<close>

text \<open>
  The operations and the goroutines interleave. A timer may fire late, never early. The
  system keeps a clock and, as a ghost, the outcomes so far.
\<close>

datatype pkt_event = Sent u32 | Acked u32 duration | Dropped u32

record pkt_sys =
  ps_mgr :: pktmgr
  ps_now :: time
  ps_log :: "pkt_event list"

definition pkt_init :: "duration \<Rightarrow> time \<Rightarrow> pkt_sys" where
  "pkt_init timeout now = \<lparr>ps_mgr = pktmgr_New timeout, ps_now = now, ps_log = []\<rparr>"

inductive pkt_step :: "pkt_sys \<Rightarrow> pkt_sys \<Rightarrow> bool" where
  tick: "ps_now s \<le> now \<Longrightarrow> pkt_step s (s\<lparr>ps_now := now\<rparr>)"
| add: "pkt_step s (s\<lparr>ps_mgr := AddPacket i (ps_now s) (ps_mgr s), ps_log := Sent i # ps_log s\<rparr>)"
| expire: "n < length (pm_timers (ps_mgr s)) \<Longrightarrow> pm_timers (ps_mgr s) ! n = (i, d) \<Longrightarrow>
    d \<le> ps_now s \<Longrightarrow> timer_fires n (ps_mgr s) = (m, dropped) \<Longrightarrow>
    pkt_step s (s\<lparr>ps_mgr := m, ps_log := (if dropped then Dropped i # ps_log s else ps_log s)\<rparr>)"
| ack: "RecvAck i (ps_now s) (ps_mgr s) = (m, r) \<Longrightarrow>
    pkt_step s (s\<lparr>ps_mgr := m,
      ps_log := (case r of None \<Rightarrow> ps_log s | Some rtt \<Rightarrow> Acked i rtt # ps_log s)\<rparr>)"

inductive pkt_reachable :: "duration \<Rightarrow> pkt_sys \<Rightarrow> bool" for timeout :: duration where
  init: "pkt_reachable timeout (pkt_init timeout now)"
| step: "pkt_reachable timeout s \<Longrightarrow> pkt_step s s' \<Longrightarrow> pkt_reachable timeout s'"

text \<open>How often a packet number was sent, and how often its fate was reported.\<close>

definition sent_count :: "u32 \<Rightarrow> pkt_event list \<Rightarrow> nat" where
  "sent_count i es = length (filter (\<lambda>e. e = Sent i) es)"

definition resolved_count :: "u32 \<Rightarrow> pkt_event list \<Rightarrow> nat" where
  "resolved_count i es = length (filter (\<lambda>e. (\<exists>r. e = Acked i r) \<or> e = Dropped i) es)"

section \<open>Lemmas\<close>

lemma AddPacket_fields [simp]:
  "pm_m (AddPacket i now m) = (pm_m m)(i \<mapsto> now)"
  "pm_timers (AddPacket i now m) = pm_timers m @ [(i, now + pm_timeout m)]"
  "pm_timeout (AddPacket i now m) = pm_timeout m"
  by (simp_all add: AddPacket_def)

lemma RecvAck_None: "pm_m m i = None \<Longrightarrow> RecvAck i now m = (m, None)"
  by (simp add: RecvAck_def)

lemma RecvAck_Some:
  assumes "pm_m m i = Some t0"
  shows "RecvAck i now m =
    (m\<lparr>pm_m := (\<lambda>k. if k = i then None else
                       case pm_m m k of None \<Rightarrow> None
                       | Some t \<Rightarrow> if t < t0 then None else Some t)\<rparr>, Some (now - t0))"
  using assms by (auto simp: RecvAck_def Let_def fun_eq_iff split: option.split)

lemma RecvAck_shrinks:
  assumes "RecvAck i now m = (m', r)"
  shows "pm_m m' \<subseteq>\<^sub>m pm_m m" "pm_timers m' = pm_timers m" "pm_timeout m' = pm_timeout m"
    "r \<noteq> None \<longleftrightarrow> i \<in> dom (pm_m m)" "pm_m m' i = None"
proof -
  have "pm_m m' \<subseteq>\<^sub>m pm_m m \<and> pm_timers m' = pm_timers m \<and> pm_timeout m' = pm_timeout m \<and>
        (r \<noteq> None \<longleftrightarrow> i \<in> dom (pm_m m)) \<and> pm_m m' i = None"
  proof (cases "pm_m m i")
    case None
    with assms show ?thesis by (auto simp: RecvAck_None)
  next
    case (Some t0)
    with assms show ?thesis
      by (auto simp: RecvAck_Some map_le_def split: option.splits if_splits)
  qed
  then show "pm_m m' \<subseteq>\<^sub>m pm_m m" "pm_timers m' = pm_timers m" "pm_timeout m' = pm_timeout m"
    "r \<noteq> None \<longleftrightarrow> i \<in> dom (pm_m m)" "pm_m m' i = None"
    by auto
qed

lemma timer_fires_result:
  assumes "timer_fires n m = (m', dropped)" "n < length (pm_timers m)" "pm_timers m ! n = (i, d)"
  shows "pm_m m' = (pm_m m)(i := None)"
    "pm_timers m' = take n (pm_timers m) @ drop (Suc n) (pm_timers m)"
    "pm_timeout m' = pm_timeout m" "dropped \<longleftrightarrow> i \<in> dom (pm_m m)"
  using assms by (auto simp: timer_fires_def Let_def fun_eq_iff split: option.splits)

lemma filter_drop_nth:
  assumes "n < length xs"
  shows "mset xs = add_mset (xs ! n) (mset (take n xs @ drop (Suc n) xs))"
  using assms by (metis (no_types) id_take_nth_drop mset_append mset.simps(2) union_mset_add_mset_right)

section \<open>Invariant of the runs\<close>

lemma counts_Nil [simp]: "sent_count i [] = 0" "resolved_count i [] = 0"
  by (simp_all add: sent_count_def resolved_count_def)

lemma counts_Cons [simp]:
  "sent_count i (e # es) = (if e = Sent i then Suc (sent_count i es) else sent_count i es)"
  "resolved_count i (e # es)
     = (if (\<exists>r. e = Acked i r) \<or> e = Dropped i then Suc (resolved_count i es)
        else resolved_count i es)"
  by (simp_all add: sent_count_def resolved_count_def)

definition pending :: "pktmgr \<Rightarrow> u32 \<Rightarrow> nat" where
  "pending m i = (if i \<in> dom (pm_m m) then 1 else 0)"

definition pkt_inv :: "duration \<Rightarrow> pkt_sys \<Rightarrow> bool" where
  "pkt_inv timeout s \<longleftrightarrow>
     pm_timeout (ps_mgr s) = timeout \<and>
     (\<forall>i. resolved_count i (ps_log s) + pending (ps_mgr s) i \<le> sent_count i (ps_log s)) \<and>
     (\<forall>i t. pm_m (ps_mgr s) i = Some t \<longrightarrow>
        t \<le> ps_now s \<and> (i, t + timeout) \<in> set (pm_timers (ps_mgr s))) \<and>
     (\<forall>i r. Acked i r \<in> set (ps_log s) \<longrightarrow> 0 \<le> r)"

lemma pkt_invI:
  assumes "pm_timeout (ps_mgr s) = timeout"
    and "\<And>k. resolved_count k (ps_log s) + pending (ps_mgr s) k \<le> sent_count k (ps_log s)"
    and "\<And>k t. pm_m (ps_mgr s) k = Some t \<Longrightarrow>
           t \<le> ps_now s \<and> (k, t + timeout) \<in> set (pm_timers (ps_mgr s))"
    and "\<And>k r. Acked k r \<in> set (ps_log s) \<Longrightarrow> 0 \<le> r"
  shows "pkt_inv timeout s"
  using assms by (simp add: pkt_inv_def)

lemma pkt_invD:
  assumes "pkt_inv timeout s"
  shows "pm_timeout (ps_mgr s) = timeout"
    and "resolved_count k (ps_log s) + pending (ps_mgr s) k \<le> sent_count k (ps_log s)"
    and "pm_m (ps_mgr s) k = Some t \<Longrightarrow>
           t \<le> ps_now s \<and> (k, t + timeout) \<in> set (pm_timers (ps_mgr s))"
    and "Acked k r \<in> set (ps_log s) \<Longrightarrow> 0 \<le> r"
  using assms by (simp_all add: pkt_inv_def)

lemma pkt_inv_init: "pkt_inv timeout (pkt_init timeout now)"
  by (simp add: pkt_inv_def pkt_init_def pktmgr_New_def pending_def)

lemma pkt_inv_add:
  assumes "pkt_inv timeout s"
  shows "pkt_inv timeout
    (s\<lparr>ps_mgr := AddPacket i (ps_now s) (ps_mgr s), ps_log := Sent i # ps_log s\<rparr>)"
    (is "pkt_inv timeout ?s")
proof (rule pkt_invI)
  note inv = pkt_invD [OF assms]
  show "pm_timeout (ps_mgr ?s) = timeout"
    using inv(1) by simp
  show "resolved_count k (ps_log ?s) + pending (ps_mgr ?s) k \<le> sent_count k (ps_log ?s)" for k
    using inv(2) [of k] by (auto simp: pending_def split: if_splits)
  show "t \<le> ps_now ?s \<and> (k, t + timeout) \<in> set (pm_timers (ps_mgr ?s))"
    if "pm_m (ps_mgr ?s) k = Some t" for k t
    using inv(1) inv(3) [of k t] that by (auto split: if_splits)
  show "0 \<le> r" if "Acked k r \<in> set (ps_log ?s)" for k r
    using inv(4) that by auto
qed

lemma pending_le:
  assumes "pm_m m' \<subseteq>\<^sub>m pm_m m"
  shows "pending m' k \<le> pending m k"
  using map_le_implies_dom_le [OF assms] by (auto simp: pending_def)

lemma pkt_inv_ack:
  assumes pkt: "pkt_inv timeout s" and ack: "RecvAck i (ps_now s) (ps_mgr s) = (m, r)"
  shows "pkt_inv timeout (s\<lparr>ps_mgr := m,
    ps_log := (case r of None \<Rightarrow> ps_log s | Some rtt \<Rightarrow> Acked i rtt # ps_log s)\<rparr>)"
    (is "pkt_inv timeout ?s")
proof (cases r)
  case None
  with ack have "m = ps_mgr s"
    by (auto simp: RecvAck_def Let_def split: option.splits)
  with pkt None show ?thesis by simp
next
  case (Some rtt)
  note inv = pkt_invD [OF pkt] and shrink = RecvAck_shrinks [OF ack]
  from ack Some obtain t0 where t0: "pm_m (ps_mgr s) i = Some t0" "rtt = ps_now s - t0"
    by (auto simp: RecvAck_def Let_def split: option.splits)
  have pend: "pending m i = 0" "pending (ps_mgr s) i = 1"
    using shrink(5) t0 by (auto simp: pending_def)
  show ?thesis
  proof (rule pkt_invI)
    show "pm_timeout (ps_mgr ?s) = timeout"
      using inv(1) shrink(3) by simp
    show "resolved_count k (ps_log ?s) + pending (ps_mgr ?s) k \<le> sent_count k (ps_log ?s)" for k
      using inv(2) [of k] pend pending_le [OF shrink(1), of k] Some by auto
    show "t \<le> ps_now ?s \<and> (k, t + timeout) \<in> set (pm_timers (ps_mgr ?s))"
      if "pm_m (ps_mgr ?s) k = Some t" for k t
      using inv(3) [of k t] shrink(1,2) that by (auto simp: map_le_def dom_def)
    show "0 \<le> r'" if "Acked k r' \<in> set (ps_log ?s)" for k r'
      using inv(3) [OF t0(1)] inv(4) [of k r'] t0(2) that Some by auto
  qed
qed

lemma pkt_inv_expire:
  assumes pkt: "pkt_inv timeout s"
    and n: "n < length (pm_timers (ps_mgr s))" "pm_timers (ps_mgr s) ! n = (i, d)"
    and fires: "timer_fires n (ps_mgr s) = (m, dropped)"
  shows "pkt_inv timeout (s\<lparr>ps_mgr := m,
    ps_log := (if dropped then Dropped i # ps_log s else ps_log s)\<rparr>)"
    (is "pkt_inv timeout ?s")
proof (rule pkt_invI)
  note inv = pkt_invD [OF pkt] and res = timer_fires_result [OF fires n]
  show "pm_timeout (ps_mgr ?s) = timeout"
    using inv(1) res(3) by simp
  show "resolved_count k (ps_log ?s) + pending (ps_mgr ?s) k \<le> sent_count k (ps_log ?s)" for k
    using inv(2) [of k] res(1,4) by (auto simp: pending_def split: if_splits)
  show "t \<le> ps_now ?s \<and> (k, t + timeout) \<in> set (pm_timers (ps_mgr ?s))"
    if "pm_m (ps_mgr ?s) k = Some t" for k t
  proof -
    have k: "k \<noteq> i" "pm_m (ps_mgr s) k = Some t"
      using that res(1) by (auto split: if_splits)
    have "(k, t + timeout) \<in># mset (pm_timers (ps_mgr s))"
      using inv(3) [OF k(2)] by simp
    with k n res(2) inv(3) [OF k(2)] show ?thesis
      by (simp add: filter_drop_nth [OF n(1)])
  qed
  show "0 \<le> r" if "Acked k r \<in> set (ps_log ?s)" for k r
    using inv(4) that by (auto split: if_splits)
qed

lemma pkt_inv_step: "pkt_step s s' \<Longrightarrow> pkt_inv timeout s \<Longrightarrow> pkt_inv timeout s'"
proof (induction rule: pkt_step.induct)
  case (tick s now)
  then show ?case by (fastforce simp: pkt_inv_def)
qed (simp_all only: pkt_inv_add pkt_inv_ack pkt_inv_expire)

lemma pkt_reachable_inv: "pkt_reachable timeout s \<Longrightarrow> pkt_inv timeout s"
  by (induction rule: pkt_reachable.induct) (auto intro: pkt_inv_init pkt_inv_step)

section \<open>Properties\<close>

text \<open>
  C24. However sends, acknowledgements and timers interleave, the fate of a ping is
  reported at most once per sending (as acknowledged or as dropped, never both), every
  ping whose fate is open has a sleeping timer set to its sending time plus the timeout,
  and no reported round-trip time is negative. In particular nothing is pending once all
  timers have fired.
\<close>

theorem pings_resolved_once:
  assumes "pkt_reachable timeout s"
  shows "(\<forall>i. resolved_count i (ps_log s) \<le> sent_count i (ps_log s)) \<and>
         (\<forall>i t. pm_m (ps_mgr s) i = Some t \<longrightarrow> (i, t + timeout) \<in> set (pm_timers (ps_mgr s))) \<and>
         (\<forall>i r. Acked i r \<in> set (ps_log s) \<longrightarrow> 0 \<le> r) \<and>
         (pm_timers (ps_mgr s) = [] \<longrightarrow> pm_m (ps_mgr s) = Map.empty)"
proof -
  from assms have pkt: "pkt_inv timeout s"
    by (rule pkt_reachable_inv)
  note inv = pkt_invD [OF pkt]
  have "resolved_count i (ps_log s) \<le> sent_count i (ps_log s)" for i
    using inv(2) [of i] by simp
  moreover have "pm_m (ps_mgr s) = Map.empty" if "pm_timers (ps_mgr s) = []"
  proof
    show "pm_m (ps_mgr s) i = None" for i
      using inv(3) [of i] that by (cases "pm_m (ps_mgr s) i") auto
  qed
  ultimately show ?thesis
    using inv(3,4) by blast
qed

text \<open>
  A run in which ping 7 is lost and reported after 400 ms and ping 8 is answered at once.
\<close>

definition example_pkt_run :: pkt_sys where
  "example_pkt_run =
     \<lparr>ps_mgr = \<lparr>pm_m = Map.empty, pm_timers = [(8, 800 * millisecond)],
                pm_timeout = 400 * millisecond\<rparr>,
      ps_now = 400 * millisecond,
      ps_log = [Acked 8 0, Sent 8, Dropped 7, Sent 7]\<rparr>"

lemma example_pkt_reachable: "pkt_reachable (400 * millisecond) example_pkt_run"
proof -
  let ?T = "400 * millisecond"
  let ?mgr = "\<lambda>m ts. \<lparr>pm_m = m, pm_timers = ts, pm_timeout = ?T\<rparr>"
  let ?sys = "\<lambda>m ts now l. \<lparr>ps_mgr = ?mgr m ts, ps_now = now, ps_log = l\<rparr>"
  have "pkt_reachable ?T (?sys Map.empty [] 0 [])"
    using init [of ?T 0] by (simp add: pkt_init_def pktmgr_New_def)
  from step [OF this add [where i = 7]]
  have "pkt_reachable ?T (?sys [7 \<mapsto> 0] [(7, ?T)] 0 [Sent 7])"
    by (simp add: AddPacket_def)
  from step [OF this tick [where now = ?T]]
  have "pkt_reachable ?T (?sys [7 \<mapsto> 0] [(7, ?T)] ?T [Sent 7])"
    by (simp add: duration_eqs)
  from step [OF this expire [where n = 0 and i = 7 and d = ?T and m = "?mgr Map.empty []" and dropped = True]]
  have "pkt_reachable ?T (?sys Map.empty [] ?T [Dropped 7, Sent 7])"
    by (simp add: timer_fires_def)
  from step [OF this add [where i = 8]]
  have "pkt_reachable ?T (?sys [8 \<mapsto> ?T] [(8, ?T + ?T)] ?T [Sent 8, Dropped 7, Sent 7])"
    by (simp add: AddPacket_def)
  from step [OF this ack [where i = 8 and m = "?mgr Map.empty [(8, ?T + ?T)]" and r = "Some 0"]]
  have "pkt_reachable ?T (?sys Map.empty [(8, ?T + ?T)] ?T [Acked 8 0, Sent 8, Dropped 7, Sent 7])"
    by (simp add: RecvAck_Some fun_eq_iff)
  then show ?thesis by (simp add: example_pkt_run_def duration_eqs)
qed

theorem pings_resolved_once_witness:
  "resolved_count 7 (ps_log example_pkt_run) = 1 \<and>
   (\<forall>i. resolved_count i (ps_log example_pkt_run) \<le> sent_count i (ps_log example_pkt_run))"
  using pings_resolved_once [OF example_pkt_reachable] by (simp add: example_pkt_run_def)

text \<open>
  An acknowledgement of a pending ping returns the time since it was sent and leaves
  exactly the other pings that were sent no earlier; so a second acknowledgement of the
  same number, and the timer of any ping sent before it, find nothing and report nothing.
\<close>

lemma RecvAck_effect:
  assumes "RecvAck i now m = (m', Some rtt)"
  shows "pm_m m i = Some (now - rtt) \<and>
         (\<forall>k t. pm_m m' k = Some t \<longleftrightarrow> k \<noteq> i \<and> pm_m m k = Some t \<and> now - rtt \<le> t) \<and>
         (\<forall>now'. RecvAck i now' m' = (m', None)) \<and>
         (\<forall>n < length (pm_timers m'). \<forall>t. pm_m m (fst (pm_timers m' ! n)) = Some t \<and> t < now - rtt \<longrightarrow>
            \<not> snd (timer_fires n m'))"
proof -
  from assms obtain t0 where t0: "pm_m m i = Some t0" "rtt = now - t0"
    by (auto simp: RecvAck_def Let_def split: option.splits)
  with assms have m': "m' = m\<lparr>pm_m := (\<lambda>k. if k = i then None else
      case pm_m m k of None \<Rightarrow> None | Some t \<Rightarrow> if t < t0 then None else Some t)\<rparr>"
    by (simp add: RecvAck_Some)
  have map: "pm_m m' k = Some t \<longleftrightarrow> k \<noteq> i \<and> pm_m m k = Some t \<and> t0 \<le> t" for k t
    by (auto simp: m' split: option.splits)
  have "pm_m m' i = None"
    by (simp add: m')
  then have twice: "RecvAck i now' m' = (m', None)" for now'
    by (rule RecvAck_None)
  have quiet: "\<not> snd (timer_fires n m')"
    if "pm_m m (fst (pm_timers m' ! n)) = Some t" "t < t0" for n t
    using that by (auto simp: m' timer_fires_def Let_def)
  from t0 have "now - rtt = t0" by simp
  with t0 map twice quiet show ?thesis by simp
qed

end
