(* ===== verification/StatusCell.thy ===== *)
theory StatusCell
  imports Prelude
begin

text \<open>
  The status of a peer (\<open>discoPeerStatus\<close> in \<open>disco/discoPeer.go\<close>) and of an endpoint
  (\<open>discoPeerEndpointStatus\<close> in \<open>disco/discoPeerEndpoint.go\<close>) are the same mechanism
  written twice: a value behind a mutex and a condition variable, and a goroutine that
  calls a callback whenever the value changes. The cell is polymorphic in the value. The
  goroutine is a machine that stops wherever the code releases the lock, calls the
  callback or sleeps on the condition variable; \<open>Wait\<close> is the atomic release and sleep
  of \<open>sync.Cond\<close>, woken by \<open>Broadcast\<close> only. Each of the two loops is translated from
  its own source; the locale \<open>notify_loop\<close> says what both have in common, and what it
  proves holds of both through its two interpretations.
\<close>

section \<open>The cell\<close>

record 'a cell =
  cell_closed :: bool
  cell_value :: 'a

definition new_cell :: "'a \<Rightarrow> 'a cell" where
  "new_cell v = \<lparr>cell_closed = False, cell_value = v\<rparr>"

definition cell_Get :: "'a cell \<Rightarrow> 'a" where
  "cell_Get c = cell_value c"

text \<open>\<open>setStatus\<close> and \<open>close\<close>; their broadcast wakes the sleeper, see \<open>notify_sys_step\<close>.\<close>

definition cell_setStatus :: "'a \<Rightarrow> 'a cell \<Rightarrow> 'a cell" where
  "cell_setStatus v c = c\<lparr>cell_value := v\<rparr>"

definition cell_close :: "'a cell \<Rightarrow> 'a cell" where
  "cell_close c = c\<lparr>cell_closed := True\<rparr>"

section \<open>The two loops\<close>

text \<open>
  \<open>NStart\<close>: before the first read. \<open>NFirst v\<close>: about to call \<open>fn(v)\<close> for the first time.
  \<open>NLoop p\<close>: at the head of the loop with \<open>prev = p\<close>. \<open>NCall v\<close>: about to call \<open>fn(v)\<close>.
  \<open>NSleep p\<close> and \<open>NWoken p\<close>: inside \<open>cond.Wait\<close> before and after a broadcast.
\<close>

datatype 'a notify_pc =
  NStart | NFirst 'a | NLoop 'a | NCall 'a | NSleep 'a | NWoken 'a | NDone

text \<open>A step returns the next point and the callbacks made; \<open>None\<close> is blocked or ended.\<close>

fun endpoint_notify_step :: "'a cell \<Rightarrow> 'a notify_pc \<Rightarrow> ('a notify_pc \<times> 'a list) option" where
  "endpoint_notify_step s NStart = Some (NFirst (cell_value s), [])"
| "endpoint_notify_step s (NFirst prev) = Some (NLoop prev, [prev])"
| "endpoint_notify_step s (NLoop prev) =
     (let cur = cell_value s
      in if cell_closed s then Some (NDone, [])
         else if cur \<noteq> prev then Some (NCall cur, [])
         else Some (NSleep prev, []))"
| "endpoint_notify_step s (NCall cur) = Some (NLoop cur, [cur])"
| "endpoint_notify_step s (NSleep prev) = None"
| "endpoint_notify_step s (NWoken prev) =
     (let cur = cell_value s
      in if cell_closed s then Some (NDone, [])
         else if cur \<noteq> prev then Some (NCall cur, [])
         else Some (NLoop prev, []))"
| "endpoint_notify_step s NDone = None"

fun peer_notify_step :: "'a cell \<Rightarrow> 'a notify_pc \<Rightarrow> ('a notify_pc \<times> 'a list) option" where
  "peer_notify_step s NStart = Some (NFirst (cell_value s), [])"
| "peer_notify_step s (NFirst prev) = Some (NLoop prev, [prev])"
| "peer_notify_step s (NLoop prev) =
     (if cell_closed s then Some (NDone, [])
      else let cur = cell_value s
           in if cur \<noteq> prev then Some (NCall cur, [])
              else Some (NSleep prev, []))"
| "peer_notify_step s (NCall cur) = Some (NLoop cur, [cur])"
| "peer_notify_step s (NSleep prev) = None"
| "peer_notify_step s (NWoken prev) =
     (let cur = cell_value s
      in if cell_closed s then Some (NDone, [])
         else if cur \<noteq> prev then Some (NCall cur, [])
         else Some (NLoop prev, []))"
| "peer_notify_step s NDone = None"

section \<open>A notifier and its environment\<close>

type_synonym 'a notify_fun = "'a cell \<Rightarrow> 'a notify_pc \<Rightarrow> ('a notify_pc \<times> 'a list) option"

text \<open>\<open>ns_log\<close> is the list of callbacks, latest first; \<open>ns_past\<close> the values the cell has had.\<close>

record 'a notify_sys =
  ns_cell :: "'a cell"
  ns_pc :: "'a notify_pc"
  ns_log :: "'a list"
  ns_past :: "'a list"

definition new_notify_sys :: "'a cell \<Rightarrow> 'a notify_sys" where
  "new_notify_sys c = \<lparr>ns_cell = c, ns_pc = NStart, ns_log = [], ns_past = [cell_value c]\<rparr>"

fun broadcast :: "'a notify_pc \<Rightarrow> 'a notify_pc" where
  "broadcast (NSleep p) = NWoken p"
| "broadcast pc = pc"

inductive notify_sys_step :: "'a notify_fun \<Rightarrow> 'a notify_sys \<Rightarrow> 'a notify_sys \<Rightarrow> bool"
  for f :: "'a notify_fun" where
  run: "f (ns_cell s) (ns_pc s) = Some (pc, calls) \<Longrightarrow>
    notify_sys_step f s (s\<lparr>ns_pc := pc, ns_log := calls @ ns_log s\<rparr>)"
| set: "notify_sys_step f s (s\<lparr>ns_cell := cell_setStatus v (ns_cell s),
    ns_pc := broadcast (ns_pc s), ns_past := v # ns_past s\<rparr>)"
| close: "notify_sys_step f s (s\<lparr>ns_cell := cell_close (ns_cell s), ns_pc := broadcast (ns_pc s)\<rparr>)"

inductive notify_reachable :: "'a notify_fun \<Rightarrow> 'a notify_sys \<Rightarrow> bool"
  for f :: "'a notify_fun" where
  init: "notify_reachable f (new_notify_sys (new_cell v))"
| step: "notify_reachable f s \<Longrightarrow> notify_sys_step f s s' \<Longrightarrow> notify_reachable f s'"

text \<open>The goroutine running alone: a step, or nothing when it is blocked or has ended.\<close>

definition notify_alone :: "'a notify_fun \<Rightarrow> 'a notify_sys \<Rightarrow> 'a notify_sys" where
  "notify_alone f s =
     (case f (ns_cell s) (ns_pc s) of
        None \<Rightarrow> s
      | Some (pc, calls) \<Rightarrow> s\<lparr>ns_pc := pc, ns_log := calls @ ns_log s\<rparr>)"

text \<open>At rest: ended, or asleep with the current value as the last one reported.\<close>

definition quiet :: "'a notify_sys \<Rightarrow> bool" where
  "quiet s \<longleftrightarrow> (if cell_closed (ns_cell s) then ns_pc s = NDone
     else ns_pc s = NDone \<or> ns_pc s = NSleep (cell_value (ns_cell s)) \<and>
            ns_log s \<noteq> [] \<and> hd (ns_log s) = cell_value (ns_cell s))"

section \<open>The invariant of a notifier\<close>

text \<open>The value the loop holds as the last one reported.\<close>

fun reported :: "'a notify_pc \<Rightarrow> 'a list \<Rightarrow> bool" where
  "reported NStart log = (log = [])"
| "reported (NFirst v) log = (log = [])"
| "reported (NLoop p) log = (log \<noteq> [] \<and> hd log = p)"
| "reported (NCall v) log = (log \<noteq> [] \<and> hd log \<noteq> v)"
| "reported (NSleep p) log = (log \<noteq> [] \<and> hd log = p)"
| "reported (NWoken p) log = (log \<noteq> [] \<and> hd log = p)"
| "reported NDone log = (log \<noteq> [])"

fun carried :: "'a notify_pc \<Rightarrow> 'a set" where
  "carried (NFirst v) = {v}"
| "carried (NCall v) = {v}"
| "carried pc = {}"

definition notify_inv :: "'a notify_sys \<Rightarrow> bool" where
  "notify_inv s \<longleftrightarrow>
     reported (ns_pc s) (ns_log s) \<and>
     successively (\<noteq>) (ns_log s) \<and>
     cell_value (ns_cell s) \<in> set (ns_past s) \<and>
     set (ns_log s) \<union> carried (ns_pc s) \<subseteq> set (ns_past s) \<and>
     (\<forall>p. ns_pc s = NSleep p \<longrightarrow> cell_value (ns_cell s) = p \<and> \<not> cell_closed (ns_cell s))"

lemma reported_broadcast [simp]: "reported (broadcast pc) log = reported pc log"
  by (cases pc) auto

lemma carried_broadcast [simp]: "carried (broadcast pc) = carried pc"
  by (cases pc) auto

lemma broadcast_not_sleep [simp]: "broadcast pc \<noteq> NSleep p"
  by (cases pc) auto

lemma notify_inv_init: "notify_inv (new_notify_sys (new_cell v))"
  by (simp add: notify_inv_def new_notify_sys_def)

lemma notify_inv_env:
  assumes "notify_inv s"
  shows "notify_inv (s\<lparr>ns_cell := cell_setStatus v (ns_cell s),
           ns_pc := broadcast (ns_pc s), ns_past := v # ns_past s\<rparr>)"
    and "notify_inv (s\<lparr>ns_cell := cell_close (ns_cell s), ns_pc := broadcast (ns_pc s)\<rparr>)"
  using assms by (auto simp: notify_inv_def cell_setStatus_def cell_close_def)

text \<open>What the two loops have in common, point by point.\<close>

locale notify_loop =
  fixes f :: "'a notify_fun"
  assumes loop_start: "f s NStart = Some (NFirst (cell_value s), [])"
    and loop_first: "f s (NFirst prev) = Some (NLoop prev, [prev])"
    and loop_head: "f s (NLoop prev) =
      (if cell_closed s then Some (NDone, [])
       else if cell_value s \<noteq> prev then Some (NCall (cell_value s), [])
       else Some (NSleep prev, []))"
    and loop_call: "f s (NCall cur) = Some (NLoop cur, [cur])"
    and loop_sleep: "f s (NSleep prev) = None"
    and loop_woken: "f s (NWoken prev) =
      (if cell_closed s then Some (NDone, [])
       else if cell_value s \<noteq> prev then Some (NCall (cell_value s), [])
       else Some (NLoop prev, []))"
    and loop_done: "f s NDone = None"
begin

lemmas loop = loop_start loop_first loop_head loop_call loop_sleep loop_woken loop_done

lemma inv_run:
  assumes "notify_inv s" "f (ns_cell s) (ns_pc s) = Some (pc, calls)"
  shows "notify_inv (s\<lparr>ns_pc := pc, ns_log := calls @ ns_log s\<rparr>)"
proof (cases "ns_pc s")
  case (NCall v)
  with assms show ?thesis
    by (cases "ns_log s") (auto simp: notify_inv_def loop)
qed (use assms in \<open>auto simp: notify_inv_def loop split: if_splits\<close>)

lemma inv_step: "notify_sys_step f s s' \<Longrightarrow> notify_inv s \<Longrightarrow> notify_inv s'"
  by (induction rule: notify_sys_step.induct) (auto intro: inv_run notify_inv_env)

lemma reachable_inv: "notify_reachable f s \<Longrightarrow> notify_inv s"
  by (induction rule: notify_reachable.induct) (auto intro: notify_inv_init inv_step)

text \<open>Four steps of the goroutine alone bring it to rest.\<close>

lemma alone:
  "ns_pc s = NStart \<Longrightarrow> notify_alone f s = s\<lparr>ns_pc := NFirst (cell_value (ns_cell s))\<rparr>"
  "ns_pc s = NFirst v \<Longrightarrow> notify_alone f s = s\<lparr>ns_pc := NLoop v, ns_log := v # ns_log s\<rparr>"
  "ns_pc s = NCall v \<Longrightarrow> notify_alone f s = s\<lparr>ns_pc := NLoop v, ns_log := v # ns_log s\<rparr>"
  "ns_pc s = NSleep v \<Longrightarrow> notify_alone f s = s"
  "ns_pc s = NDone \<Longrightarrow> notify_alone f s = s"
  by (simp_all add: notify_alone_def loop)

lemma alone_head:
  assumes "ns_pc s = NLoop p \<or> ns_pc s = NWoken p"
  shows "cell_closed (ns_cell s) \<Longrightarrow> notify_alone f s = s\<lparr>ns_pc := NDone\<rparr>"
    and "\<not> cell_closed (ns_cell s) \<Longrightarrow> cell_value (ns_cell s) \<noteq> p \<Longrightarrow>
      notify_alone f s = s\<lparr>ns_pc := NCall (cell_value (ns_cell s))\<rparr>"
    and "\<not> cell_closed (ns_cell s) \<Longrightarrow> cell_value (ns_cell s) = p \<Longrightarrow>
      notify_alone f s = s\<lparr>ns_pc := (if ns_pc s = NLoop p then NSleep p else NLoop p)\<rparr>"
  using assms by (auto simp: notify_alone_def loop)

text \<open>Rest is stable; the lemmas \<open>rests_same\<close> to \<open>rests_head\<close> count the steps to it.\<close>

lemma quiet_alone: "quiet s \<Longrightarrow> notify_alone f s = s"
  by (auto simp: quiet_def alone split: if_splits)

lemma quiet_iter: "quiet ((notify_alone f ^^ m) s) \<Longrightarrow> quiet ((notify_alone f ^^ (n + m)) s)"
  by (induction n) (auto simp: quiet_alone)

lemma rests_mono: "quiet ((notify_alone f ^^ m) s) \<Longrightarrow> m \<le> n \<Longrightarrow> quiet ((notify_alone f ^^ n) s)"
  using quiet_iter [of m s "n - m"] by simp

lemma rests_same:
  assumes "ns_pc s = NLoop (cell_value (ns_cell s))" "hd (ns_log s) = cell_value (ns_cell s)"
    "ns_log s \<noteq> []"
  shows "quiet ((notify_alone f ^^ 1) s)"
  using assms by (cases "cell_closed (ns_cell s)") (auto simp: alone_head quiet_def)

lemma rests_call:
  assumes "ns_pc s = NCall (cell_value (ns_cell s)) \<or> ns_pc s = NFirst (cell_value (ns_cell s))"
  shows "quiet ((notify_alone f ^^ 2) s)"
proof -
  have "quiet ((notify_alone f ^^ 1) (notify_alone f s))"
    by (rule rests_same) (use assms in \<open>auto simp: alone\<close>)
  then show ?thesis by (simp add: numeral_2_eq_2 funpow_swap1)
qed

lemma rests_head:
  assumes "ns_pc s = NLoop p \<or> ns_pc s = NWoken p" "ns_log s \<noteq> []" "hd (ns_log s) = p"
  shows "quiet ((notify_alone f ^^ 3) s)"
proof (cases "cell_closed (ns_cell s) \<or> cell_value (ns_cell s) \<noteq> p")
  case True
  have "quiet ((notify_alone f ^^ 2) (notify_alone f s))"
  proof (cases "cell_closed (ns_cell s)")
    case closed: True
    have "quiet (notify_alone f s)"
      using assms closed by (auto simp: alone_head quiet_def)
    then show ?thesis using quiet_iter [of 0 "notify_alone f s" 2] by simp
  next
    case False
    with True assms show ?thesis
      by (intro rests_call) (auto simp: alone_head)
  qed
  then show ?thesis by (simp add: numeral_eq_Suc funpow_swap1)
next
  case False
  then have val: "\<not> cell_closed (ns_cell s)" "cell_value (ns_cell s) = p" by auto
  show ?thesis
  proof (cases "ns_pc s = NLoop p")
    case True
    with val assms have "quiet ((notify_alone f ^^ 1) s)"
      by (intro rests_same) auto
    then show ?thesis by (rule rests_mono) simp
  next
    case woken: False
    with val assms have "quiet ((notify_alone f ^^ 1) (notify_alone f s))"
      by (intro rests_same) (auto simp: alone_head)
    then have "quiet ((notify_alone f ^^ 2) s)"
      by (simp add: numeral_2_eq_2 funpow_swap1)
    then show ?thesis by (rule rests_mono) simp
  qed
qed

lemma settles:
  assumes "notify_inv s"
  shows "quiet ((notify_alone f ^^ 4) s)"
proof (cases "\<exists>v. ns_pc s = NFirst v \<or> ns_pc s = NCall v")
  case True
  then obtain v where "ns_pc s = NFirst v \<or> ns_pc s = NCall v" by auto
  then have "quiet ((notify_alone f ^^ 3) (notify_alone f s))"
    by (intro rests_head [where p = v]) (auto simp: alone)
  then show ?thesis by (simp add: numeral_eq_Suc funpow_swap1)
next
  case False
  show ?thesis
  proof (cases "ns_pc s")
    case NStart
    then have "quiet ((notify_alone f ^^ 2) (notify_alone f s))"
      by (intro rests_call) (auto simp: alone)
    then have "quiet ((notify_alone f ^^ 3) s)"
      by (simp add: numeral_eq_Suc funpow_swap1)
    then show ?thesis by (rule rests_mono) simp
  next
    case (NLoop p)
    with assms have "quiet ((notify_alone f ^^ 3) s)"
      by (intro rests_head) (auto simp: notify_inv_def)
    then show ?thesis by (rule rests_mono) simp
  next
    case (NWoken p)
    with assms have "quiet ((notify_alone f ^^ 3) s)"
      by (intro rests_head) (auto simp: notify_inv_def)
    then show ?thesis by (rule rests_mono) simp
  next
    case (NSleep p)
    with assms have "quiet ((notify_alone f ^^ 0) s)"
      by (auto simp: notify_inv_def quiet_def)
    then show ?thesis by (rule rests_mono) simp
  next
    case NDone
    then have "quiet ((notify_alone f ^^ 0) s)"
      by (simp add: quiet_def)
    then show ?thesis by (rule rests_mono) simp
  qed (use False in auto)
qed

end

interpretation endpoint_notify: notify_loop endpoint_notify_step
  by unfold_locales (auto simp: Let_def)

interpretation peer_notify: notify_loop peer_notify_step
  by unfold_locales (auto simp: Let_def)

section \<open>Properties\<close>

text \<open>
  C15. Whatever \<open>setStatus\<close> and \<open>close\<close> calls interleave with the loop of a peer's
  status, the callback is only given values the status has had, never the same value
  twice in a row, and no update is lost: the goroutine sleeps only while the status is
  open and its current value is the one reported last.
\<close>

theorem peer_notify_no_lost_update:
  assumes "notify_reachable peer_notify_step s"
  shows "set (ns_log s) \<subseteq> set (ns_past s) \<and> successively (\<noteq>) (ns_log s) \<and>
         (\<forall>p. ns_pc s = NSleep p \<longrightarrow>
            p = cell_value (ns_cell s) \<and> \<not> cell_closed (ns_cell s) \<and>
            ns_log s \<noteq> [] \<and> hd (ns_log s) = cell_value (ns_cell s))"
  using peer_notify.reachable_inv [OF assms] by (auto simp: notify_inv_def)

text \<open>
  From every reachable state the endpoint's status loop, left alone, comes to rest
  within four steps: when the status is closed the goroutine has ended, otherwise it is
  asleep and its last callback was given the current value.
\<close>

lemma endpoint_notify_settles:
  assumes "notify_reachable endpoint_notify_step s"
  shows "quiet ((notify_alone endpoint_notify_step ^^ 4) s)"
  using endpoint_notify.settles [OF endpoint_notify.reachable_inv [OF assms]] .

text \<open>
  Two updates while the callback for the first value is still running: the second one
  overwrites the first, and only the second is reported.
\<close>

definition example_notify_run :: "nat notify_sys" where
  "example_notify_run =
     \<lparr>ns_cell = new_cell 2, ns_pc = NFirst 0, ns_log = [], ns_past = [2, 1, 0]\<rparr>"

lemma example_notify_reachable:
  assumes "notify_loop f"
  shows "notify_reachable f example_notify_run"
proof -
  let ?sys = "\<lambda>v pc past. \<lparr>ns_cell = new_cell v, ns_pc = pc, ns_log = [], ns_past = past\<rparr>"
  have "notify_reachable f (?sys 0 NStart [0])"
    using init [of f 0] by (simp add: new_notify_sys_def new_cell_def)
  from step [OF this run [where pc = "NFirst 0" and calls = "[]"]]
  have "notify_reachable f (?sys 0 (NFirst 0) [0])"
    by (simp add: notify_loop.loop_start [OF assms] new_cell_def)
  from step [OF this set [where v = 1]]
  have "notify_reachable f (?sys 1 (NFirst 0) [1, 0])"
    by (simp add: cell_setStatus_def new_cell_def)
  from step [OF this set [where v = 2]]
  show ?thesis
    by (simp add: cell_setStatus_def new_cell_def example_notify_run_def)
qed

lemma notify_alone_reachable:
  assumes "notify_reachable f s"
  shows "notify_reachable f ((notify_alone f ^^ n) s)"
proof (induction n)
  case (Suc n)
  then show ?case
    by (auto simp: notify_alone_def intro: step run split: option.split prod.split)
qed (simp add: assms)

theorem peer_notify_no_lost_update_witness:
  "let s = (notify_alone peer_notify_step ^^ 4) example_notify_run
   in ns_pc s = NSleep 2 \<and> hd (ns_log s) = 2 \<and> set (ns_log s) \<subseteq> set (ns_past s)"
  using peer_notify_no_lost_update [OF notify_alone_reachable
      [OF example_notify_reachable [OF peer_notify.notify_loop_axioms], of 4]]
  by (simp add: numeral_eq_Suc notify_alone_def example_notify_run_def new_cell_def)

end
