(* ===== verification/Wgkey.thy ===== *)
theory Wgkey
  imports Prelude
begin

text \<open>
  \<open>pkg/wgkey/disco.go\<close>: the keys of the disco protocol. Keys are 32-byte arrays. Their
  text form is the standard base64 encoding of Go's \<open>encoding/base64\<close>, which is modelled
  here character by character, including that the decoder skips line breaks and does not
  look at the unused bits of the last quantum. The NaCl box functions of
  \<open>golang.org/x/crypto\<close> are a parameter.
\<close>

section \<open>base64.StdEncoding\<close>

definition b64_char :: "nat \<Rightarrow> char" where
  "b64_char n = char_of
     (if n < 26 then 65 + n else if n < 52 then 71 + n else if n < 62 then n - 4
      else if n = 62 then 43 else (47::nat))"

definition b64_val :: "char \<Rightarrow> nat option" where
  "b64_val c = (let n = of_char c in
     if 65 \<le> n \<and> n \<le> 90 then Some (n - 65)
     else if 97 \<le> n \<and> n \<le> 122 then Some (n - 71)
     else if 48 \<le> n \<and> n \<le> 57 then Some (n + 4)
     else if n = 43 then Some 62
     else if n = 47 then Some 63
     else None)"

fun EncodeToString :: "byte list \<Rightarrow> string" where
  "EncodeToString [] = []"
| "EncodeToString [a] =
     [b64_char (unat a div 4), b64_char (unat a mod 4 * 16), CHR ''='', CHR ''='']"
| "EncodeToString [a, b] =
     [b64_char (unat a div 4), b64_char (unat a mod 4 * 16 + unat b div 16),
      b64_char (unat b mod 16 * 4), CHR ''='']"
| "EncodeToString (a # b # c # bs) =
     b64_char (unat a div 4) # b64_char (unat a mod 4 * 16 + unat b div 16) #
     b64_char (unat b mod 16 * 4 + unat c div 64) # b64_char (unat c mod 64) #
     EncodeToString bs"

definition byte_of :: "nat \<Rightarrow> byte" where
  "byte_of n = word_of_nat n"

definition quantum1 :: "char \<Rightarrow> char \<Rightarrow> byte list option" where
  "quantum1 a b = (case (b64_val a, b64_val b) of
     (Some p, Some q) \<Rightarrow> Some [byte_of (p * 4 + q div 16)] | _ \<Rightarrow> None)"

definition quantum2 :: "char \<Rightarrow> char \<Rightarrow> char \<Rightarrow> byte list option" where
  "quantum2 a b c = (case (b64_val a, b64_val b, b64_val c) of
     (Some p, Some q, Some r) \<Rightarrow>
       Some [byte_of (p * 4 + q div 16), byte_of (q mod 16 * 16 + r div 4)] | _ \<Rightarrow> None)"

definition quantum3 :: "char \<Rightarrow> char \<Rightarrow> char \<Rightarrow> char \<Rightarrow> byte list option" where
  "quantum3 a b c d = (case (b64_val a, b64_val b, b64_val c, b64_val d) of
     (Some p, Some q, Some r, Some s) \<Rightarrow>
       Some [byte_of (p * 4 + q div 16), byte_of (q mod 16 * 16 + r div 4),
             byte_of (r mod 4 * 64 + s)] | _ \<Rightarrow> None)"

fun decode_quanta :: "string \<Rightarrow> byte list option" where
  "decode_quanta [] = Some []"
| "decode_quanta (a # b # c # d # cs) =
     (if cs = [] \<and> d = CHR ''='' then (if c = CHR ''='' then quantum1 a b else quantum2 a b c)
      else (case quantum3 a b c d of
              None \<Rightarrow> None
            | Some bs \<Rightarrow> map_option ((@) bs) (decode_quanta cs)))"
| "decode_quanta _ = None"

definition is_newline :: "char \<Rightarrow> bool" where
  "is_newline c \<longleftrightarrow> of_char c = (10::nat) \<or> of_char c = (13::nat)"

definition DecodeString :: "string \<Rightarrow> byte list option" where
  "DecodeString s = decode_quanta (filter (\<lambda>c. \<not> is_newline c) s)"

section \<open>Keys\<close>

type_synonym key = "byte list"

definition is_key :: "key \<Rightarrow> bool" where
  "is_key k \<longleftrightarrow> length k = 32"

datatype key_error = CorruptInput | InvalidKeyLength nat

definition key_Unmarshal :: "string \<Rightarrow> key_error + key" where
  "key_Unmarshal encoded =
     (case DecodeString encoded of
        None \<Rightarrow> Inl CorruptInput
      | Some b \<Rightarrow> if length b \<noteq> 32 then Inl (InvalidKeyLength (length b)) else Inr b)"

definition key_Parse :: "string \<Rightarrow> key_error + key" where
  "key_Parse pubKey = (case key_Unmarshal pubKey of Inl e \<Rightarrow> Inl e | Inr k \<Rightarrow> Inr k)"

definition key_Marshal :: "key \<Rightarrow> string" where
  "key_Marshal d = EncodeToString d"

definition key_String :: "key \<Rightarrow> string" where
  "key_String d = EncodeToString d"

section \<open>The NaCl box\<close>

text \<open>
  \<open>nb_precompute pub priv\<close>, \<open>nb_seal msg nonce shared\<close> and \<open>nb_open ct nonce shared\<close>
  are \<open>box.Precompute\<close>, \<open>box.SealAfterPrecomputation\<close> (without the prefix it appends to)
  and \<open>box.OpenAfterPrecomputation\<close>; \<open>nb_public\<close> is \<open>wgtypes.Key.PublicKey\<close>.
\<close>

record nacl_box =
  nb_public :: "key \<Rightarrow> key"
  nb_precompute :: "key \<Rightarrow> key \<Rightarrow> key"
  nb_seal :: "byte list \<Rightarrow> byte list \<Rightarrow> key \<Rightarrow> byte list"
  nb_open :: "byte list \<Rightarrow> byte list \<Rightarrow> key \<Rightarrow> byte list option"

text \<open>
  The documented behaviour of the box: public keys have 32 bytes, both sides compute the
  same shared key, what was sealed opens, and what opens was sealed with that nonce and
  key (the ciphertext is a function of message, nonce and key, and it is authenticated).
\<close>

definition nacl_laws :: "nacl_box \<Rightarrow> bool" where
  "nacl_laws B \<longleftrightarrow>
     (\<forall>a. length (nb_public B a) = 32) \<and>
     (\<forall>a b. nb_precompute B (nb_public B b) a = nb_precompute B (nb_public B a) b) \<and>
     (\<forall>m n k. nb_open B (nb_seal B m n k) n k = Some m) \<and>
     (\<forall>c m n k. nb_open B c n k = Some m \<longrightarrow> c = nb_seal B m n k)"

definition nonceLen :: nat where
  "nonceLen = 24"

definition key_Shared :: "nacl_box \<Rightarrow> key \<Rightarrow> key \<Rightarrow> key" where
  "key_Shared B d pubKey = nb_precompute B pubKey d"

definition key_Public :: "nacl_box \<Rightarrow> key \<Rightarrow> key" where
  "key_Public B d = nb_public B d"

text \<open>
  \<open>rnd\<close> is what \<open>io.ReadFull(rand.Reader, nonce[:])\<close> delivers: a nonce, or nothing when
  reading fails.
\<close>

definition shared_Encrypt :: "nacl_box \<Rightarrow> byte list option \<Rightarrow> key \<Rightarrow> byte list \<Rightarrow> byte list option" where
  "shared_Encrypt B rnd d cleartext =
     (case rnd of
        None \<Rightarrow> None
      | Some nonce \<Rightarrow> Some (nonce @ nb_seal B cleartext nonce d))"

definition shared_Decrypt :: "nacl_box \<Rightarrow> key \<Rightarrow> byte list \<Rightarrow> byte list option" where
  "shared_Decrypt B d ciphertext =
     (if length ciphertext < nonceLen then None
      else nb_open B (drop nonceLen ciphertext) (take nonceLen ciphertext) d)"

section \<open>Lemmas\<close>

lemma of_char_b64:
  "n < 64 \<Longrightarrow> of_char (b64_char n) =
     (if n < 26 then 65 + n else if n < 52 then 71 + n else if n < 62 then n - 4
      else if n = 62 then 43 else (47::nat))"
  by (simp add: b64_char_def of_char_of)

lemma b64_val_char:
  assumes "n < 64"
  shows "b64_val (b64_char n) = Some n"
proof -
  consider "n < 26" | "26 \<le> n" "n < 52" | "52 \<le> n" "n < 62" | "n = 62" | "n = 63"
    using assms by linarith
  then show ?thesis
    by cases (auto simp: b64_val_def Let_def of_char_b64)
qed

lemma b64_char_not_pad: "n < 64 \<Longrightarrow> b64_char n \<noteq> CHR ''=''"
proof
  assume "n < 64" "b64_char n = CHR ''=''"
  then have "of_char (b64_char n) = (61::nat)" by simp
  with \<open>n < 64\<close> show False by (simp add: of_char_b64 split: if_splits)
qed

lemma b64_char_no_newline: "n < 64 \<Longrightarrow> \<not> is_newline (b64_char n)"
  by (auto simp: is_newline_def of_char_b64)

lemma unat_byte_less: "unat (a::byte) < 256"
  by (rule order_less_le_trans [OF unsigned_less]) simp

lemma sextets_less:
  "unat (a::byte) div 4 < 64" "unat a mod 4 * 16 < 64" "unat a mod 16 * 4 < 64"
  "unat a mod 4 * 16 + unat (b::byte) div 16 < 64"
  "unat a mod 16 * 4 + unat b div 64 < 64" "unat a mod 64 < 64"
  using unat_byte_less [of a] unat_byte_less [of b] by linarith+

lemma nat_joins:
  fixes x y z :: nat
  shows "x div 4 * 4 + x mod 4 * 16 div 16 = x"
    and "y < 256 \<Longrightarrow> x div 4 * 4 + (x mod 4 * 16 + y div 16) div 16 = x"
    and "y < 256 \<Longrightarrow> (x mod 4 * 16 + y div 16) mod 16 * 16 + y mod 16 * 4 div 4 = y"
    and "y < 256 \<Longrightarrow> z < 256 \<Longrightarrow>
      (x mod 4 * 16 + y div 16) mod 16 * 16 + (y mod 16 * 4 + z div 64) div 4 = y"
    and "z < 256 \<Longrightarrow> (y mod 16 * 4 + z div 64) mod 4 * 64 + z mod 64 = z"
      apply simp
     apply (simp add: div_mult2_eq [symmetric])
    apply (simp add: less_mult_imp_div_less)
   apply (simp add: less_mult_imp_div_less)
  apply (simp add: less_mult_imp_div_less)
  done

lemma byte_of_unat [simp]: "byte_of (unat a) = a"
  by (simp add: byte_of_def)

lemma sextet_joins:
  "byte_of (unat a div 4 * 4 + unat a mod 4 * 16 div 16) = a"
  "byte_of (unat a div 4 * 4 + (unat a mod 4 * 16 + unat (b::byte) div 16) div 16) = a"
  "byte_of ((unat a mod 4 * 16 + unat b div 16) mod 16 * 16 + unat b mod 16 * 4 div 4) = b"
  "byte_of ((unat a mod 4 * 16 + unat b div 16) mod 16 * 16
     + (unat b mod 16 * 4 + unat (c::byte) div 64) div 4) = b"
  "byte_of ((unat b mod 16 * 4 + unat c div 64) mod 4 * 64 + unat c mod 64) = c"
  by (simp_all only: nat_joins unat_byte_less byte_of_unat)

lemma quanta_roundtrip:
  "quantum1 (b64_char (unat a div 4)) (b64_char (unat a mod 4 * 16)) = Some [a]"
  "quantum2 (b64_char (unat a div 4)) (b64_char (unat a mod 4 * 16 + unat b div 16))
     (b64_char (unat b mod 16 * 4)) = Some [a, b]"
  "quantum3 (b64_char (unat a div 4)) (b64_char (unat a mod 4 * 16 + unat b div 16))
     (b64_char (unat b mod 16 * 4 + unat c div 64)) (b64_char (unat c mod 64)) = Some [a, b, c]"
  by (simp_all only: quantum1_def quantum2_def quantum3_def b64_val_char sextets_less
      sextet_joins prod.case option.case)

lemma decode_quanta_encode: "decode_quanta (EncodeToString bs) = Some bs"
proof (induction bs rule: EncodeToString.induct)
  case (4 a b c bs)
  have "b64_char (unat c mod 64) \<noteq> CHR ''=''"
    by (rule b64_char_not_pad) (rule sextets_less)
  then show ?case
    by (simp only: 4 EncodeToString.simps decode_quanta.simps quanta_roundtrip simp_thms
        if_False option.case option.map append.simps)
next
  case (3 a b)
  have "b64_char (unat b mod 16 * 4) \<noteq> CHR ''=''"
    by (rule b64_char_not_pad) (rule sextets_less)
  then show ?case
    by (simp only: EncodeToString.simps decode_quanta.simps quanta_roundtrip simp_thms
        if_False if_True)
qed (simp_all only: EncodeToString.simps decode_quanta.simps quanta_roundtrip simp_thms if_True)

lemma pad_no_newline: "\<not> is_newline (CHR ''='')"
  by (simp add: is_newline_def)

lemma encode_no_newline: "list_all (\<lambda>c. \<not> is_newline c) (EncodeToString bs)"
  by (induction bs rule: EncodeToString.induct)
    (simp_all only: EncodeToString.simps list.pred_inject pad_no_newline b64_char_no_newline
      sextets_less simp_thms)

lemma DecodeString_EncodeToString: "DecodeString (EncodeToString bs) = Some bs"
proof -
  have "filter (\<lambda>c. \<not> is_newline c) (EncodeToString bs) = EncodeToString bs"
    using encode_no_newline [of bs] by (simp add: filter_id_conv list_all_iff)
  then show ?thesis by (simp add: DecodeString_def decode_quanta_encode)
qed

lemma EncodeToString_inj: "EncodeToString bs = EncodeToString cs \<longleftrightarrow> bs = cs"
  by (metis DecodeString_EncodeToString option.inject)

lemma length_EncodeToString: "length (EncodeToString bs) = (length bs + 2) div 3 * 4"
proof (induction bs rule: EncodeToString.induct)
  case (4 a b c bs)
  have "(length (a # b # c # bs) + 2) div 3 = Suc ((length bs + 2) div 3)"
    by simp
  with 4 show ?case by simp
qed simp_all

lemma shared_roundtrip:
  assumes "nacl_laws B" "length nonce = nonceLen" "shared_Encrypt B (Some nonce) d m = Some c"
  shows "shared_Decrypt B d c = Some m"
  using assms by (auto simp: shared_Encrypt_def shared_Decrypt_def nacl_laws_def)

lemma shared_Decrypt_sealed:
  assumes "nacl_laws B" "shared_Decrypt B d c = Some m"
  shows "shared_Encrypt B (Some (take nonceLen c)) d m = Some c"
proof -
  have "nb_open B (drop nonceLen c) (take nonceLen c) d = Some m"
    using assms(2) by (simp add: shared_Decrypt_def split: if_splits)
  with assms(1) have "nb_seal B m (take nonceLen c) d = drop nonceLen c"
    by (metis nacl_laws_def)
  then show ?thesis by (simp add: shared_Encrypt_def)
qed

lemma key_Shared_sym:
  "nacl_laws B \<Longrightarrow> key_Shared B a (key_Public B b) = key_Shared B b (key_Public B a)"
  by (simp add: nacl_laws_def key_Shared_def key_Public_def)

section \<open>Properties\<close>

text \<open>
  The text form of a public key: parsing what \<open>String\<close> and \<open>Marshal\<close> print gives the
  key back, the text has 44 characters, different keys have different texts, and
  \<open>Parse\<close> never returns a key that is not 32 bytes long, whatever the text.
\<close>

lemma key_text_roundtrip:
  "(is_key k \<longrightarrow> key_Parse (key_String k) = Inr k \<and> key_Parse (key_Marshal k) = Inr k \<and>
      length (key_String k) = 44) \<and>
   (key_String k = key_String k' \<longleftrightarrow> k = k') \<and>
   (\<forall>s k''. key_Parse s = Inr k'' \<longrightarrow> is_key k'')"
  by (auto simp: key_Parse_def key_Unmarshal_def key_String_def key_Marshal_def is_key_def
      DecodeString_EncodeToString EncodeToString_inj length_EncodeToString
      split: option.splits if_splits)

end
