(* ===== verification/Packet.thy ===== *)
theory Packet
  imports Wgkey
begin

text \<open>
  \<open>disco/packet.go\<close>: the disco packet on the wire. The clear packet carries the numbers of
  the endpoint and of the ping; encrypted with the shared key they travel behind one header
  byte and the public key of the sender.
\<close>

unbundle bit_operations_syntax

section \<open>Packets\<close>

definition PingMessage :: byte where "PingMessage = 128"
definition PongMessage :: byte where "PongMessage = 129"

definition header_String :: "byte \<Rightarrow> string" where
  "header_String d =
     (if d = PingMessage then ''ping'' else if d = PongMessage then ''pong'' else '''')"

record enc_packet =
  enc_Header :: byte
  enc_SrcPublicDiscoKey :: key
  enc_EncryptedPayload :: "byte list"
  enc_Endpoint :: addr_port

record disco_packet =
  pkt_Header :: byte
  pkt_SrcPublicDiscoKey :: key
  pkt_EndpointID :: u32
  pkt_ID :: u32
  pkt_Endpoint :: addr_port
  pkt_SharedKey :: key

section \<open>Marshal and Unmarshal\<close>

definition Marshal :: "enc_packet \<Rightarrow> byte list option" where
  "Marshal d =
     (if enc_Header d = PingMessage \<or> enc_Header d = PongMessage
      then Some ([enc_Header d] @ enc_SrcPublicDiscoKey d @ enc_EncryptedPayload d)
      else None)"

text \<open>\<open>None\<close> is the result \<open>false\<close>, which leaves the receiver as it was.\<close>

definition Unmarshal :: "enc_packet \<Rightarrow> byte list \<Rightarrow> enc_packet option" where
  "Unmarshal d b =
     (if length b < 1 + 32 then None
      else let payloadIdx = 1 + 32
           in Some (d\<lparr>enc_Header := b ! 0,
                      enc_SrcPublicDiscoKey := drop 1 (take payloadIdx b),
                      enc_EncryptedPayload := drop payloadIdx b\<rparr>))"

section \<open>encoding/binary, big endian\<close>

definition PutUint32 :: "u32 \<Rightarrow> byte list" where
  "PutUint32 w = [ucast (drop_bit 24 w), ucast (drop_bit 16 w), ucast (drop_bit 8 w), ucast w]"

definition Uint32 :: "byte list \<Rightarrow> u32" where
  "Uint32 b = ucast (b ! 3) OR push_bit 8 (ucast (b ! 2))
     OR push_bit 16 (ucast (b ! 1)) OR push_bit 24 (ucast (b ! 0))"

section \<open>Encrypt and Decrypt\<close>

definition packet_Encrypt :: "nacl_box \<Rightarrow> byte list option \<Rightarrow> disco_packet \<Rightarrow> enc_packet option" where
  "packet_Encrypt B rnd d =
     (let encryptedPayload = PutUint32 (pkt_EndpointID d) @ PutUint32 (pkt_ID d)
            @ pkt_SrcPublicDiscoKey d
      in case shared_Encrypt B rnd (pkt_SharedKey d) encryptedPayload of
           None \<Rightarrow> None
         | Some ciphertext \<Rightarrow>
             Some \<lparr>enc_Header = pkt_Header d, enc_SrcPublicDiscoKey = pkt_SrcPublicDiscoKey d,
                   enc_EncryptedPayload = ciphertext, enc_Endpoint = pkt_Endpoint d\<rparr>)"

text \<open>
  The receiver of \<open>Decrypt\<close> is written to before the last check, so the model returns it
  also where the result is \<open>false\<close>.
\<close>

definition packet_Decrypt :: "nacl_box \<Rightarrow> disco_packet \<Rightarrow> enc_packet \<Rightarrow> disco_packet \<times> bool" where
  "packet_Decrypt B d encrypted =
     (case shared_Decrypt B (pkt_SharedKey d) (enc_EncryptedPayload encrypted) of
        None \<Rightarrow> (d, False)
      | Some p \<Rightarrow>
          if length p < 40 then (d, False)
          else let d1 = d\<lparr>pkt_Header := enc_Header encrypted,
                          pkt_SrcPublicDiscoKey := enc_SrcPublicDiscoKey encrypted,
                          pkt_EndpointID := Uint32 (take 4 p),
                          pkt_ID := Uint32 (drop 4 (take 8 p))\<rparr>
               in if drop 8 p \<noteq> pkt_SrcPublicDiscoKey d1 then (d1, False)
                  else (d1\<lparr>pkt_Endpoint := enc_Endpoint encrypted\<rparr>, True))"

section \<open>Lemmas\<close>

lemma header_distinct [simp]: "PingMessage \<noteq> PongMessage" "PongMessage \<noteq> PingMessage"
  by (simp_all add: PingMessage_def PongMessage_def)

lemma length_PutUint32 [simp]: "length (PutUint32 w) = 4"
  by (simp add: PutUint32_def)

lemma Uint32_PutUint32: "Uint32 (PutUint32 w) = w"
proof (rule bit_word_eqI)
  fix n assume "n < LENGTH(32)"
  then consider "n < 8" | "8 \<le> n" "n < 16" | "16 \<le> n" "n < 24" | "24 \<le> n" "n < 32"
    by fastforce
  then show "bit (Uint32 (PutUint32 w)) n = bit w n"
    by cases (auto simp: Uint32_def PutUint32_def bit_simps)
qed

lemma Marshal_length:
  "Marshal d = Some b \<Longrightarrow>
     length b = 1 + length (enc_SrcPublicDiscoKey d) + length (enc_EncryptedPayload d)"
  by (auto simp: Marshal_def split: if_splits)

lemma Unmarshal_key: "Unmarshal d b = Some d' \<Longrightarrow> is_key (enc_SrcPublicDiscoKey d')"
  by (auto simp: Unmarshal_def is_key_def Let_def split: if_splits)

lemma Unmarshal_Marshal:
  assumes "Marshal d = Some b" "is_key (enc_SrcPublicDiscoKey d)"
  shows "Unmarshal q b = Some (d\<lparr>enc_Endpoint := enc_Endpoint q\<rparr>)"
  using assms by (auto simp: Marshal_def Unmarshal_def is_key_def Let_def split: if_splits)

lemma Marshal_Unmarshal:
  assumes "Unmarshal q b = Some d" "enc_Header d = PingMessage \<or> enc_Header d = PongMessage"
  shows "Marshal d = Some b"
proof -
  from assms(1) have b: "33 \<le> length b"
    by (simp add: Unmarshal_def split: if_splits)
  have "b ! 0 # drop (Suc 0) (take 33 b) @ drop 33 b = b"
    using b by (cases b) (auto simp: numeral_eq_Suc)
  with assms show ?thesis
    by (auto simp: Unmarshal_def Marshal_def Let_def split: if_splits)
qed

lemma packet_Decrypt_SharedKey: "packet_Decrypt B d e = (d', ok) \<Longrightarrow> pkt_SharedKey d' = pkt_SharedKey d"
  by (auto simp: packet_Decrypt_def Let_def split: option.splits if_splits)

lemma packet_roundtrip:
  assumes laws: "nacl_laws B" and nonce: "length nonce = nonceLen"
    and key: "is_key (pkt_SrcPublicDiscoKey d)"
    and enc: "packet_Encrypt B (Some nonce) d = Some e" and shared: "pkt_SharedKey r = pkt_SharedKey d"
  shows "packet_Decrypt B r e = (d, True)"
proof -
  let ?p = "PutUint32 (pkt_EndpointID d) @ PutUint32 (pkt_ID d) @ pkt_SrcPublicDiscoKey d"
  obtain c where c: "shared_Encrypt B (Some nonce) (pkt_SharedKey d) ?p = Some c"
    by (simp add: shared_Encrypt_def)
  with enc have e: "e = \<lparr>enc_Header = pkt_Header d, enc_SrcPublicDiscoKey = pkt_SrcPublicDiscoKey d,
      enc_EncryptedPayload = c, enc_Endpoint = pkt_Endpoint d\<rparr>"
    by (simp add: packet_Encrypt_def)
  have "shared_Decrypt B (pkt_SharedKey r) c = Some ?p"
    using shared_roundtrip [OF laws nonce c] shared by simp
  with e key shared show ?thesis
    by (simp add: packet_Decrypt_def Let_def Uint32_PutUint32 is_key_def)
qed

section \<open>Properties\<close>

text \<open>
  The wire form: \<open>Marshal\<close> refuses every header but ping and pong; unmarshalling what
  it produced gives the same packet, with the endpoint of the receiving side; and what
  \<open>Unmarshal\<close> accepts is marshalled to the same bytes, if its header is one of the two.
\<close>

lemma wire_roundtrip:
  "(Marshal d = None \<longleftrightarrow> enc_Header d \<noteq> PingMessage \<and> enc_Header d \<noteq> PongMessage) \<and>
   (is_key (enc_SrcPublicDiscoKey d) \<longrightarrow> Marshal d = Some b \<longrightarrow>
      Unmarshal q b = Some (d\<lparr>enc_Endpoint := enc_Endpoint q\<rparr>)) \<and>
   (Unmarshal q b = Some d \<longrightarrow> Marshal d \<noteq> None \<longrightarrow> Marshal d = Some b) \<and>
   (Unmarshal q b = None \<longleftrightarrow> length b < 33)"
  using Unmarshal_Marshal [of d b q] Marshal_Unmarshal [of q b d]
  by (auto simp: Marshal_def Unmarshal_def Let_def)

definition example_enc_packet :: enc_packet where
  "example_enc_packet = \<lparr>enc_Header = PongMessage, enc_SrcPublicDiscoKey = replicate 32 7,
     enc_EncryptedPayload = [1, 2], enc_Endpoint = AddrPort (IP4 5) 9\<rparr>"

text \<open>
  A concrete box for the witnesses: every key pair has the same public and shared key,
  and sealing puts nonce and key in front of the message.
\<close>

definition example_box :: nacl_box where
  "example_box = \<lparr>nb_public = (\<lambda>_. replicate 32 1), nb_precompute = (\<lambda>_ _. replicate 32 2),
     nb_seal = (\<lambda>m n k. n @ k @ m),
     nb_open = (\<lambda>c n k. if take (length (n @ k)) c = n @ k then Some (drop (length (n @ k)) c)
                        else None)\<rparr>"

lemma example_box_laws: "nacl_laws example_box"
proof -
  have "c = n @ k @ drop (length n + length k) c" if "take (length n + length k) c = n @ k"
    for c n k :: "byte list"
    using that by (metis append_assoc append_take_drop_id)
  then show ?thesis
    by (auto simp: nacl_laws_def example_box_def split: if_splits)
qed

text \<open>
  C19. End to end: a ping or pong that the holder of private key \<open>a\<close> encrypts for the peer
  \<open>b\<close> and puts on the wire is received by \<open>b\<close> with the same header, endpoint number,
  packet number and source key, and with the address it came from as its endpoint.
\<close>

theorem disco_end_to_end:
  assumes "nacl_laws B" "length nonce = nonceLen"
    and "pkt_Header d = PingMessage \<or> pkt_Header d = PongMessage"
    and "pkt_SrcPublicDiscoKey d = key_Public B a"
    and "pkt_SharedKey d = key_Shared B a (key_Public B b)"
    and "packet_Encrypt B (Some nonce) d = Some e"
    and "pkt_SharedKey r = key_Shared B b (key_Public B a)"
  shows "\<exists>bytes. Marshal e = Some bytes \<and>
           (\<exists>e'. Unmarshal q bytes = Some e' \<and> enc_SrcPublicDiscoKey e' = key_Public B a \<and>
                 packet_Decrypt B r e' =
                   (d\<lparr>pkt_Endpoint := enc_Endpoint q, pkt_SharedKey := pkt_SharedKey r\<rparr>, True))"
proof -
  have shared: "pkt_SharedKey r = pkt_SharedKey d"
    using assms(5,7) key_Shared_sym [OF assms(1)] by simp
  have key: "is_key (pkt_SrcPublicDiscoKey d)"
    using assms(1,4) by (simp add: is_key_def key_Public_def nacl_laws_def)
  from assms(6) obtain c where e: "e = \<lparr>enc_Header = pkt_Header d,
      enc_SrcPublicDiscoKey = pkt_SrcPublicDiscoKey d, enc_EncryptedPayload = c,
      enc_Endpoint = pkt_Endpoint d\<rparr>"
    by (auto simp: packet_Encrypt_def Let_def split: option.splits)
  obtain bytes where bytes: "Marshal e = Some bytes"
    using assms(3) by (auto simp: e Marshal_def)
  have un: "Unmarshal q bytes = Some (e\<lparr>enc_Endpoint := enc_Endpoint q\<rparr>)"
    using Unmarshal_Marshal [OF bytes] key by (simp add: e)
  have "packet_Encrypt B (Some nonce) (d\<lparr>pkt_Endpoint := enc_Endpoint q\<rparr>)
      = Some (e\<lparr>enc_Endpoint := enc_Endpoint q\<rparr>)"
    using assms(6) by (auto simp: packet_Encrypt_def Let_def split: option.splits)
  from packet_roundtrip [OF assms(1,2) _ this, of r] key shared
  have "packet_Decrypt B r (e\<lparr>enc_Endpoint := enc_Endpoint q\<rparr>)
      = (d\<lparr>pkt_Endpoint := enc_Endpoint q\<rparr>, True)"
    by simp
  moreover have "d\<lparr>pkt_Endpoint := enc_Endpoint q\<rparr>
      = d\<lparr>pkt_Endpoint := enc_Endpoint q, pkt_SharedKey := pkt_SharedKey r\<rparr>"
    by (simp add: shared)
  ultimately show ?thesis
    using bytes un assms(4) by (auto simp: e)
qed

definition example_packet :: disco_packet where
  "example_packet = \<lparr>pkt_Header = PingMessage, pkt_SrcPublicDiscoKey = replicate 32 1,
     pkt_EndpointID = 3, pkt_ID = 70000, pkt_Endpoint = AddrPort (IP4 1) 2,
     pkt_SharedKey = replicate 32 2\<rparr>"

theorem disco_end_to_end_witness:
  "\<exists>e bytes e'. packet_Encrypt example_box (Some (replicate 24 9)) example_packet = Some e \<and>
     Marshal e = Some bytes \<and> Unmarshal example_enc_packet bytes = Some e' \<and>
     snd (packet_Decrypt example_box example_packet e')"
proof -
  obtain e where e: "packet_Encrypt example_box (Some (replicate 24 9)) example_packet = Some e"
    by (simp add: packet_Encrypt_def shared_Encrypt_def)
  have "\<exists>bytes. Marshal e = Some bytes \<and>
      (\<exists>e'. Unmarshal example_enc_packet bytes = Some e' \<and>
         enc_SrcPublicDiscoKey e' = key_Public example_box [] \<and>
         packet_Decrypt example_box example_packet e' =
           (example_packet\<lparr>pkt_Endpoint := enc_Endpoint example_enc_packet,
              pkt_SharedKey := pkt_SharedKey example_packet\<rparr>, True))"
    by (rule disco_end_to_end [OF example_box_laws _ _ _ _ e, where b = "[]"])
      (simp_all add: example_packet_def example_box_def key_Public_def key_Shared_def nonceLen_def)
  with e show ?thesis by auto
qed

text \<open>
  C40. What a successful decryption says, and what it does not: the payload was sealed
  under the shared key, with the numbers and the source key that the result shows, and the
  source key of the clear header is the sealed one; the header byte is not covered, so
  the same ciphertext decrypts under every header, and whoever is on the path can turn a
  ping into a pong.
\<close>

theorem decrypt_authenticates_all_but_header:
  assumes "nacl_laws B" "packet_Decrypt B r e = (d, True)"
  shows "(\<exists>p. shared_Encrypt B (Some (take nonceLen (enc_EncryptedPayload e))) (pkt_SharedKey r) p
                = Some (enc_EncryptedPayload e) \<and>
              Uint32 (take 4 p) = pkt_EndpointID d \<and> Uint32 (drop 4 (take 8 p)) = pkt_ID d \<and>
              drop 8 p = pkt_SrcPublicDiscoKey d) \<and>
         pkt_SrcPublicDiscoKey d = enc_SrcPublicDiscoKey e \<and> pkt_Header d = enc_Header e \<and>
         (\<forall>h. packet_Decrypt B r (e\<lparr>enc_Header := h\<rparr>) = (d\<lparr>pkt_Header := h\<rparr>, True))"
proof -
  from assms(2) obtain p where
    p: "shared_Decrypt B (pkt_SharedKey r) (enc_EncryptedPayload e) = Some p" "\<not> length p < 40"
    and d: "d = r\<lparr>pkt_Header := enc_Header e, pkt_SrcPublicDiscoKey := enc_SrcPublicDiscoKey e,
        pkt_EndpointID := Uint32 (take 4 p), pkt_ID := Uint32 (drop 4 (take 8 p)),
        pkt_Endpoint := enc_Endpoint e\<rparr>"
    and src: "drop 8 p = enc_SrcPublicDiscoKey e"
    by (auto simp: packet_Decrypt_def Let_def split: option.splits if_splits)
  from shared_Decrypt_sealed [OF assms(1) p(1)]
  have "shared_Encrypt B (Some (take nonceLen (enc_EncryptedPayload e))) (pkt_SharedKey r) p
      = Some (enc_EncryptedPayload e)" .
  moreover have "packet_Decrypt B r (e\<lparr>enc_Header := h\<rparr>) = (d\<lparr>pkt_Header := h\<rparr>, True)" for h
    using p src by (simp add: packet_Decrypt_def Let_def d)
  ultimately show ?thesis
    using d src by auto
qed

theorem decrypt_authenticates_all_but_header_witness:
  "\<exists>e. snd (packet_Decrypt example_box example_packet e) \<and> enc_Header e = PingMessage \<and>
       pkt_Header (fst (packet_Decrypt example_box example_packet (e\<lparr>enc_Header := PongMessage\<rparr>)))
         = PongMessage"
proof -
  obtain e where e: "packet_Encrypt example_box (Some (replicate 24 9)) example_packet = Some e"
    by (simp add: packet_Encrypt_def shared_Encrypt_def)
  have dec: "packet_Decrypt example_box example_packet e = (example_packet, True)"
    by (rule packet_roundtrip [OF example_box_laws _ _ e])
      (simp_all add: nonceLen_def is_key_def example_packet_def)
  have "pkt_Header example_packet = enc_Header e"
    "packet_Decrypt example_box example_packet (e\<lparr>enc_Header := PongMessage\<rparr>)
       = (example_packet\<lparr>pkt_Header := PongMessage\<rparr>, True)"
    using decrypt_authenticates_all_but_header [OF example_box_laws dec] by auto
  with dec show ?thesis
    by (intro exI [of _ e]) (simp add: example_packet_def)
qed

end
