(* ===== verification/Endpoint.thy ===== *)
theory Endpoint
  imports Ticker PktMgr StatusCell Packet
begin

text \<open>
  \<open>disco/discoPeerEndpoint.go\<close>: one remote address of a peer. The endpoint owns a
  ticker, a table of outstanding pings and a status cell; \<open>statusLock\<close> makes each of
  \<open>dropCallback\<close>, \<open>handlePong\<close> and \<open>SetPriority\<close> one atomic step. \<open>ReceivePing\<close> reads
  the status before it takes the lock, so it is two steps, and other steps can come
  between them.
\<close>

section \<open>State\<close>

record ep_status =
  es_State :: ticker_state
  es_RTT :: duration

record endpoint =
  de_closed :: bool
  de_recvChan :: "disco_packet option"
  de_packetManager :: pktmgr
  de_ticker :: ticker
  de_endpointID :: u32
  de_endpoint :: addr_port
  de_localPubKey :: key
  de_sharedKey :: key
  de_packetID :: u32
  de_priority :: ticker_priority
  de_status :: "ep_status cell"
  de_lastReinitialized :: time

definition NewDiscoPeerEndpoint :: "u32 \<Rightarrow> addr_port \<Rightarrow> key \<Rightarrow> key \<Rightarrow> endpoint" where
  "NewDiscoPeerEndpoint endpointID ep localPubKey sharedKey =
     \<lparr>de_closed = False, de_recvChan = None,
      de_packetManager = pktmgr_New (400 * millisecond),
      de_ticker = NewTicker, de_endpointID = endpointID, de_endpoint = ep,
      de_localPubKey = localPubKey, de_sharedKey = sharedKey, de_packetID = 0,
      de_priority = Primary,
      de_status = new_cell \<lparr>es_State = Connecting, es_RTT = 0\<rparr>,
      de_lastReinitialized = 0\<rparr>"

section \<open>Operations\<close>

definition set_status :: "ticker_state \<Rightarrow> duration \<Rightarrow> endpoint \<Rightarrow> endpoint" where
  "set_status st rtt pe =
     pe\<lparr>de_status := cell_setStatus \<lparr>es_State = st, es_RTT = rtt\<rparr> (de_status pe)\<rparr>"

definition set_ticker :: "ticker_state \<Rightarrow> bool \<Rightarrow> endpoint \<Rightarrow> endpoint" where
  "set_ticker st force pe = pe\<lparr>de_ticker := SetState st (de_priority pe) force (de_ticker pe)\<rparr>"

definition dropCallback :: "endpoint \<Rightarrow> endpoint" where
  "dropCallback pe = set_status Connecting 0 (set_ticker Connecting False pe)"

text \<open>The second component is the packet handed to \<open>sender.Send\<close>, if any.\<close>

definition sendDiscoPing ::
  "nacl_box \<Rightarrow> byte list option \<Rightarrow> time \<Rightarrow> endpoint \<Rightarrow> endpoint \<times> enc_packet option" where
  "sendDiscoPing B rnd now pe =
     (let pkt = \<lparr>pkt_Header = PingMessage, pkt_SrcPublicDiscoKey = de_localPubKey pe,
                 pkt_EndpointID = de_endpointID pe, pkt_ID = de_packetID pe,
                 pkt_Endpoint = de_endpoint pe, pkt_SharedKey = de_sharedKey pe\<rparr>;
          pe1 = pe\<lparr>de_packetID := de_packetID pe + 1\<rparr>
      in case packet_Encrypt B rnd pkt of
           None \<Rightarrow> (pe1, None)
         | Some encrypted \<Rightarrow>
             (pe1\<lparr>de_packetManager := AddPacket (pkt_ID pkt) now (de_packetManager pe1)\<rparr>,
              Some encrypted))"

definition handlePong :: "disco_packet \<Rightarrow> time \<Rightarrow> endpoint \<Rightarrow> endpoint" where
  "handlePong pkt now pe =
     (case RecvAck (pkt_ID pkt) now (de_packetManager pe) of
        (m, None) \<Rightarrow> pe\<lparr>de_packetManager := m\<rparr>
      | (m, Some rtt) \<Rightarrow>
          set_status Connected rtt (set_ticker Connected False (pe\<lparr>de_packetManager := m\<rparr>)))"

text \<open>The three cases of the \<open>select\<close> in \<open>run\<close>; a closed endpoint may stop there.\<close>

definition run_tick ::
  "nacl_box \<Rightarrow> byte list option \<Rightarrow> time \<Rightarrow> endpoint \<Rightarrow> (endpoint \<times> enc_packet option) option" where
  "run_tick B rnd now pe =
     (case take_wake (de_ticker pe) of
        None \<Rightarrow> None
      | Some t \<Rightarrow> Some (sendDiscoPing B rnd now (pe\<lparr>de_ticker := t\<rparr>)))"

definition run_recv :: "time \<Rightarrow> endpoint \<Rightarrow> endpoint option" where
  "run_recv now pe =
     (case de_recvChan pe of
        None \<Rightarrow> None
      | Some pkt \<Rightarrow>
          let pe1 = pe\<lparr>de_recvChan := None\<rparr>
          in Some (if pkt_Header pkt = PongMessage then handlePong pkt now pe1 else pe1))"

text \<open>\<open>EnqueueReceivedPacket\<close> blocks while the channel is full.\<close>

definition EnqueueReceivedPacket :: "disco_packet \<Rightarrow> endpoint \<Rightarrow> endpoint option" where
  "EnqueueReceivedPacket pkt pe =
     (case de_recvChan pe of
        None \<Rightarrow> Some (pe\<lparr>de_recvChan := Some pkt\<rparr>)
      | Some _ \<Rightarrow> None)"

text \<open>The goroutine of the packet manager that sleeps for ping \<open>n\<close> wakes up.\<close>

definition ping_timer :: "nat \<Rightarrow> endpoint \<Rightarrow> endpoint" where
  "ping_timer n pe =
     (case timer_fires n (de_packetManager pe) of
        (m, dropped) \<Rightarrow>
          (let pe1 = pe\<lparr>de_packetManager := m\<rparr> in if dropped then dropCallback pe1 else pe1))"

definition ep_Close :: "endpoint \<Rightarrow> endpoint outcome" where
  "ep_Close pe =
     (if de_closed pe then Panics CloseOfClosedChannel
      else Returns (pe\<lparr>de_closed := True, de_status := cell_close (de_status pe)\<rparr>))"

definition SetPriority :: "ticker_priority \<Rightarrow> endpoint \<Rightarrow> endpoint" where
  "SetPriority p pe =
     (let st = es_State (cell_Get (de_status pe))
      in set_ticker st False (pe\<lparr>de_priority := p\<rparr>))"

text \<open>
  \<open>ReceivePing\<close>: the test without the lock, then the locked part. \<open>now\<close> and \<open>now'\<close> are
  its two readings of the clock. The last component says whether the ping rate was reset.
\<close>

definition ReceivePing_test :: "endpoint \<Rightarrow> bool" where
  "ReceivePing_test pe \<longleftrightarrow> es_State (cell_Get (de_status pe)) = Connecting"

definition ReceivePing_locked :: "time \<Rightarrow> time \<Rightarrow> endpoint \<Rightarrow> endpoint \<times> bool" where
  "ReceivePing_locked now now' pe =
     (if now - de_lastReinitialized pe \<le> 30 * second then (pe, False)
      else (set_ticker Connecting True (pe\<lparr>de_lastReinitialized := now'\<rparr>), True))"

definition ReceivePing :: "time \<Rightarrow> time \<Rightarrow> endpoint \<Rightarrow> endpoint" where
  "ReceivePing now now' pe =
     (if ReceivePing_test pe then fst (ReceivePing_locked now now' pe) else pe)"

section \<open>Interleaving\<close>

text \<open>
  The goroutine of the ticker is the machine of theory \<open>Ticker\<close>; of its steps only those
  that write the ticker are seen here, in any order.
  \<open>eps_checked\<close> counts the calls of \<open>ReceivePing\<close> that have passed the test and wait for
  the lock; \<open>eps_reinits\<close> is a ghost, the times of the forced resets, latest first.
\<close>

record ep_sys =
  eps_ep :: endpoint
  eps_checked :: nat
  eps_now :: time
  eps_reinits :: "time list"

inductive ep_step :: "nacl_box \<Rightarrow> ep_sys \<Rightarrow> ep_sys \<Rightarrow> bool" for B :: nacl_box where
  clock: "eps_now s \<le> now \<Longrightarrow> ep_step B s (s\<lparr>eps_now := now\<rparr>)"
| tick: "run_tick B rnd (eps_now s) (eps_ep s) = Some (pe, out) \<Longrightarrow> ep_step B s (s\<lparr>eps_ep := pe\<rparr>)"
| ticker_wakes: "ep_step B s (s\<lparr>eps_ep := (eps_ep s)\<lparr>de_ticker := wake (de_ticker (eps_ep s))\<rparr>\<rparr>)"
| ticker_grows: "ep_step B s (s\<lparr>eps_ep := (eps_ep s)\<lparr>de_ticker := backoff (de_ticker (eps_ep s))\<rparr>\<rparr>)"
| ticker_resets: "ep_step B s (s\<lparr>eps_ep := (eps_ep s)\<lparr>de_ticker := (de_ticker (eps_ep s))\<lparr>tk_reset := False\<rparr>\<rparr>\<rparr>)"
| enqueue: "EnqueueReceivedPacket pkt (eps_ep s) = Some pe \<Longrightarrow> ep_step B s (s\<lparr>eps_ep := pe\<rparr>)"
| recv: "run_recv (eps_now s) (eps_ep s) = Some pe \<Longrightarrow> ep_step B s (s\<lparr>eps_ep := pe\<rparr>)"
| timer: "n < length (pm_timers (de_packetManager (eps_ep s))) \<Longrightarrow>
    snd (pm_timers (de_packetManager (eps_ep s)) ! n) \<le> eps_now s \<Longrightarrow>
    ep_step B s (s\<lparr>eps_ep := ping_timer n (eps_ep s)\<rparr>)"
| priority: "ep_step B s (s\<lparr>eps_ep := SetPriority p (eps_ep s)\<rparr>)"
| ping_test: "ReceivePing_test (eps_ep s) \<Longrightarrow>
    ep_step B s (s\<lparr>eps_checked := Suc (eps_checked s)\<rparr>)"
| ping_locked: "eps_checked s = Suc n \<Longrightarrow>
    eps_now s \<le> now' \<Longrightarrow> ReceivePing_locked (eps_now s) now' (eps_ep s) = (pe, reset) \<Longrightarrow>
    ep_step B s (s\<lparr>eps_ep := pe, eps_checked := n, eps_now := now',
      eps_reinits := (if reset then now' # eps_reinits s else eps_reinits s)\<rparr>)"
| close: "ep_Close (eps_ep s) = Returns pe \<Longrightarrow> ep_step B s (s\<lparr>eps_ep := pe\<rparr>)"

definition new_ep_sys :: "u32 \<Rightarrow> addr_port \<Rightarrow> key \<Rightarrow> key \<Rightarrow> time \<Rightarrow> ep_sys" where
  "new_ep_sys i ep pub sh now =
     \<lparr>eps_ep = NewDiscoPeerEndpoint i ep pub sh, eps_checked = 0, eps_now = now, eps_reinits = []\<rparr>"

inductive ep_reachable :: "nacl_box \<Rightarrow> ep_sys \<Rightarrow> bool" for B :: nacl_box where
  init: "ep_reachable B (new_ep_sys i ep pub sh now)"
| step: "ep_reachable B s \<Longrightarrow> ep_step B s s' \<Longrightarrow> ep_reachable B s'"

section \<open>Frame lemmas\<close>

definition ep_state :: "endpoint \<Rightarrow> ticker_state" where
  "ep_state pe = es_State (cell_value (de_status pe))"

lemma set_ticker_fields [simp]:
  "de_priority (set_ticker st f pe) = de_priority pe"
  "de_status (set_ticker st f pe) = de_status pe"
  "de_lastReinitialized (set_ticker st f pe) = de_lastReinitialized pe"
  "de_packetManager (set_ticker st f pe) = de_packetManager pe"
  "de_endpoint (set_ticker st f pe) = de_endpoint pe"
  "de_endpointID (set_ticker st f pe) = de_endpointID pe"
  "de_closed (set_ticker st f pe) = de_closed pe"
  "tk_state (de_ticker (set_ticker st f pe)) = st"
  "tk_priority (de_ticker (set_ticker st f pe)) = de_priority pe"
  "ep_state (set_ticker st f pe) = ep_state pe"
  by (simp_all add: set_ticker_def ep_state_def)

lemma set_status_fields [simp]:
  "de_priority (set_status st r pe) = de_priority pe"
  "de_ticker (set_status st r pe) = de_ticker pe"
  "de_lastReinitialized (set_status st r pe) = de_lastReinitialized pe"
  "de_packetManager (set_status st r pe) = de_packetManager pe"
  "de_endpoint (set_status st r pe) = de_endpoint pe"
  "de_endpointID (set_status st r pe) = de_endpointID pe"
  "de_closed (set_status st r pe) = de_closed pe"
  "ep_state (set_status st r pe) = st"
  "cell_value (de_status (set_status st r pe)) = \<lparr>es_State = st, es_RTT = r\<rparr>"
  by (simp_all add: set_status_def cell_setStatus_def ep_state_def)

lemma ticker_fields_wake [simp]:
  "tk_state (wake t) = tk_state t" "tk_priority (wake t) = tk_priority t"
  by (simp_all add: wake_def)

lemma take_wake_fields:
  "take_wake t = Some t' \<Longrightarrow> tk_state t' = tk_state t \<and> tk_priority t' = tk_priority t"
  by (auto simp: take_wake_def split: if_splits)

section \<open>Ticker and status agree\<close>

text \<open>
  \<open>coherent\<close>: the ticker runs for the status that is shown and for the priority that was
  set. \<open>nearly\<close> is what holds in spite of the gap in \<open>ReceivePing\<close>.
\<close>

definition coherent :: "endpoint \<Rightarrow> bool" where
  "coherent pe \<longleftrightarrow> tk_state (de_ticker pe) = ep_state pe \<and> tk_priority (de_ticker pe) = de_priority pe"

definition nearly :: "endpoint \<Rightarrow> bool" where
  "nearly pe \<longleftrightarrow> tk_priority (de_ticker pe) = de_priority pe \<and> ep_state pe \<noteq> UnsetState \<and>
     (tk_state (de_ticker pe) = ep_state pe \<or>
      tk_state (de_ticker pe) = Connecting \<and> ep_state pe = Connected)"

lemma coherent_ops:
  "coherent (dropCallback pe)" "ep_state (dropCallback pe) = Connecting"
  "coherent (SetPriority p pe)" "ep_state (SetPriority p pe) = ep_state pe"
  by (simp_all add: dropCallback_def coherent_def SetPriority_def Let_def cell_Get_def ep_state_def
      set_ticker_def set_status_def cell_setStatus_def)

lemma handlePong_cases:
  "pm_m (de_packetManager pe) (pkt_ID pkt) = None \<Longrightarrow> handlePong pkt now pe = pe"
  "pm_m (de_packetManager pe) (pkt_ID pkt) = Some t0 \<Longrightarrow>
     coherent (handlePong pkt now pe) \<and> ep_state (handlePong pkt now pe) = Connected \<and>
     es_RTT (cell_value (de_status (handlePong pkt now pe))) = now - t0"
  by (simp_all add: handlePong_def RecvAck_None RecvAck_Some coherent_def)

lemma nearly_coherent: "coherent pe \<Longrightarrow> ep_state pe \<noteq> UnsetState \<Longrightarrow> nearly pe"
  by (simp add: coherent_def nearly_def)

lemma nearly_pm [simp]: "nearly (pe\<lparr>de_packetManager := m\<rparr>) = nearly pe"
  "nearly (pe\<lparr>de_recvChan := c\<rparr>) = nearly pe" "nearly (pe\<lparr>de_packetID := i\<rparr>) = nearly pe"
  by (simp_all add: nearly_def ep_state_def)

lemma nearly_handlePong: "nearly pe \<Longrightarrow> nearly (handlePong pkt now pe)"
  using handlePong_cases [of pe pkt]
  by (cases "pm_m (de_packetManager pe) (pkt_ID pkt)") (auto intro: nearly_coherent)

lemma nearly_timer: "nearly pe \<Longrightarrow> nearly (ping_timer n pe)"
  by (auto simp: ping_timer_def Let_def split: prod.split intro: nearly_coherent simp: coherent_ops)

lemma nearly_recv: "run_recv now pe = Some pe' \<Longrightarrow> nearly pe \<Longrightarrow> nearly pe'"
  by (auto simp: run_recv_def Let_def nearly_handlePong split: option.splits if_splits)

lemma nearly_tick: "run_tick B rnd now pe = Some (pe', out) \<Longrightarrow> nearly pe \<Longrightarrow> nearly pe'"
  using take_wake_fields [of "de_ticker pe"]
  by (auto simp: run_tick_def sendDiscoPing_def Let_def nearly_def ep_state_def split: option.splits)

lemma nearly_priority: "nearly pe \<Longrightarrow> nearly (SetPriority p pe)"
  by (rule nearly_coherent) (simp_all add: coherent_ops nearly_def)

lemma nearly_locked:
  assumes "ReceivePing_locked now now' pe = (pe', r)" "nearly pe"
  shows "nearly pe'"
  using assms by (auto simp: ReceivePing_locked_def nearly_def ep_state_def set_ticker_def split: if_splits)
    (metis ticker_state.exhaust)+

definition ep_inv :: "ep_sys \<Rightarrow> bool" where
  "ep_inv s \<longleftrightarrow> nearly (eps_ep s) \<and>
     (eps_reinits s \<noteq> [] \<longrightarrow> hd (eps_reinits s) = de_lastReinitialized (eps_ep s)) \<and>
     successively (\<lambda>later earlier. earlier + 30 * second < later) (eps_reinits s)"

lemma ep_inv_ep:
  assumes "ep_inv s" "nearly pe" "de_lastReinitialized pe = de_lastReinitialized (eps_ep s)"
  shows "ep_inv (s\<lparr>eps_ep := pe\<rparr>)"
  using assms by (simp add: ep_inv_def)

lemma ep_inv_same_ticker_state:
  assumes "ep_inv s" "tk_state t = tk_state (de_ticker (eps_ep s))"
    "tk_priority t = tk_priority (de_ticker (eps_ep s))"
  shows "ep_inv (s\<lparr>eps_ep := (eps_ep s)\<lparr>de_ticker := t\<rparr>\<rparr>)"
  using assms by (simp add: ep_inv_def nearly_def ep_state_def)

lemma handlePong_last [simp]: "de_lastReinitialized (handlePong pkt now pe) = de_lastReinitialized pe"
  by (auto simp: handlePong_def split: prod.split option.split)

lemma last_ops [simp]:
  "de_lastReinitialized (SetPriority p pe) = de_lastReinitialized pe"
  "de_lastReinitialized (dropCallback pe) = de_lastReinitialized pe"
  "de_lastReinitialized (ping_timer n pe) = de_lastReinitialized pe"
  by (auto simp: SetPriority_def dropCallback_def ping_timer_def Let_def split: prod.split)

lemma run_last:
  "run_recv now pe = Some pe' \<Longrightarrow> de_lastReinitialized pe' = de_lastReinitialized pe"
  "run_tick B rnd now pe = Some (pe', out) \<Longrightarrow> de_lastReinitialized pe' = de_lastReinitialized pe"
  by (auto simp: run_recv_def run_tick_def sendDiscoPing_def Let_def split: option.splits if_splits)

lemma ep_inv_locked:
  assumes inv: "ep_inv s" and now: "eps_now s \<le> now'"
    and locked: "ReceivePing_locked (eps_now s) now' (eps_ep s) = (pe, reset)"
  shows "ep_inv (s\<lparr>eps_ep := pe, eps_checked := n, eps_now := now',
           eps_reinits := (if reset then now' # eps_reinits s else eps_reinits s)\<rparr>)"
proof -
  have near: "nearly pe"
    using nearly_locked [OF locked] inv by (simp add: ep_inv_def)
  show ?thesis
  proof (cases reset)
    case True
    with locked have last: "de_lastReinitialized pe = now'"
      "de_lastReinitialized (eps_ep s) + 30 * second < now'"
      using now by (auto simp: ReceivePing_locked_def split: if_splits)
    show ?thesis
    proof (cases "eps_reinits s")
      case Nil
      with True near last show ?thesis by (simp add: ep_inv_def)
    next
      case (Cons r rs)
      with True near last inv show ?thesis by (auto simp: ep_inv_def)
    qed
  next
    case False
    with locked have "pe = eps_ep s"
      by (auto simp: ReceivePing_locked_def split: if_splits)
    with False inv show ?thesis by (simp add: ep_inv_def)
  qed
qed

lemma ep_inv_step: "ep_step B s s' \<Longrightarrow> ep_inv s \<Longrightarrow> ep_inv s'"
proof (induction rule: ep_step.induct)
  case (tick s rnd pe out)
  then show ?case
    by (intro ep_inv_ep) (auto simp: run_last ep_inv_def intro: nearly_tick)
next
  case (ticker_wakes s)
  then show ?case by (intro ep_inv_same_ticker_state) simp_all
next
  case (ticker_grows s)
  then show ?case by (intro ep_inv_same_ticker_state) simp_all
next
  case (ticker_resets s)
  then show ?case by (intro ep_inv_same_ticker_state) simp_all
next
  case (enqueue s pkt pe)
  then show ?case
    by (intro ep_inv_ep) (auto simp: EnqueueReceivedPacket_def ep_inv_def split: option.splits)
next
  case (recv s pe)
  then show ?case
    by (intro ep_inv_ep) (auto simp: run_last ep_inv_def intro: nearly_recv)
next
  case (timer s n)
  then show ?case
    by (intro ep_inv_ep) (auto simp: ep_inv_def intro: nearly_timer)
next
  case (priority s p)
  then show ?case
    by (intro ep_inv_ep) (auto simp: ep_inv_def intro: nearly_priority)
next
  case (ping_locked s n now' pe reset)
  then show ?case by (intro ep_inv_locked)
next
  case (close s pe)
  then show ?case
    by (intro ep_inv_ep)
      (auto simp: ep_Close_def ep_inv_def nearly_def ep_state_def cell_close_def split: if_splits)
qed (simp_all add: ep_inv_def)

lemma nearly_new: "nearly (NewDiscoPeerEndpoint i ep pub sh)"
  by (simp add: nearly_def NewDiscoPeerEndpoint_def ep_state_def new_cell_def NewTicker_def)

lemma ep_reachable_inv: "ep_reachable B s \<Longrightarrow> ep_inv s"
proof (induction rule: ep_reachable.induct)
  case (init i ep pub sh now)
  show ?case by (simp add: ep_inv_def new_ep_sys_def nearly_new)
qed (rule ep_inv_step)

section \<open>Properties\<close>


text \<open>
  A run through the gap in \<open>ReceivePing\<close>: the first ping is sent, a ping of the peer arrives
  and passes the test, the pong arrives and connects the endpoint, and only then does
  \<open>ReceivePing\<close> take the lock.
\<close>

definition race_start :: ep_sys where
  "race_start = new_ep_sys 1 (AddrPort (IP4 1) 2) (replicate 32 1) (replicate 32 2) (100 * second)"

definition race_pong :: disco_packet where
  "race_pong = \<lparr>pkt_Header = PongMessage, pkt_SrcPublicDiscoKey = replicate 32 1,
     pkt_EndpointID = 1, pkt_ID = 0, pkt_Endpoint = AddrPort (IP4 1) 2,
     pkt_SharedKey = replicate 32 2\<rparr>"

definition race_pinged :: endpoint where
  "race_pinged = (eps_ep race_start)\<lparr>de_ticker := (de_ticker (eps_ep race_start))\<lparr>tk_wakeCh := False\<rparr>,
     de_packetID := 1,
     de_packetManager := AddPacket 0 (100 * second) (de_packetManager (eps_ep race_start))\<rparr>"

definition race_connected :: endpoint where
  "race_connected = handlePong race_pong (100 * second) race_pinged"

definition race_end :: ep_sys where
  "race_end = race_start\<lparr>eps_ep := fst (ReceivePing_locked (100 * second) (100 * second) race_connected),
     eps_reinits := [100 * second]\<rparr>"

lemma race_pinged_fields:
  "de_recvChan race_pinged = None" "de_lastReinitialized race_pinged = 0"
  "ep_state race_pinged = Connecting" "pm_m (de_packetManager race_pinged) 0 = Some (100 * second)"
  "cell_value (de_status race_pinged) = \<lparr>es_State = Connecting, es_RTT = 0\<rparr>"
  by (simp_all add: race_pinged_def race_start_def new_ep_sys_def NewDiscoPeerEndpoint_def
      ep_state_def new_cell_def)

lemma race_pinged_empty: "race_pinged\<lparr>de_recvChan := None\<rparr> = race_pinged"
  by (rule endpoint.equality) (simp_all add: race_pinged_fields)

lemma race_pong_header: "pkt_Header race_pong = PongMessage"
  by (simp add: race_pong_def)

lemma race_end_reachable: "ep_reachable example_box race_end"
proof -
  let ?now = "100 * second"
  have "ep_reachable example_box race_start"
    by (simp add: race_start_def ep_reachable.init)
  moreover have "\<exists>out. run_tick example_box (Some []) ?now (eps_ep race_start) = Some (race_pinged, out)"
    by (simp add: run_tick_def take_wake_def race_start_def new_ep_sys_def NewDiscoPeerEndpoint_def
        new_ticker_fields sendDiscoPing_def packet_Encrypt_def shared_Encrypt_def race_pinged_def)
  moreover have "eps_now race_start = ?now" "eps_checked race_start = 0" "eps_reinits race_start = []"
    by (simp_all add: race_start_def new_ep_sys_def)
  ultimately have "ep_reachable example_box (race_start\<lparr>eps_ep := race_pinged\<rparr>)"
    by (metis step tick)
  from step [OF this ping_test]
  have "ep_reachable example_box (race_start\<lparr>eps_ep := race_pinged, eps_checked := 1\<rparr>)"
    by (simp add: ReceivePing_test_def cell_Get_def race_pinged_fields \<open>eps_checked race_start = 0\<close>)
  from step [OF this enqueue [where pkt = race_pong]]
  have "ep_reachable example_box
      (race_start\<lparr>eps_checked := 1, eps_ep := race_pinged\<lparr>de_recvChan := Some race_pong\<rparr>\<rparr>)"
    by (simp add: EnqueueReceivedPacket_def race_pinged_fields)
  from step [OF this recv [where pe = race_connected]]
  have "ep_reachable example_box (race_start\<lparr>eps_checked := 1, eps_ep := race_connected\<rparr>)"
    by (simp add: run_recv_def race_pong_header race_pinged_empty race_connected_def
        \<open>eps_now race_start = ?now\<close>)
  moreover have "ReceivePing_locked ?now ?now race_connected
      = (fst (ReceivePing_locked ?now ?now race_connected), True)"
    by (simp add: ReceivePing_locked_def race_connected_def race_pinged_fields duration_eqs)
  ultimately have "ep_reachable example_box (race_start\<lparr>
      eps_ep := fst (ReceivePing_locked ?now ?now race_connected),
      eps_checked := 0, eps_now := ?now, eps_reinits := [?now]\<rparr>)"
    using step [OF _ ping_locked [where n = 0 and now' = ?now and reset = True]]
      \<open>eps_now race_start = ?now\<close> \<open>eps_reinits race_start = []\<close> by force
  then show ?thesis
    by (simp add: race_end_def race_start_def new_ep_sys_def)
qed

lemma race_connected_state: "ep_state race_connected = Connected"
  using handlePong_cases(2) [of race_pinged race_pong "100 * second" "100 * second"]
  by (simp add: race_connected_def race_pong_def race_pinged_fields)


text \<open>
  The exception that the invariant of the endpoint allows does happen: because \<open>ReceivePing\<close> tests the status before it
  takes the lock, there is a run after which the endpoint shows \<open>Connected\<close> while its ticker
  pings at the rate of a connecting endpoint; the next change of priority repairs it.
\<close>

lemma ReceivePing_race:
  "\<exists>s. ep_reachable example_box s \<and> ep_state (eps_ep s) = Connected \<and>
       tk_state (de_ticker (eps_ep s)) = Connecting \<and>
       tk_currentInterval (de_ticker (eps_ep s)) = 100 * millisecond \<and>
       (\<forall>p. coherent (SetPriority p (eps_ep s)))"
proof (intro exI conjI allI)
  let ?pe = "race_connected"
  have locked: "eps_ep race_end = set_ticker Connecting True (?pe\<lparr>de_lastReinitialized := 100 * second\<rparr>)"
    by (simp add: race_end_def ReceivePing_locked_def race_connected_def race_pinged_fields duration_eqs)
  show "ep_reachable example_box race_end"
    by (rule race_end_reachable)
  show "ep_state (eps_ep race_end) = Connected"
    using race_connected_state by (simp add: locked) (simp add: ep_state_def)
  show "tk_state (de_ticker (eps_ep race_end)) = Connecting"
    by (simp add: locked)
  show "tk_currentInterval (de_ticker (eps_ep race_end)) = 100 * millisecond"
    by (simp add: locked set_ticker_def SetState_interval)
  show "coherent (SetPriority p (eps_ep race_end))" for p
    by (rule coherent_ops)
qed

end
