(* ===== verification/Containers.thy ===== *)
theory Containers
  imports Prelude
begin

text \<open>
  The small generic containers: \<open>pkg/syncmap\<close> (a typed \<open>sync.Map\<close>), \<open>pkg/sets\<close>,
  \<open>pkg/sliceutil\<close> and \<open>tetrad/pkg/util\<close>. A syncmap is an association list whose order
  stands for the order in which \<open>Range\<close> happens to visit the keys; every statement is
  about an arbitrary list. The locale \<open>map_store\<close> is the contract its clients rely on.
\<close>

section \<open>pkg/syncmap\<close>

type_synonym ('k, 'v) syncmap = "('k \<times> 'v) list"

definition sm_Load :: "'k \<Rightarrow> ('k, 'v) syncmap \<Rightarrow> 'v option" where
  "sm_Load k m = map_of m k"

definition sm_Store :: "'k \<Rightarrow> 'v \<Rightarrow> ('k, 'v) syncmap \<Rightarrow> ('k, 'v) syncmap" where
  "sm_Store k v m = AList.update k v m"

definition sm_Delete :: "'k \<Rightarrow> ('k, 'v) syncmap \<Rightarrow> ('k, 'v) syncmap" where
  "sm_Delete k m = AList.delete k m"

definition sm_LoadAndDelete :: "'k \<Rightarrow> ('k, 'v) syncmap \<Rightarrow> ('k, 'v) syncmap \<times> 'v option" where
  "sm_LoadAndDelete k m =
     (case map_of m k of None \<Rightarrow> (m, None) | Some v \<Rightarrow> (AList.delete k m, Some v))"

text \<open>The second component is the value now in the map, the third says it was there before.\<close>

definition sm_LoadOrStore :: "'k \<Rightarrow> 'v \<Rightarrow> ('k, 'v) syncmap \<Rightarrow> ('k, 'v) syncmap \<times> 'v \<times> bool" where
  "sm_LoadOrStore k v m =
     (case map_of m k of None \<Rightarrow> (AList.update k v m, v, False) | Some w \<Rightarrow> (m, w, True))"

text \<open>\<open>Range\<close> visits the entries while the callback returns \<open>True\<close>.\<close>

fun sm_Range :: "('k \<Rightarrow> 'v \<Rightarrow> 's \<Rightarrow> 's \<times> bool) \<Rightarrow> ('k, 'v) syncmap \<Rightarrow> 's \<Rightarrow> 's" where
  "sm_Range f [] s = s"
| "sm_Range f ((k, v) # m) s = (case f k v s of (s', go) \<Rightarrow> if go then sm_Range f m s' else s')"

definition sm_ok :: "('k, 'v) syncmap \<Rightarrow> bool" where
  "sm_ok m \<longleftrightarrow> distinct (map fst m)"

lemma sm_Range_True: "sm_Range (\<lambda>k v s. (g k v s, True)) m s = fold (\<lambda>(k, v). g k v) m s"
  by (induction m arbitrary: s) auto

locale map_store =
  fixes load :: "'k \<Rightarrow> 'm \<Rightarrow> 'v option"
    and store :: "'k \<Rightarrow> 'v \<Rightarrow> 'm \<Rightarrow> 'm"
    and delete :: "'k \<Rightarrow> 'm \<Rightarrow> 'm"
    and load_and_delete :: "'k \<Rightarrow> 'm \<Rightarrow> 'm \<times> 'v option"
    and load_or_store :: "'k \<Rightarrow> 'v \<Rightarrow> 'm \<Rightarrow> 'm \<times> 'v \<times> bool"
    and invar :: "'m \<Rightarrow> bool"
  assumes load_store: "load k' (store k v m) = (if k' = k then Some v else load k' m)"
    and load_delete: "load k' (delete k m) = (if k' = k then None else load k' m)"
    and load_and_delete_law:
      "load_and_delete k m = (case load k m of None \<Rightarrow> (m, None) | Some v \<Rightarrow> (delete k m, Some v))"
    and load_or_store_law:
      "load_or_store k v m =
         (case load k m of None \<Rightarrow> (store k v m, v, False) | Some w \<Rightarrow> (m, w, True))"
    and invar_store: "invar m \<Longrightarrow> invar (store k v m)"
    and invar_delete: "invar m \<Longrightarrow> invar (delete k m)"
begin

lemma load_or_store_bound:
  "load_or_store k v m = (m', w, loaded) \<Longrightarrow> load k m' = Some w \<and> (loaded \<longleftrightarrow> load k m = Some w \<and> m' = m)"
  by (auto simp: load_or_store_law load_store split: option.splits)

lemma load_or_store_agree:
  "load_or_store k v m = (m1, w, loaded) \<Longrightarrow> load_or_store k v' m1 = (m1, w, True)"
  by (auto simp: load_or_store_law load_store split: option.splits)

lemma load_and_delete_once:
  "load_and_delete k m = (m', r) \<Longrightarrow> r = load k m \<and> load k m' = None \<and> load_and_delete k m' = (m', None)"
  by (auto simp: load_and_delete_law load_delete split: option.splits)

lemma invar_load_or_store: "invar m \<Longrightarrow> load_or_store k v m = (m', r) \<Longrightarrow> invar m'"
  by (auto simp: load_or_store_law invar_store split: option.splits)

lemma invar_load_and_delete: "invar m \<Longrightarrow> load_and_delete k m = (m', r) \<Longrightarrow> invar m'"
  by (auto simp: load_and_delete_law invar_delete split: option.splits)

end

interpretation syncmap: map_store sm_Load sm_Store sm_Delete sm_LoadAndDelete sm_LoadOrStore sm_ok
  by unfold_locales
    (auto simp: sm_Load_def sm_Store_def sm_Delete_def sm_LoadAndDelete_def sm_LoadOrStore_def
      sm_ok_def update_conv' delete_conv' distinct_update distinct_delete split: option.split)

lemma dom_delete: "fst ` set (AList.delete k m) = fst ` set m - {k}"
  by (induction m) auto

lemma sm_keys [keyed_simps]:
  "fst ` set (sm_Store k v m) = insert k (fst ` set m)"
  "fst ` set (sm_Delete k m) = fst ` set m - {k}"
  by (simp_all add: sm_Store_def sm_Delete_def dom_update dom_delete)

lemma sm_Load_dom: "sm_Load k m \<noteq> None \<longleftrightarrow> k \<in> fst ` set m"
  by (simp add: sm_Load_def map_of_eq_None_iff)

section \<open>pkg/sets\<close>

text \<open>The keys of the map under a set, in the order they were added.\<close>

definition NewSet :: "'k list" where
  "NewSet = []"

definition set_Add :: "'k \<Rightarrow> 'k list \<Rightarrow> 'k list" where
  "set_Add k s = (if k \<in> set s then s else s @ [k])"

definition set_Delete :: "'k \<Rightarrow> 'k list \<Rightarrow> 'k list" where
  "set_Delete k s = filter (\<lambda>x. x \<noteq> k) s"

definition set_Contains :: "'k \<Rightarrow> 'k list \<Rightarrow> bool" where
  "set_Contains k s \<longleftrightarrow> k \<in> set s"

definition FromSlice :: "'k list \<Rightarrow> 'k list" where
  "FromSlice ks = fold set_Add ks NewSet"

lemma set_set_Add [simp]: "set (set_Add k s) = insert k (set s)"
  by (auto simp: set_Add_def)

lemma set_fold_set_Add: "set (fold set_Add xs s) = set s \<union> set xs"
  by (induction xs arbitrary: s) auto

lemma set_Contains_FromSlice [simp]: "set_Contains k (FromSlice xs) \<longleftrightarrow> k \<in> set xs"
  by (simp add: set_Contains_def FromSlice_def set_fold_set_Add NewSet_def)

lemma set_Contains_Delete [simp]: "set_Contains k (set_Delete k' s) \<longleftrightarrow> k \<noteq> k' \<and> set_Contains k s"
  by (auto simp: set_Contains_def set_Delete_def)

section \<open>pkg/sliceutil and tetrad/pkg/util\<close>

definition slice_Map :: "('a \<Rightarrow> 'b) \<Rightarrow> 'a list \<Rightarrow> 'b list" where
  "slice_Map fn vs = fold (\<lambda>v mapped. mapped @ [fn v]) vs []"

lemma fold_snoc: "fold (\<lambda>v acc. acc @ [f v]) xs acc = acc @ map f xs"
  by (induction xs arbitrary: acc) auto

lemma slice_Map_map: "slice_Map f xs = map f xs"
  by (simp add: slice_Map_def fold_snoc)

text \<open>The loop of \<open>Uniq\<close>: the elements seen so far and the results so far.\<close>

fun uniq_loop :: "'a list \<Rightarrow> 'a list \<Rightarrow> 'a list \<Rightarrow> 'a list" where
  "uniq_loop [] exists results = results"
| "uniq_loop (a # arr) exists results =
     (if a \<in> set exists then uniq_loop arr exists results
      else uniq_loop arr (a # exists) (results @ [a]))"

definition Uniq :: "'a list \<Rightarrow> 'a list" where
  "Uniq arr = uniq_loop arr [] []"

lemma uniq_loop_results:
  "set exists = set results \<Longrightarrow> distinct results \<Longrightarrow>
     distinct (uniq_loop arr exists results) \<and>
     set (uniq_loop arr exists results) = set results \<union> set arr"
  by (induction arr exists results rule: uniq_loop.induct) auto

lemma distinct_Uniq [simp]: "distinct (Uniq xs)"
  and set_Uniq [simp]: "set (Uniq xs) = set xs"
  using uniq_loop_results [of "[]" "[]" xs] by (simp_all add: Uniq_def)

lemma uniq_loop_append:
  "uniq_loop arr exists results = results @ uniq_loop arr exists []"
proof (induction arr arbitrary: exists results)
  case (Cons a arr)
  show ?case
    using Cons.IH [of "a # exists" "results @ [a]"] Cons.IH [of "a # exists" "[a]"]
      Cons.IH [of exists results]
    by simp
qed simp

text \<open>\<open>Uniq\<close> keeps the first occurrence of each element, in order.\<close>

lemma uniq_loop_remdups:
  "uniq_loop arr exists [] = rev (remdups (rev (filter (\<lambda>x. x \<notin> set exists) arr)))"
proof (induction arr arbitrary: exists rule: rev_induct)
  case (snoc a arr)
  have "uniq_loop (arr @ [a]) exists results =
      (let r = uniq_loop arr exists results in
       if a \<in> set exists \<union> set arr then r else r @ [a])" for results
    by (induction arr exists results rule: uniq_loop.induct) (auto simp: Let_def)
  with snoc show ?case by (auto simp: Let_def)
qed simp

lemma Uniq_remdups: "Uniq xs = rev (remdups (rev xs))"
  by (simp add: Uniq_def uniq_loop_remdups)

end
