(* ===== verification/DiscoPeer.thy ===== *)
theory DiscoPeer
  imports Endpoint Containers
begin

text \<open>
  \<open>disco/discoPeer.go\<close>: a peer with its endpoints. The Go interface \<open>DiscoPeerEndpoint\<close> is
  a record of functions over the type of endpoints; the operations of the peer take it as
  their first argument, as the code takes \<open>newEndpoint\<close> and calls methods. The locale
  \<open>disco_endpoint\<close> is the contract of that interface, proved for \<open>discoPeerEndpoint\<close> at
  the end. Maps are syncmaps; \<open>Range\<close> over a map goes through its entries in list order.
\<close>

section \<open>The interface DiscoPeerEndpoint\<close>

record 'e ep_ops =
  op_new :: "u32 \<Rightarrow> addr_port \<Rightarrow> 'e"
  op_Endpoint :: "'e \<Rightarrow> addr_port"
  op_SetPriority :: "ticker_priority \<Rightarrow> 'e \<Rightarrow> 'e"
  op_Enqueue :: "disco_packet \<Rightarrow> 'e \<Rightarrow> 'e option"
  op_ReceivePing :: "time \<Rightarrow> 'e \<Rightarrow> 'e"
  op_Close :: "'e \<Rightarrow> 'e outcome"

locale disco_endpoint =
  fixes ops :: "'e ep_ops"
    and ep_open :: "'e \<Rightarrow> bool"
    and ep_priority :: "'e \<Rightarrow> ticker_priority"
  assumes new_endpoint: "op_Endpoint ops (op_new ops i ap) = ap" "ep_open (op_new ops i ap)"
    and set_priority: "op_Endpoint ops (op_SetPriority ops pr e) = op_Endpoint ops e"
      "ep_open (op_SetPriority ops pr e) = ep_open e"
      "ep_priority (op_SetPriority ops pr e) = pr"
    and enqueue: "op_Enqueue ops pkt e = Some e' \<Longrightarrow>
      op_Endpoint ops e' = op_Endpoint ops e \<and> ep_open e' = ep_open e \<and> ep_priority e' = ep_priority e"
    and receive_ping: "op_Endpoint ops (op_ReceivePing ops now e) = op_Endpoint ops e"
      "ep_open (op_ReceivePing ops now e) = ep_open e"
      "ep_priority (op_ReceivePing ops now e) = ep_priority e"
    and close: "ep_open e \<Longrightarrow> \<exists>e'. op_Close ops e = Returns e'"

section \<open>State\<close>

record peer_status =
  ps_ActiveEndpoint :: addr_port
  ps_ActiveRTT :: duration

record 'e disco_peer =
  dp_closed :: bool
  dp_peerPublicDiscoKey :: key
  dp_localPublicDiscoKey :: key
  dp_sharedKey :: key
  dp_endpointIDCounter :: u32
  dp_endpointToEndpointID :: "(addr_port, u32) syncmap"
  dp_endpoints :: "(u32, 'e) syncmap"
  dp_endpointStatusMap :: "(u32, ep_status) syncmap"
  dp_status :: "peer_status cell"

definition NewDiscoPeer :: "nacl_box \<Rightarrow> key \<Rightarrow> key \<Rightarrow> 'e disco_peer" where
  "NewDiscoPeer B privateKey pubKey =
     \<lparr>dp_closed = False, dp_peerPublicDiscoKey = pubKey,
      dp_localPublicDiscoKey = key_Public B privateKey,
      dp_sharedKey = key_Shared B privateKey pubKey,
      dp_endpointIDCounter = 0, dp_endpointToEndpointID = [], dp_endpoints = [],
      dp_endpointStatusMap = [],
      dp_status = new_cell \<lparr>ps_ActiveEndpoint = zero_addr_port, ps_ActiveRTT = 0\<rparr>\<rparr>"

section \<open>SetEndpoints and Close\<close>

text \<open>The loop over the new endpoints; \<open>id\<close> is the number the next one gets.\<close>

fun add_endpoints :: "'e ep_ops \<Rightarrow> u32 \<Rightarrow> addr_port list \<Rightarrow> 'e disco_peer \<Rightarrow> 'e disco_peer" where
  "add_endpoints ops i [] p = p"
| "add_endpoints ops i (ep # eps) p =
     (case sm_LoadOrStore ep i (dp_endpointToEndpointID p) of
        (m, endpointID, True) \<Rightarrow> add_endpoints ops i eps p
      | (m, endpointID, False) \<Rightarrow>
          (let i' = dp_endpointIDCounter p + 1
           in add_endpoints ops i' eps
                (p\<lparr>dp_endpointToEndpointID := m, dp_endpointIDCounter := i',
                   dp_endpoints := sm_Store endpointID (op_new ops endpointID ep) (dp_endpoints p)\<rparr>)))"

text \<open>The \<open>Range\<close> that closes every endpoint whose address fails the test.\<close>

fun prune :: "'e ep_ops \<Rightarrow> (addr_port \<Rightarrow> bool) \<Rightarrow> (u32, 'e) syncmap \<Rightarrow> 'e disco_peer
    \<Rightarrow> 'e disco_peer outcome" where
  "prune ops keep [] p = Returns p"
| "prune ops keep ((k, v) # rest) p =
     (let ep = op_Endpoint ops v
      in if keep ep then prune ops keep rest p
         else
           let p1 = p\<lparr>dp_endpointToEndpointID := sm_Delete ep (dp_endpointToEndpointID p)\<rparr>
           in case sm_LoadAndDelete k (dp_endpoints p1) of
                (m, None) \<Rightarrow> prune ops keep rest p1
              | (m, Some e) \<Rightarrow>
                  bind_outcome (op_Close ops e)
                    (\<lambda>_. prune ops keep rest (p1\<lparr>dp_endpoints := m\<rparr>)))"

definition closeAllEndpoints :: "'e ep_ops \<Rightarrow> 'e disco_peer \<Rightarrow> 'e disco_peer outcome" where
  "closeAllEndpoints ops p = prune ops (\<lambda>_. False) (dp_endpoints p) p"

text \<open>\<open>SetEndpoints\<close> up to the second look at \<open>closed\<close>, and from there on.\<close>

definition SetEndpoints_add :: "'e ep_ops \<Rightarrow> addr_port list \<Rightarrow> 'e disco_peer \<Rightarrow> 'e disco_peer" where
  "SetEndpoints_add ops endpoints p =
     (let i = dp_endpointIDCounter p + 1
      in add_endpoints ops i endpoints (p\<lparr>dp_endpointIDCounter := i\<rparr>))"

definition SetEndpoints_prune ::
  "'e ep_ops \<Rightarrow> addr_port list \<Rightarrow> 'e disco_peer \<Rightarrow> 'e disco_peer outcome" where
  "SetEndpoints_prune ops endpoints p =
     (if dp_closed p then closeAllEndpoints ops p
      else let endpointSet = FromSlice endpoints
           in prune ops (\<lambda>ep. set_Contains ep endpointSet) (dp_endpoints p) p)"

definition SetEndpoints ::
  "'e ep_ops \<Rightarrow> addr_port list \<Rightarrow> 'e disco_peer \<Rightarrow> 'e disco_peer outcome" where
  "SetEndpoints ops endpoints p =
     (if dp_closed p then closeAllEndpoints ops p
      else SetEndpoints_prune ops endpoints (SetEndpoints_add ops endpoints p))"

text \<open>
  \<open>Close\<close> recovers from every panic, in particular from closing a closed channel, and then
  does nothing more. The second component says whether \<open>onClose\<close> is called.
\<close>

definition peer_Close_rest :: "'e ep_ops \<Rightarrow> 'e disco_peer \<Rightarrow> 'e disco_peer outcome" where
  "peer_Close_rest ops p =
     bind_outcome (closeAllEndpoints ops p)
       (\<lambda>p1. Returns (p1\<lparr>dp_status := cell_close (dp_status p1)\<rparr>))"

definition peer_Close :: "'e ep_ops \<Rightarrow> 'e disco_peer \<Rightarrow> 'e disco_peer \<times> bool" where
  "peer_Close ops p =
     (if dp_closed p then (p, False)
      else let p1 = p\<lparr>dp_closed := True\<rparr>
           in case peer_Close_rest ops p1 of
                Panics _ \<Rightarrow> (p1, False)
              | Returns p2 \<Rightarrow> (p2, True))"

section \<open>updateStatus\<close>

definition MaxInt64 :: duration where
  "MaxInt64 = 2 ^ 63 - 1"

text \<open>
  \<open>updateStatus\<close> holds no lock: first it reads the status map and picks the connected
  endpoint with the smallest round-trip time, then it writes priorities and status.
\<close>

type_synonym selection = "duration \<times> addr_port \<times> u32"

definition select_step ::
  "'e ep_ops \<Rightarrow> (u32, 'e) syncmap \<Rightarrow> u32 \<Rightarrow> ep_status \<Rightarrow> selection \<Rightarrow> selection" where
  "select_step ops eps k v sel =
     (case sel of (minRTT, minEndpoint, minID) \<Rightarrow>
        if es_State v \<noteq> Connected \<or> minRTT < es_RTT v then sel
        else case sm_Load k eps of
               None \<Rightarrow> sel
             | Some dpe \<Rightarrow> (es_RTT v, op_Endpoint ops dpe, k))"

definition updateStatus_select :: "'e ep_ops \<Rightarrow> 'e disco_peer \<Rightarrow> selection" where
  "updateStatus_select ops p =
     sm_Range (\<lambda>k v sel. (select_step ops (dp_endpoints p) k v sel, True))
       (dp_endpointStatusMap p) (MaxInt64, zero_addr_port, 0)"

definition updateStatus_apply :: "'e ep_ops \<Rightarrow> selection \<Rightarrow> 'e disco_peer \<Rightarrow> 'e disco_peer" where
  "updateStatus_apply ops sel p =
     (case sel of (minRTT, minEndpoint, minID) \<Rightarrow>
        let p1 = p\<lparr>dp_endpoints := map (\<lambda>(k, v).
                     (k, op_SetPriority ops
                           (if minRTT = MaxInt64 then Primary
                            else if k = minID then Primary else Sub) v)) (dp_endpoints p)\<rparr>
        in if minRTT = MaxInt64 then p1
           else p1\<lparr>dp_status := cell_setStatus
                     \<lparr>ps_ActiveEndpoint = minEndpoint, ps_ActiveRTT = minRTT\<rparr> (dp_status p1)\<rparr>)"

definition updateStatus :: "'e ep_ops \<Rightarrow> 'e disco_peer \<Rightarrow> 'e disco_peer" where
  "updateStatus ops p = updateStatus_apply ops (updateStatus_select ops p) p"

text \<open>The callback that \<open>SetEndpoints\<close> registers for endpoint \<open>i\<close>.\<close>

definition store_status :: "u32 \<Rightarrow> ep_status \<Rightarrow> 'e disco_peer \<Rightarrow> 'e disco_peer" where
  "store_status i st p = p\<lparr>dp_endpointStatusMap := sm_Store i st (dp_endpointStatusMap p)\<rparr>"

definition status_callback :: "'e ep_ops \<Rightarrow> u32 \<Rightarrow> ep_status \<Rightarrow> 'e disco_peer \<Rightarrow> 'e disco_peer" where
  "status_callback ops i st p = updateStatus ops (store_status i st p)"

section \<open>Received packets\<close>

definition handlePing :: "nacl_box \<Rightarrow> byte list option \<Rightarrow> 'e ep_ops \<Rightarrow> time \<Rightarrow> disco_packet
    \<Rightarrow> 'e disco_peer \<Rightarrow> 'e disco_peer \<times> enc_packet option" where
  "handlePing B rnd ops now pkt p =
     (let resp = \<lparr>pkt_Header = PongMessage, pkt_SrcPublicDiscoKey = dp_localPublicDiscoKey p,
                  pkt_EndpointID = pkt_EndpointID pkt, pkt_ID = pkt_ID pkt,
                  pkt_Endpoint = pkt_Endpoint pkt, pkt_SharedKey = dp_sharedKey p\<rparr>
      in case packet_Encrypt B rnd resp of
           None \<Rightarrow> (p, None)
         | Some encrypted \<Rightarrow>
             (case sm_Load (pkt_Endpoint pkt) (dp_endpointToEndpointID p) of
                None \<Rightarrow> (p, Some encrypted)
              | Some i \<Rightarrow>
                  (case sm_Load i (dp_endpoints p) of
                     None \<Rightarrow> (p, Some encrypted)
                   | Some ep \<Rightarrow>
                       (p\<lparr>dp_endpoints := sm_Store i (op_ReceivePing ops now ep) (dp_endpoints p)\<rparr>,
                        Some encrypted))))"

text \<open>
  One round of \<open>run\<close> with a packet: the new state and the packet handed to the sender.
  \<open>None\<close>: the endpoint's queue is full and the goroutine blocks.
\<close>

definition run_packet :: "nacl_box \<Rightarrow> byte list option \<Rightarrow> 'e ep_ops \<Rightarrow> time \<Rightarrow> enc_packet
    \<Rightarrow> 'e disco_peer \<Rightarrow> ('e disco_peer \<times> enc_packet option) option" where
  "run_packet B rnd ops now pkt p =
     (let blank = \<lparr>pkt_Header = 0, pkt_SrcPublicDiscoKey = replicate 32 0, pkt_EndpointID = 0,
                   pkt_ID = 0, pkt_Endpoint = zero_addr_port, pkt_SharedKey = dp_sharedKey p\<rparr>
      in case packet_Decrypt B blank pkt of
           (decrypted, False) \<Rightarrow> Some (p, None)
         | (decrypted, True) \<Rightarrow>
             if pkt_Header decrypted = PingMessage
             then Some (handlePing B rnd ops now decrypted p)
             else
               (case sm_Load (pkt_EndpointID decrypted) (dp_endpoints p) of
                  None \<Rightarrow> Some (p, None)
                | Some ep \<Rightarrow>
                    (case op_Enqueue ops decrypted ep of
                       None \<Rightarrow> None
                     | Some ep' \<Rightarrow>
                         Some (p\<lparr>dp_endpoints :=
                                   sm_Store (pkt_EndpointID decrypted) ep' (dp_endpoints p)\<rparr>, None))))"


section \<open>The invariant of a peer\<close>

text \<open>
  The two maps are inverse to each other, every endpoint in them is open, and no number
  above the counter is in use.
\<close>

definition peer_inv :: "'e ep_ops \<Rightarrow> ('e \<Rightarrow> bool) \<Rightarrow> 'e disco_peer \<Rightarrow> bool" where
  "peer_inv ops opened p \<longleftrightarrow>
     sm_ok (dp_endpointToEndpointID p) \<and> sm_ok (dp_endpoints p) \<and>
     (\<forall>k e. sm_Load k (dp_endpoints p) = Some e \<longrightarrow>
        sm_Load (op_Endpoint ops e) (dp_endpointToEndpointID p) = Some k \<and> opened e \<and>
        unat k \<le> unat (dp_endpointIDCounter p)) \<and>
     (\<forall>a i. sm_Load a (dp_endpointToEndpointID p) = Some i \<longrightarrow>
        (\<exists>e. sm_Load i (dp_endpoints p) = Some e \<and> op_Endpoint ops e = a))"

lemma sm_Load_set: "sm_ok m \<Longrightarrow> sm_Load k m = Some v \<longleftrightarrow> (k, v) \<in> set m"
  by (simp add: sm_ok_def sm_Load_def map_of_eq_Some_iff)

lemma sm_Load_Nil [simp]: "sm_Load k [] = None"
  by (simp add: sm_Load_def)

lemma peer_invD:
  assumes "peer_inv ops opened p"
  shows "sm_ok (dp_endpointToEndpointID p)" "sm_ok (dp_endpoints p)"
    "sm_Load k (dp_endpoints p) = Some e \<Longrightarrow>
       sm_Load (op_Endpoint ops e) (dp_endpointToEndpointID p) = Some k \<and> opened e \<and>
       unat k \<le> unat (dp_endpointIDCounter p)"
    "sm_Load a (dp_endpointToEndpointID p) = Some i \<Longrightarrow>
       \<exists>e. sm_Load i (dp_endpoints p) = Some e \<and> op_Endpoint ops e = a"
  using assms by (simp_all add: peer_inv_def)

lemma peer_invI:
  assumes "sm_ok (dp_endpointToEndpointID p)" "sm_ok (dp_endpoints p)"
    "\<And>k e. sm_Load k (dp_endpoints p) = Some e \<Longrightarrow>
       sm_Load (op_Endpoint ops e) (dp_endpointToEndpointID p) = Some k \<and> opened e \<and>
       unat k \<le> unat (dp_endpointIDCounter p)"
    "\<And>a i. sm_Load a (dp_endpointToEndpointID p) = Some i \<Longrightarrow>
       \<exists>e. sm_Load i (dp_endpoints p) = Some e \<and> op_Endpoint ops e = a"
  shows "peer_inv ops opened p"
  using assms by (simp add: peer_inv_def)

lemma peer_inv_new: "peer_inv ops opened (NewDiscoPeer B pk pub)"
  by (simp add: peer_inv_def NewDiscoPeer_def sm_ok_def)

text \<open>What adding endpoints leaves in place, and what it brings.\<close>

definition added :: "'e ep_ops \<Rightarrow> addr_port list \<Rightarrow> 'e disco_peer \<Rightarrow> 'e disco_peer \<Rightarrow> bool" where
  "added ops eps p p' \<longleftrightarrow>
     (\<forall>k e. sm_Load k (dp_endpoints p) = Some e \<longrightarrow> sm_Load k (dp_endpoints p') = Some e) \<and>
     (\<forall>k e. sm_Load k (dp_endpoints p') = Some e \<longrightarrow> sm_Load k (dp_endpoints p) \<noteq> Some e \<longrightarrow>
        op_Endpoint ops e \<in> set eps \<and> e = op_new ops k (op_Endpoint ops e) \<and>
        unat (dp_endpointIDCounter p) \<le> unat k) \<and>
     fst ` set (dp_endpointToEndpointID p') = fst ` set (dp_endpointToEndpointID p) \<union> set eps \<and>
     dp_closed p' = dp_closed p \<and> dp_status p' = dp_status p \<and>
     dp_endpointStatusMap p' = dp_endpointStatusMap p"

context disco_endpoint
begin

lemma peer_inv_add_one:
  assumes inv: "peer_inv ops ep_open p" and new: "sm_Load ep (dp_endpointToEndpointID p) = None"
    and fresh: "\<And>k e. sm_Load k (dp_endpoints p) = Some e \<Longrightarrow> k \<noteq> i" and i: "unat i \<le> unat c"
    and c: "unat (dp_endpointIDCounter p) \<le> unat c"
  shows "peer_inv ops ep_open (p\<lparr>dp_endpointToEndpointID := sm_Store ep i (dp_endpointToEndpointID p),
           dp_endpointIDCounter := c, dp_endpoints := sm_Store i (op_new ops i ep) (dp_endpoints p)\<rparr>)"
proof (rule peer_invI; (simp add: syncmap.invar_store peer_invD(1,2) [OF inv])?)
  fix k e
  assume "sm_Load k (sm_Store i (op_new ops i ep) (dp_endpoints p)) = Some e"
  then consider "k = i" "e = op_new ops i ep" | "k \<noteq> i" "sm_Load k (dp_endpoints p) = Some e"
    by (auto simp: syncmap.load_store split: if_splits)
  then show "sm_Load (op_Endpoint ops e) (sm_Store ep i (dp_endpointToEndpointID p)) = Some k \<and>
      ep_open e \<and> unat k \<le> unat c"
  proof cases
    case 1
    with i show ?thesis by (simp add: new_endpoint syncmap.load_store)
  next
    case 2
    with peer_invD(3) [OF inv 2(2)] new c show ?thesis by (auto simp: syncmap.load_store)
  qed
next
  fix a j
  assume "sm_Load a (sm_Store ep i (dp_endpointToEndpointID p)) = Some j"
  then consider "a = ep" "j = i" | "sm_Load a (dp_endpointToEndpointID p) = Some j"
    by (cases "a = ep") (simp_all add: syncmap.load_store)
  then show "\<exists>e. sm_Load j (sm_Store i (op_new ops i ep) (dp_endpoints p)) = Some e \<and> op_Endpoint ops e = a"
  proof cases
    case 1
    then show ?thesis by (simp add: new_endpoint syncmap.load_store)
  next
    case 2
    from peer_invD(4) [OF inv this] fresh show ?thesis by (auto simp: syncmap.load_store)
  qed
qed

lemma add_endpoints_correct:
  assumes "peer_inv ops ep_open p" "i = dp_endpointIDCounter p"
    "\<And>k e. sm_Load k (dp_endpoints p) = Some e \<Longrightarrow> unat k < unat i"
    "unat i + length eps < 2 ^ 32"
  shows "peer_inv ops ep_open (add_endpoints ops i eps p) \<and> added ops eps p (add_endpoints ops i eps p)"
  using assms
proof (induction eps arbitrary: i p)
  case Nil
  then show ?case by (simp add: added_def)
next
  case (Cons ep eps)
  show ?case
  proof (cases "sm_Load ep (dp_endpointToEndpointID p)")
    case (Some j)
    then have "ep \<in> fst ` set (dp_endpointToEndpointID p)"
      by (metis sm_Load_dom option.distinct(1))
    moreover have "unat i + length eps < 2 ^ 32"
      using Cons.prems(4) by simp
    note Cons.IH [OF Cons.prems(1,2,3) this]
    ultimately show ?thesis
      using Some by (simp add: syncmap.load_or_store_law added_def insert_absorb)
  next
    case None
    let ?p = "p\<lparr>dp_endpointToEndpointID := sm_Store ep i (dp_endpointToEndpointID p),
      dp_endpointIDCounter := i + 1, dp_endpoints := sm_Store i (op_new ops i ep) (dp_endpoints p)\<rparr>"
    have i1: "unat (i + 1) = unat i + 1"
      using Cons.prems(4) by (simp add: unat_word_ariths)
    have eq: "add_endpoints ops i (ep # eps) p = add_endpoints ops (i + 1) eps ?p"
      using None Cons.prems(2) by (simp add: syncmap.load_or_store_law Let_def)
    have fresh: "k \<noteq> i" if "sm_Load k (dp_endpoints p) = Some e" for k e
      using Cons.prems(3) [OF that] by auto
    have "peer_inv ops ep_open ?p"
      using peer_inv_add_one [OF Cons.prems(1) None fresh] Cons.prems(2) i1 by simp
    then have IH: "peer_inv ops ep_open (add_endpoints ops (i + 1) eps ?p)"
      "added ops eps ?p (add_endpoints ops (i + 1) eps ?p)"
      using Cons.IH [of ?p "i + 1"] Cons.prems(3,4)
      by (auto simp: i1 syncmap.load_store less_SucI split: if_splits)
    have step: "sm_Load k (dp_endpoints ?p) = (if k = i then Some (op_new ops i ep) else sm_Load k (dp_endpoints p))" for k
      by (simp add: syncmap.load_store)
    have "added ops (ep # eps) p (add_endpoints ops (i + 1) eps ?p)"
      unfolding added_def
    proof (intro conjI allI impI)
      show "sm_Load k (dp_endpoints (add_endpoints ops (i + 1) eps ?p)) = Some e"
        if "sm_Load k (dp_endpoints p) = Some e" for k e
        using IH(2) that fresh [OF that] step [of k] by (simp add: added_def)
      fix k e
      assume k: "sm_Load k (dp_endpoints (add_endpoints ops (i + 1) eps ?p)) = Some e"
        "sm_Load k (dp_endpoints p) \<noteq> Some e"
      show "op_Endpoint ops e \<in> set (ep # eps)" "e = op_new ops k (op_Endpoint ops e)"
        "unat (dp_endpointIDCounter p) \<le> unat k"
        using IH(2) k step [of k] i1 Cons.prems(2) unfolding added_def
        by (cases "sm_Load k (dp_endpoints ?p) = Some e"; force simp: new_endpoint split: if_splits)+
    qed (use IH(2) in \<open>auto simp: added_def keyed_simps\<close>)
    with IH(1) eq show ?thesis by simp
  qed
qed

lemma peer_inv_delete_one:
  assumes "peer_inv ops ep_open p" and kv: "sm_Load k (dp_endpoints p) = Some v"
  shows "peer_inv ops ep_open (p\<lparr>
    dp_endpointToEndpointID := sm_Delete (op_Endpoint ops v) (dp_endpointToEndpointID p),
    dp_endpoints := sm_Delete k (dp_endpoints p)\<rparr>)" (is "peer_inv _ _ ?p")
proof -
  let ?ep = "op_Endpoint ops v"
  note inv = peer_invD [OF assms(1)]
  show ?thesis
  proof (rule peer_invI)
    fix k' e
    assume "sm_Load k' (dp_endpoints ?p) = Some e"
    then have "k' \<noteq> k" "sm_Load k' (dp_endpoints p) = Some e"
      by (simp_all add: syncmap.load_delete split: if_splits)
    then show "sm_Load (op_Endpoint ops e) (dp_endpointToEndpointID ?p) = Some k' \<and> ep_open e \<and>
        unat k' \<le> unat (dp_endpointIDCounter ?p)"
      using inv(3) [of k' e] inv(3) [OF kv] by (auto simp: syncmap.load_delete)
  next
    fix a i
    assume "sm_Load a (dp_endpointToEndpointID ?p) = Some i"
    then have "a \<noteq> ?ep" "sm_Load a (dp_endpointToEndpointID p) = Some i"
      by (simp_all add: syncmap.load_delete split: if_splits)
    then show "\<exists>e. sm_Load i (dp_endpoints ?p) = Some e \<and> op_Endpoint ops e = a"
      using inv(4) [of a i] kv by (auto simp: syncmap.load_delete)
  qed (simp_all add: syncmap.invar_delete inv(1,2))
qed

lemma prune_correct:
  assumes "peer_inv ops ep_open p" "set rest \<subseteq> set (dp_endpoints p)" "distinct (map fst rest)"
  shows "\<exists>p'. prune ops keep rest p = Returns p' \<and> peer_inv ops ep_open p' \<and>
    dp_endpointIDCounter p' = dp_endpointIDCounter p \<and> dp_closed p' = dp_closed p \<and>
    dp_status p' = dp_status p \<and>
    (\<forall>k e. sm_Load k (dp_endpoints p') = Some e \<longleftrightarrow>
       sm_Load k (dp_endpoints p) = Some e \<and> (k \<in> fst ` set rest \<longrightarrow> keep (op_Endpoint ops e)))"
  using assms
proof (induction rest arbitrary: p)
  case Nil
  then show ?case by simp
next
  case (Cons x rest)
  obtain k v where x: "x = (k, v)"
    by fastforce
  have kv: "sm_Load k (dp_endpoints p) = Some v"
    using Cons.prems x peer_invD(2) [OF Cons.prems(1)] by (simp add: sm_Load_set)
  have notin: "k \<notin> fst ` set rest"
    using Cons.prems(3) x by simp
  show ?case
  proof (cases "keep (op_Endpoint ops v)")
    case True
    have "set rest \<subseteq> set (dp_endpoints p)" "distinct (map fst rest)"
      using Cons.prems by auto
    with Cons.IH [OF Cons.prems(1)] obtain p' where p': "prune ops keep rest p = Returns p'"
      "peer_inv ops ep_open p'" "dp_endpointIDCounter p' = dp_endpointIDCounter p"
      "dp_closed p' = dp_closed p" "dp_status p' = dp_status p"
      "\<forall>k e. sm_Load k (dp_endpoints p') = Some e \<longleftrightarrow>
         sm_Load k (dp_endpoints p) = Some e \<and> (k \<in> fst ` set rest \<longrightarrow> keep (op_Endpoint ops e))"
      by blast
    moreover have "prune ops keep (x # rest) p = Returns p'"
      using True x p'(1) by simp
    ultimately show ?thesis
      using True x kv by (intro exI [of _ p']) auto
  next
    case False
    let ?ep = "op_Endpoint ops v"
    let ?p = "p\<lparr>dp_endpointToEndpointID := sm_Delete ?ep (dp_endpointToEndpointID p),
      dp_endpoints := sm_Delete k (dp_endpoints p)\<rparr>"
    note inv = peer_invD [OF Cons.prems(1)]
    obtain v' where v': "op_Close ops v = Returns v'"
      using close inv(3) [OF kv] by blast
    have "peer_inv ops ep_open ?p"
      by (rule peer_inv_delete_one [OF Cons.prems(1) kv])
    moreover have "set rest \<subseteq> set (dp_endpoints ?p)"
      using Cons.prems(2) notin by (force simp: sm_Delete_def AList.delete_eq)
    moreover have "distinct (map fst rest)"
      using Cons.prems by simp
    ultimately obtain p' where p': "prune ops keep rest ?p = Returns p'" "peer_inv ops ep_open p'"
      "dp_endpointIDCounter p' = dp_endpointIDCounter p" "dp_closed p' = dp_closed p"
      "dp_status p' = dp_status p"
      "\<forall>i e. sm_Load i (dp_endpoints p') = Some e \<longleftrightarrow>
         sm_Load i (dp_endpoints ?p) = Some e \<and> (i \<in> fst ` set rest \<longrightarrow> keep (op_Endpoint ops e))"
      using Cons.IH [of ?p] by (elim exE conjE meta_impE) simp_all
    moreover have "prune ops keep (x # rest) p = Returns p'"
      using False x kv v' p'(1) by (simp add: Let_def syncmap.load_and_delete_law)
    ultimately show ?thesis
      using False x kv notin by (intro exI [of _ p']) (auto simp: syncmap.load_delete split: if_splits)
  qed
qed

lemma prune_all:
  assumes "peer_inv ops ep_open p"
  shows "\<exists>p'. prune ops keep (dp_endpoints p) p = Returns p' \<and> peer_inv ops ep_open p' \<and>
    dp_endpointIDCounter p' = dp_endpointIDCounter p \<and> dp_closed p' = dp_closed p \<and>
    dp_status p' = dp_status p \<and>
    (\<forall>k e. sm_Load k (dp_endpoints p') = Some e \<longleftrightarrow>
       sm_Load k (dp_endpoints p) = Some e \<and> keep (op_Endpoint ops e))"
proof -
  have "k \<in> fst ` set (dp_endpoints p)" if "sm_Load k (dp_endpoints p) = Some e" for k e
    using that by (metis sm_Load_dom option.distinct(1))
  then show ?thesis
    using prune_correct [OF assms, of "dp_endpoints p" keep] peer_invD(2) [OF assms]
    by (fastforce simp: sm_ok_def split: option.splits if_splits)
qed

lemma closeAllEndpoints_correct:
  assumes "peer_inv ops ep_open p"
  shows "\<exists>p'. closeAllEndpoints ops p = Returns p' \<and> peer_inv ops ep_open p' \<and> dp_endpoints p' = [] \<and>
    dp_endpointToEndpointID p' = [] \<and> dp_closed p' = dp_closed p \<and> dp_status p' = dp_status p"
proof -
  obtain p' where p': "closeAllEndpoints ops p = Returns p'" "peer_inv ops ep_open p'"
    "dp_closed p' = dp_closed p" "dp_status p' = dp_status p"
    "\<And>k e. sm_Load k (dp_endpoints p') \<noteq> Some e"
    using prune_all [OF assms, of "\<lambda>_. False"] by (auto simp: closeAllEndpoints_def)
  then have "dp_endpoints p' = []"
    by (metis sm_Load_def map_of_eq_None_iff not_None_eq empty_iff image_is_empty set_empty ex_in_conv)
  moreover have "sm_Load a (dp_endpointToEndpointID p') = None" for a
    using peer_invD(4) [OF p'(2), of a] p'(5) by (cases "sm_Load a (dp_endpointToEndpointID p')") auto
  then have "dp_endpointToEndpointID p' = []"
    by (metis sm_Load_def map_of_eq_None_iff empty_iff image_is_empty set_empty ex_in_conv)
  ultimately show ?thesis
    using p' by blast
qed

lemma SetEndpoints_add_correct:
  assumes "peer_inv ops ep_open p" "unat (dp_endpointIDCounter p) + length eps + 1 < 2 ^ 32"
  shows "peer_inv ops ep_open (SetEndpoints_add ops eps p) \<and> added ops eps p (SetEndpoints_add ops eps p)"
proof -
  let ?i = "dp_endpointIDCounter p + 1"
  let ?p = "p\<lparr>dp_endpointIDCounter := ?i\<rparr>"
  have i: "unat ?i = unat (dp_endpointIDCounter p) + 1"
    using assms(2) by (simp add: unat_word_ariths)
  note inv = peer_invD [OF assms(1)]
  have "peer_inv ops ep_open ?p"
    using inv(3) inv(4) by (intro peer_invI) (auto simp: i inv(1,2) le_SucI)
  moreover have "unat k < unat ?i" if "sm_Load k (dp_endpoints ?p) = Some e" for k e
    using inv(3) [of k e] that i by simp
  moreover have "unat ?i + length eps < 2 ^ 32"
    using i assms(2) by simp
  ultimately have "peer_inv ops ep_open (add_endpoints ops ?i eps ?p)"
    "added ops eps ?p (add_endpoints ops ?i eps ?p)"
    using add_endpoints_correct [of ?p ?i eps] by simp_all
  moreover have "unat (dp_endpointIDCounter p) \<le> n" if "unat ?i \<le> n" for n
    using i that by simp
  ultimately show ?thesis
    by (simp add: SetEndpoints_add_def Let_def added_def)
qed

lemma SetEndpoints_prune_correct:
  assumes "peer_inv ops ep_open p"
  shows "\<exists>p'. SetEndpoints_prune ops eps p = Returns p' \<and> peer_inv ops ep_open p' \<and>
    dp_closed p' = dp_closed p \<and> dp_status p' = dp_status p \<and>
    (\<forall>k e. sm_Load k (dp_endpoints p') = Some e \<longleftrightarrow>
       sm_Load k (dp_endpoints p) = Some e \<and> \<not> dp_closed p \<and> op_Endpoint ops e \<in> set eps)"
  using closeAllEndpoints_correct [OF assms] prune_all [OF assms, of "\<lambda>ep. set_Contains ep (FromSlice eps)"]
  by (cases "dp_closed p") (auto simp: SetEndpoints_prune_def Let_def)

lemma inv_addresses:
  assumes "peer_inv ops ep_open p"
  shows "a \<in> fst ` set (dp_endpointToEndpointID p) \<longleftrightarrow>
    (\<exists>k e. sm_Load k (dp_endpoints p) = Some e \<and> op_Endpoint ops e = a)"
proof -
  have "a \<in> fst ` set (dp_endpointToEndpointID p) \<longleftrightarrow> (\<exists>i. sm_Load a (dp_endpointToEndpointID p) = Some i)"
    using sm_Load_dom [of a "dp_endpointToEndpointID p"] by auto
  then show ?thesis
    using peer_invD(3,4) [OF assms] by metis
qed

lemma inv_one_per_address:
  assumes "peer_inv ops ep_open p" "sm_Load k (dp_endpoints p) = Some e"
    "sm_Load k' (dp_endpoints p) = Some e'" "op_Endpoint ops e = op_Endpoint ops e'"
  shows "k = k' \<and> e = e'"
  using peer_invD(3) [OF assms(1,2)] peer_invD(3) [OF assms(1,3)] assms by auto

lemma SetEndpoints_correct:
  assumes inv: "peer_inv ops ep_open p" and "\<not> dp_closed p"
    and "unat (dp_endpointIDCounter p) + length eps + 1 < 2 ^ 32"
  shows "\<exists>p'. SetEndpoints ops eps p = Returns p' \<and> peer_inv ops ep_open p' \<and> dp_status p' = dp_status p \<and>
    \<not> dp_closed p' \<and> op_Endpoint ops ` set (map snd (dp_endpoints p')) = set eps \<and>
    (\<forall>k e. sm_Load k (dp_endpoints p) = Some e \<longrightarrow> op_Endpoint ops e \<in> set eps \<longrightarrow>
       sm_Load k (dp_endpoints p') = Some e) \<and>
    (\<forall>k e. sm_Load k (dp_endpoints p') = Some e \<longrightarrow> sm_Load k (dp_endpoints p) \<noteq> Some e \<longrightarrow>
       e = op_new ops k (op_Endpoint ops e) \<and> unat (dp_endpointIDCounter p) \<le> unat k)"
proof -
  let ?q = "SetEndpoints_add ops eps p"
  have q: "peer_inv ops ep_open ?q" "added ops eps p ?q"
    using SetEndpoints_add_correct [OF inv assms(3)] by simp_all
  then have closed: "\<not> dp_closed ?q"
    using assms(2) by (simp add: added_def)
  obtain p' where p': "SetEndpoints_prune ops eps ?q = Returns p'" "peer_inv ops ep_open p'"
    "dp_status p' = dp_status ?q" "\<not> dp_closed p'"
    "\<And>k e. sm_Load k (dp_endpoints p') = Some e \<longleftrightarrow>
       sm_Load k (dp_endpoints ?q) = Some e \<and> op_Endpoint ops e \<in> set eps"
    using SetEndpoints_prune_correct [OF q(1), of eps] closed by auto
  have "a \<in> op_Endpoint ops ` set (map snd (dp_endpoints p')) \<longleftrightarrow> a \<in> set eps" for a
  proof -
    have "a \<in> op_Endpoint ops ` set (map snd (dp_endpoints p')) \<longleftrightarrow>
        (\<exists>k e. sm_Load k (dp_endpoints p') = Some e \<and> op_Endpoint ops e = a)"
      unfolding sm_Load_set [OF peer_invD(2) [OF p'(2)]] by force
    also have "\<dots> \<longleftrightarrow> a \<in> fst ` set (dp_endpointToEndpointID ?q) \<and> a \<in> set eps"
      unfolding inv_addresses [OF q(1)] p'(5) by blast
    also have "\<dots> \<longleftrightarrow> a \<in> set eps"
      using q(2) by (auto simp: added_def)
    finally show ?thesis .
  qed
  then have "op_Endpoint ops ` set (map snd (dp_endpoints p')) = set eps"
    by blast
  then show ?thesis
    using p' q(2) assms(2) by (intro exI [of _ p']) (auto simp: SetEndpoints_def added_def)
qed

lemma peer_Close_rest_correct:
  assumes "peer_inv ops ep_open p"
  shows "\<exists>p'. peer_Close_rest ops p = Returns p' \<and> peer_inv ops ep_open p' \<and> dp_endpoints p' = [] \<and>
    dp_endpointToEndpointID p' = [] \<and> dp_closed p' = dp_closed p \<and> cell_closed (dp_status p')"
  using closeAllEndpoints_correct [OF assms]
  by (auto simp: peer_Close_rest_def cell_close_def peer_inv_def)

end

section \<open>The choice of the active endpoint\<close>

definition candidate :: "(u32, 'e) syncmap \<Rightarrow> u32 \<Rightarrow> ep_status \<Rightarrow> bool" where
  "candidate eps k v \<longleftrightarrow> es_State v = Connected \<and> sm_Load k eps \<noteq> None"

definition chosen :: "'e ep_ops \<Rightarrow> (u32, 'e) syncmap \<Rightarrow> (u32 \<times> ep_status) set \<Rightarrow> selection \<Rightarrow> bool" where
  "chosen ops eps S sel \<longleftrightarrow> (case sel of (r, a, i) \<Rightarrow>
     \<exists>v e. (i, v) \<in> S \<and> candidate eps i v \<and> sm_Load i eps = Some e \<and> r = es_RTT v \<and>
           a = op_Endpoint ops e \<and> (\<forall>(j, w) \<in> S. candidate eps j w \<longrightarrow> r \<le> es_RTT w))"

lemma select_fold:
  assumes "\<forall>(k, v) \<in> set m. es_RTT v < MaxInt64"
    "sel = (MaxInt64, a0, i0) \<and> (\<forall>(k, v) \<in> S. \<not> candidate eps k v) \<or>
     chosen ops eps S sel \<and> fst sel < MaxInt64"
  shows "let sel' = fold (\<lambda>(k, v). select_step ops eps k v) m sel in
    sel' = (MaxInt64, a0, i0) \<and> (\<forall>(k, v) \<in> S \<union> set m. \<not> candidate eps k v) \<or>
    chosen ops eps (S \<union> set m) sel' \<and> fst sel' < MaxInt64"
  using assms
proof (induction m arbitrary: S sel)
  case Nil
  then show ?case by simp
next
  case (Cons x m)
  obtain k v where x: "x = (k, v)"
    by fastforce
  obtain r a i where sel: "sel = (r, a, i)"
    by (cases sel)
  let ?S = "insert (k, v) S"
  let ?s = "select_step ops eps k v sel"
  have "?s = (MaxInt64, a0, i0) \<and> (\<forall>(k, v) \<in> ?S. \<not> candidate eps k v) \<or>
      chosen ops eps ?S ?s \<and> fst ?s < MaxInt64"
  proof (cases "es_State v \<noteq> Connected \<or> r < es_RTT v \<or> sm_Load k eps = None")
    case True
    then have "?s = sel"
      by (auto simp: select_step_def sel split: option.split)
    moreover have "es_RTT v < MaxInt64"
      using Cons.prems(1) x by auto
    ultimately show ?thesis
      using True Cons.prems(2) by (auto simp: sel chosen_def candidate_def)
  next
    case False
    then obtain e where e: "sm_Load k eps = Some e" by auto
    with False have s: "?s = (es_RTT v, op_Endpoint ops e, k)"
      by (simp add: select_step_def sel)
    have "chosen ops eps ?S ?s"
      using False e Cons.prems(2) unfolding s chosen_def prod.case
      by (intro exI [of _ v] exI [of _ e]) (force simp: sel chosen_def candidate_def)
    then show ?thesis
      using Cons.prems(1) s x by auto
  qed
  then show ?case
    using Cons.IH [of ?s ?S] Cons.prems(1) x by (simp add: insert_commute)
qed

lemma updateStatus_select_cases:
  assumes "\<forall>(k, v) \<in> set (dp_endpointStatusMap p). es_RTT v < MaxInt64"
  obtains (none) "updateStatus_select ops p = (MaxInt64, zero_addr_port, 0)"
      "\<forall>(k, v) \<in> set (dp_endpointStatusMap p). \<not> candidate (dp_endpoints p) k v"
  | (some) "chosen ops (dp_endpoints p) (set (dp_endpointStatusMap p)) (updateStatus_select ops p)"
      "fst (updateStatus_select ops p) < MaxInt64"
  using select_fold [OF assms, of "(MaxInt64, zero_addr_port, 0)" zero_addr_port 0 "{}" "dp_endpoints p" ops]
  unfolding updateStatus_select_def sm_Range_True Let_def by auto

lemma map_of_map_key: "map_of (map (\<lambda>(k, v). (k, f k v)) m) k = map_option (f k) (map_of m k)"
  by (induction m) auto

lemma updateStatus_apply_endpoints:
  "sm_Load k (dp_endpoints (updateStatus_apply ops (r, a, i) p)) =
     map_option (op_SetPriority ops (if r = MaxInt64 \<or> k = i then Primary else Sub)) (sm_Load k (dp_endpoints p))"
  by (cases "r = MaxInt64"; cases "k = i") (simp_all add: updateStatus_apply_def Let_def sm_Load_def map_of_map_key)

lemma updateStatus_apply_fields [simp]:
  "dp_endpointToEndpointID (updateStatus_apply ops sel p) = dp_endpointToEndpointID p"
  "dp_endpointIDCounter (updateStatus_apply ops sel p) = dp_endpointIDCounter p"
  "dp_closed (updateStatus_apply ops sel p) = dp_closed p"
  "map fst (dp_endpoints (updateStatus_apply ops sel p)) = map fst (dp_endpoints p)"
  by (cases sel; simp add: updateStatus_apply_def Let_def o_def case_prod_unfold)+

section \<open>Interleaving\<close>

text \<open>
  \<open>SetEndpoints\<close>, \<open>Close\<close> and \<open>updateStatus\<close> run on different goroutines without a lock.
  \<open>prs_adding\<close> and \<open>prs_pruning\<close> are the calls of \<open>SetEndpoints\<close> that have passed the first
  and the second look at \<open>closed\<close>, \<open>prs_selected\<close> the calls of \<open>updateStatus\<close> between their
  two halves, \<open>prs_closing\<close> the call of \<open>Close\<close> that has closed the channel;
  \<open>prs_onClose\<close> counts the calls of \<open>onClose\<close>. An endpoint moves by itself between the steps of its peer. The
  numbers of a run of a peer are taken to stay below \<open>2 ^ 32\<close>.
\<close>

record 'e peer_sys =
  prs_peer :: "'e disco_peer"
  prs_adding :: "addr_port list list"
  prs_pruning :: "addr_port list list"
  prs_selected :: "selection list"
  prs_closing :: bool
  prs_onClose :: nat

inductive peer_step :: "nacl_box \<Rightarrow> 'e ep_ops \<Rightarrow> ('e \<Rightarrow> bool) \<Rightarrow> 'e peer_sys \<Rightarrow> 'e peer_sys \<Rightarrow> bool"
  for B ops opened where
  set_closed: "dp_closed (prs_peer s) \<Longrightarrow> closeAllEndpoints ops (prs_peer s) = Returns p \<Longrightarrow>
    peer_step B ops opened s (s\<lparr>prs_peer := p\<rparr>)"
| set_open: "\<not> dp_closed (prs_peer s) \<Longrightarrow>
    peer_step B ops opened s (s\<lparr>prs_adding := eps # prs_adding s\<rparr>)"
| set_add: "prs_adding s = xs @ eps # ys \<Longrightarrow>
    unat (dp_endpointIDCounter (prs_peer s)) + length eps + 1 < 2 ^ 32 \<Longrightarrow>
    peer_step B ops opened s (s\<lparr>prs_peer := SetEndpoints_add ops eps (prs_peer s),
      prs_adding := xs @ ys, prs_pruning := eps # prs_pruning s\<rparr>)"
| set_prune: "prs_pruning s = xs @ eps # ys \<Longrightarrow>
    SetEndpoints_prune ops eps (prs_peer s) = Returns p \<Longrightarrow>
    peer_step B ops opened s (s\<lparr>prs_peer := p, prs_pruning := xs @ ys\<rparr>)"
| store: "peer_step B ops opened s (s\<lparr>prs_peer := store_status i st (prs_peer s)\<rparr>)"
| select: "peer_step B ops opened s
    (s\<lparr>prs_selected := updateStatus_select ops (prs_peer s) # prs_selected s\<rparr>)"
| apply_selected: "prs_selected s = xs @ sel # ys \<Longrightarrow>
    peer_step B ops opened s (s\<lparr>prs_peer := updateStatus_apply ops sel (prs_peer s),
      prs_selected := xs @ ys\<rparr>)"
| close_flag: "\<not> dp_closed (prs_peer s) \<Longrightarrow>
    peer_step B ops opened s (s\<lparr>prs_peer := (prs_peer s)\<lparr>dp_closed := True\<rparr>, prs_closing := True\<rparr>)"
| close_rest: "prs_closing s \<Longrightarrow> peer_Close_rest ops (prs_peer s) = Returns p \<Longrightarrow>
    peer_step B ops opened s
      (s\<lparr>prs_peer := p, prs_closing := False, prs_onClose := prs_onClose s + 1\<rparr>)"
| packet: "run_packet B rnd ops now pkt (prs_peer s) = Some (p, out) \<Longrightarrow>
    peer_step B ops opened s (s\<lparr>prs_peer := p\<rparr>)"
| endpoint_moves: "sm_Load k (dp_endpoints (prs_peer s)) = Some e \<Longrightarrow>
    op_Endpoint ops e' = op_Endpoint ops e \<Longrightarrow> opened e' = opened e \<Longrightarrow>
    peer_step B ops opened s (s\<lparr>prs_peer := (prs_peer s)\<lparr>dp_endpoints :=
      sm_Store k e' (dp_endpoints (prs_peer s))\<rparr>\<rparr>)"

definition new_peer_sys :: "'e disco_peer \<Rightarrow> 'e peer_sys" where
  "new_peer_sys p = \<lparr>prs_peer = p, prs_adding = [], prs_pruning = [], prs_selected = [],
     prs_closing = False, prs_onClose = 0\<rparr>"

inductive peer_reachable :: "nacl_box \<Rightarrow> 'e ep_ops \<Rightarrow> ('e \<Rightarrow> bool) \<Rightarrow> 'e peer_sys \<Rightarrow> bool"
  for B ops opened where
  init: "peer_reachable B ops opened (new_peer_sys (NewDiscoPeer B privateKey pubKey))"
| step: "peer_reachable B ops opened s \<Longrightarrow> peer_step B ops opened s s' \<Longrightarrow> peer_reachable B ops opened s'"

text \<open>
  Once closed, a peer has no endpoint unless some call that may still add one, or that
  will clean up, is under way.
\<close>

definition peer_sys_inv :: "'e ep_ops \<Rightarrow> ('e \<Rightarrow> bool) \<Rightarrow> 'e peer_sys \<Rightarrow> bool" where
  "peer_sys_inv ops opened s \<longleftrightarrow> peer_inv ops opened (prs_peer s) \<and>
     (prs_closing s \<longrightarrow> dp_closed (prs_peer s)) \<and>
     prs_onClose s = (if dp_closed (prs_peer s) \<and> \<not> prs_closing s then 1 else 0) \<and>
     (dp_closed (prs_peer s) \<and> \<not> prs_closing s \<and> prs_pruning s = [] \<longrightarrow> dp_endpoints (prs_peer s) = [])"

lemma peer_inv_fields [simp]:
  "peer_inv ops opened (p\<lparr>dp_status := st\<rparr>) = peer_inv ops opened p"
  "peer_inv ops opened (p\<lparr>dp_endpointStatusMap := m\<rparr>) = peer_inv ops opened p"
  "peer_inv ops opened (p\<lparr>dp_closed := c\<rparr>) = peer_inv ops opened p"
  by (simp_all add: peer_inv_def)

lemma peer_inv_replace:
  assumes inv: "peer_inv ops opened p" and "sm_Load k (dp_endpoints p) = Some e"
    "op_Endpoint ops e' = op_Endpoint ops e" "opened e' = opened e"
  shows "peer_inv ops opened (p\<lparr>dp_endpoints := sm_Store k e' (dp_endpoints p)\<rparr>)"
proof (rule peer_invI)
  fix j f
  assume "sm_Load j (dp_endpoints (p\<lparr>dp_endpoints := sm_Store k e' (dp_endpoints p)\<rparr>)) = Some f"
  then show "sm_Load (op_Endpoint ops f) (dp_endpointToEndpointID
        (p\<lparr>dp_endpoints := sm_Store k e' (dp_endpoints p)\<rparr>)) = Some j \<and> opened f \<and>
      unat j \<le> unat (dp_endpointIDCounter (p\<lparr>dp_endpoints := sm_Store k e' (dp_endpoints p)\<rparr>))"
    using peer_invD(3) [OF inv, of j f] peer_invD(3) [OF inv assms(2)] assms(3,4)
    by (cases "j = k") (auto simp: syncmap.load_store)
next
  fix a i
  assume "sm_Load a (dp_endpointToEndpointID (p\<lparr>dp_endpoints := sm_Store k e' (dp_endpoints p)\<rparr>)) = Some i"
  then obtain f where "sm_Load i (dp_endpoints p) = Some f" "op_Endpoint ops f = a"
    using peer_invD(4) [OF inv, of a i] by auto
  then show "\<exists>f. sm_Load i (dp_endpoints (p\<lparr>dp_endpoints := sm_Store k e' (dp_endpoints p)\<rparr>)) = Some f \<and>
      op_Endpoint ops f = a"
    using assms(2,3) by (auto simp: syncmap.load_store)
qed (simp_all add: peer_invD(1,2) [OF inv] syncmap.invar_store)

context disco_endpoint
begin

lemma peer_inv_apply:
  assumes inv: "peer_inv ops ep_open p"
  shows "peer_inv ops ep_open (updateStatus_apply ops sel p)"
proof -
  obtain r a i where sel: "sel = (r, a, i)"
    by (cases sel)
  show ?thesis
  proof (rule peer_invI)
    show "sm_ok (dp_endpoints (updateStatus_apply ops sel p))"
      using peer_invD(2) [OF inv] by (simp add: sm_ok_def)
    fix k e
    assume "sm_Load k (dp_endpoints (updateStatus_apply ops sel p)) = Some e"
    then show "sm_Load (op_Endpoint ops e) (dp_endpointToEndpointID (updateStatus_apply ops sel p)) = Some k \<and>
        ep_open e \<and> unat k \<le> unat (dp_endpointIDCounter (updateStatus_apply ops sel p))"
      using peer_invD(3) [OF inv, of k] by (auto simp: sel updateStatus_apply_endpoints set_priority)
  next
    fix b j
    assume "sm_Load b (dp_endpointToEndpointID (updateStatus_apply ops sel p)) = Some j"
    then show "\<exists>e. sm_Load j (dp_endpoints (updateStatus_apply ops sel p)) = Some e \<and> op_Endpoint ops e = b"
      using peer_invD(4) [OF inv, of b j] by (auto simp: sel updateStatus_apply_endpoints set_priority)
  qed (simp add: peer_invD(1) [OF inv])
qed

lemma run_packet_effect:
  assumes "run_packet B rnd ops now pkt p = Some (p', out)"
  shows "p' = p \<or> (\<exists>k e e'. sm_Load k (dp_endpoints p) = Some e \<and> op_Endpoint ops e' = op_Endpoint ops e \<and>
    ep_open e' = ep_open e \<and> p' = p\<lparr>dp_endpoints := sm_Store k e' (dp_endpoints p)\<rparr>)"
proof -
  note defs = run_packet_def handlePing_def Let_def
  obtain d ok where dec: "packet_Decrypt B \<lparr>pkt_Header = 0, pkt_SrcPublicDiscoKey = replicate 32 0,
      pkt_EndpointID = 0, pkt_ID = 0, pkt_Endpoint = zero_addr_port, pkt_SharedKey = dp_sharedKey p\<rparr> pkt = (d, ok)"
    by fastforce
  consider "\<not> ok" | "ok" "pkt_Header d = PingMessage" | "ok" "pkt_Header d \<noteq> PingMessage"
    by blast
  then show ?thesis
  proof cases
    case 1
    with assms dec show ?thesis by (simp add: defs)
  next
    case 2
    with assms dec show ?thesis
      by (auto simp: defs split: option.splits) (metis receive_ping)+
  next
    case 3
    with assms dec show ?thesis
      by (auto simp: defs split: option.splits dest!: enqueue)
  qed
qed

lemma peer_sys_inv_step: "peer_step B ops ep_open s s' \<Longrightarrow> peer_sys_inv ops ep_open s \<Longrightarrow> peer_sys_inv ops ep_open s'"
proof (induction rule: peer_step.induct)
  case (set_closed s p)
  then show ?case
    using closeAllEndpoints_correct [of "prs_peer s"] by (auto simp: peer_sys_inv_def)
next
  case (set_add s xs eps ys)
  then show ?case
    using SetEndpoints_add_correct [of "prs_peer s" eps] by (auto simp: peer_sys_inv_def added_def)
next
  case (set_prune s xs eps ys p)
  then have inv: "peer_inv ops ep_open (prs_peer s)"
    by (simp add: peer_sys_inv_def)
  with set_prune show ?case
    using SetEndpoints_prune_correct [OF inv, of eps] closeAllEndpoints_correct [OF inv]
    by (cases "dp_closed (prs_peer s)") (auto simp: peer_sys_inv_def SetEndpoints_prune_def)
next
  case (close_rest s p)
  then show ?case
    using peer_Close_rest_correct [of "prs_peer s"] by (auto simp: peer_sys_inv_def)
next
  case (apply_selected s xs sel ys)
  moreover have "dp_endpoints (updateStatus_apply ops sel (prs_peer s)) = []"
    if "dp_endpoints (prs_peer s) = []"
    by (metis updateStatus_apply_fields(4) that map_is_Nil_conv)
  ultimately show ?case
    by (auto simp: peer_sys_inv_def peer_inv_apply)
next
  case (packet rnd now pkt s p out)
  then show ?case
    using run_packet_effect [OF packet.hyps] by (auto simp: peer_sys_inv_def intro: peer_inv_replace)
next
  case (endpoint_moves k s e e')
  then show ?case
    by (auto simp: peer_sys_inv_def intro: peer_inv_replace)
qed (auto simp: peer_sys_inv_def store_status_def)

lemma peer_reachable_inv: "peer_reachable B ops ep_open s \<Longrightarrow> peer_sys_inv ops ep_open s"
proof (induction rule: peer_reachable.induct)
  case (init privateKey pubKey)
  show ?case
    by (simp add: peer_sys_inv_def new_peer_sys_def peer_inv_new) (simp add: NewDiscoPeer_def)
qed (rule peer_sys_inv_step)

end

section \<open>The peer on its real endpoints\<close>

text \<open>\<open>NewDiscoPeerEndpoint\<close> and the methods of \<open>discoPeerEndpoint\<close> behind the interface.\<close>

definition endpoint_ops :: "key \<Rightarrow> key \<Rightarrow> endpoint ep_ops" where
  "endpoint_ops localPubKey sharedKey =
     \<lparr>op_new = \<lambda>i ap. NewDiscoPeerEndpoint i ap localPubKey sharedKey, op_Endpoint = de_endpoint,
      op_SetPriority = SetPriority, op_Enqueue = EnqueueReceivedPacket,
      op_ReceivePing = \<lambda>now. ReceivePing now now, op_Close = ep_Close\<rparr>"

definition endpoint_open :: "endpoint \<Rightarrow> bool" where
  "endpoint_open pe \<longleftrightarrow> \<not> de_closed pe"

interpretation endpoints: disco_endpoint "endpoint_ops pub sh" endpoint_open de_priority
  by unfold_locales
    (auto simp: endpoint_ops_def endpoint_open_def NewDiscoPeerEndpoint_def SetPriority_def Let_def
      set_ticker_def EnqueueReceivedPacket_def ReceivePing_def ReceivePing_locked_def ep_Close_def
      split: option.splits)

section \<open>Properties\<close>

text \<open>
  C13. \<open>SetEndpoints\<close> on an open peer, as long as the counter of endpoint numbers does not
  wrap: it returns without a panic; afterwards the peer has endpoints for exactly the
  given addresses, with the two maps inverse to each other; an endpoint whose address is
  given again is left as it was, under its number; every other endpoint is new, with a
  number that was not in use.
\<close>

theorem SetEndpoints_exactly_given:
  assumes "peer_inv (endpoint_ops pub sh) endpoint_open p" "\<not> dp_closed p"
    and "unat (dp_endpointIDCounter p) + length eps + 1 < 2 ^ 32"
  shows "\<exists>p'. SetEndpoints (endpoint_ops pub sh) eps p = Returns p' \<and>
    peer_inv (endpoint_ops pub sh) endpoint_open p' \<and> dp_status p' = dp_status p \<and>
    \<not> dp_closed p' \<and> de_endpoint ` set (map snd (dp_endpoints p')) = set eps \<and>
    (\<forall>k e. sm_Load k (dp_endpoints p) = Some e \<longrightarrow> de_endpoint e \<in> set eps \<longrightarrow>
       sm_Load k (dp_endpoints p') = Some e) \<and>
    (\<forall>k e. sm_Load k (dp_endpoints p') = Some e \<longrightarrow> sm_Load k (dp_endpoints p) \<noteq> Some e \<longrightarrow>
       e = NewDiscoPeerEndpoint k (de_endpoint e) pub sh \<and> unat (dp_endpointIDCounter p) \<le> unat k)"
  using endpoints.SetEndpoints_correct [OF assms] by (simp add: endpoint_ops_def)

definition example_peer :: "endpoint disco_peer" where
  "example_peer = NewDiscoPeer example_box [] (replicate 32 1)"

definition example_addrs :: "addr_port list" where
  "example_addrs = [AddrPort (IP4 1) 7, AddrPort (IP4 2) 7, AddrPort (IP4 1) 7]"

lemma example_peer_inv: "peer_inv ops endpoint_open example_peer"
  by (simp add: example_peer_def peer_inv_new)

lemma example_peer_fields:
  "dp_closed example_peer = False" "dp_endpointIDCounter example_peer = 0"
  "dp_endpoints example_peer = []" "dp_endpointStatusMap example_peer = []"
  "dp_endpointToEndpointID example_peer = []"
  by (simp_all add: example_peer_def NewDiscoPeer_def)

theorem SetEndpoints_exactly_given_witness:
  "\<exists>p'. SetEndpoints (endpoint_ops [] []) example_addrs example_peer = Returns p' \<and>
     de_endpoint ` set (map snd (dp_endpoints p')) = {AddrPort (IP4 1) 7, AddrPort (IP4 2) 7}"
proof -
  have "unat (dp_endpointIDCounter example_peer) + length example_addrs + 1 < 2 ^ 32"
    by (simp add: example_peer_fields example_addrs_def)
  with SetEndpoints_exactly_given [OF example_peer_inv, of "example_addrs" "[]" "[]"]
  obtain p' where "SetEndpoints (endpoint_ops [] []) example_addrs example_peer = Returns p'"
    "de_endpoint ` set (map snd (dp_endpoints p')) = set example_addrs"
    by (auto simp: example_peer_fields)
  then show ?thesis by (auto simp: example_addrs_def)
qed

text \<open>
  C14. \<open>updateStatus\<close>, run without interference: if no known endpoint is connected, every
  endpoint becomes primary and the status stays; otherwise the status shows a connected
  endpoint with the smallest round-trip time, this endpoint becomes primary and every other
  one sub. (Round-trip times are below the largest duration.)
\<close>

theorem updateStatus_selects_minimum:
  assumes "\<forall>(k, v) \<in> set (dp_endpointStatusMap p). es_RTT v < MaxInt64"
  shows "(\<forall>(k, v) \<in> set (dp_endpointStatusMap p). \<not> candidate (dp_endpoints p) k v) \<and>
       dp_status (updateStatus (endpoint_ops pub sh) p) = dp_status p \<and>
       (\<forall>k. sm_Load k (dp_endpoints (updateStatus (endpoint_ops pub sh) p)) =
            map_option (SetPriority Primary) (sm_Load k (dp_endpoints p))) \<or>
     (\<exists>i v e. (i, v) \<in> set (dp_endpointStatusMap p) \<and> es_State v = Connected \<and>
        sm_Load i (dp_endpoints p) = Some e \<and>
        (\<forall>(j, w) \<in> set (dp_endpointStatusMap p). candidate (dp_endpoints p) j w \<longrightarrow> es_RTT v \<le> es_RTT w) \<and>
        cell_Get (dp_status (updateStatus (endpoint_ops pub sh) p)) =
          \<lparr>ps_ActiveEndpoint = de_endpoint e, ps_ActiveRTT = es_RTT v\<rparr> \<and>
        (\<forall>k. sm_Load k (dp_endpoints (updateStatus (endpoint_ops pub sh) p)) =
             map_option (SetPriority (if k = i then Primary else Sub)) (sm_Load k (dp_endpoints p))))"
proof (rule updateStatus_select_cases [OF assms, of "endpoint_ops pub sh"], goal_cases)
  case 1
  let ?ops = "endpoint_ops pub sh"
  have "sm_Load k (dp_endpoints (updateStatus ?ops p)) =
      map_option (SetPriority Primary) (sm_Load k (dp_endpoints p))" for k
    using 1 by (simp add: updateStatus_def updateStatus_apply_endpoints) (simp add: endpoint_ops_def)
  with 1 show ?case
    by (intro disjI1) (simp add: updateStatus_def updateStatus_apply_def)
next
  case 2
  let ?ops = "endpoint_ops pub sh"
  obtain r a i where sel: "updateStatus_select ?ops p = (r, a, i)"
    by (cases "updateStatus_select ?ops p")
  with 2 obtain v e where v: "(i, v) \<in> set (dp_endpointStatusMap p)" "candidate (dp_endpoints p) i v"
    "sm_Load i (dp_endpoints p) = Some e" "r = es_RTT v" "a = de_endpoint e"
    "\<forall>(j, w) \<in> set (dp_endpointStatusMap p). candidate (dp_endpoints p) j w \<longrightarrow> r \<le> es_RTT w"
    by (auto simp: chosen_def endpoint_ops_def)
  have r: "r \<noteq> MaxInt64"
    using 2(2) sel by simp
  then have "cell_Get (dp_status (updateStatus ?ops p)) = \<lparr>ps_ActiveEndpoint = a, ps_ActiveRTT = r\<rparr>"
    by (simp add: updateStatus_def sel updateStatus_apply_def Let_def cell_Get_def cell_setStatus_def)
  moreover have "sm_Load k (dp_endpoints (updateStatus ?ops p)) =
      map_option (SetPriority (if k = i then Primary else Sub)) (sm_Load k (dp_endpoints p))" for k
    using r by (simp add: updateStatus_def sel updateStatus_apply_endpoints) (simp add: endpoint_ops_def)
  ultimately show ?case
    using v by (intro disjI2 exI [of _ i] exI [of _ v] exI [of _ e]) (simp add: candidate_def)
qed

definition two_endpoints :: "endpoint disco_peer" where
  "two_endpoints = example_peer\<lparr>
     dp_endpointIDCounter := 3,
     dp_endpoints := [(1, NewDiscoPeerEndpoint 1 (AddrPort (IP4 1) 7) [] []),
                      (2, NewDiscoPeerEndpoint 2 (AddrPort (IP4 2) 7) [] [])],
     dp_endpointToEndpointID := [(AddrPort (IP4 1) 7, 1), (AddrPort (IP4 2) 7, 2)],
     dp_endpointStatusMap := [(1, \<lparr>es_State = Connected, es_RTT = 20\<rparr>),
                              (2, \<lparr>es_State = Connected, es_RTT = 10\<rparr>)]\<rparr>"

theorem updateStatus_selects_minimum_witness:
  "ps_ActiveEndpoint (cell_Get (dp_status (updateStatus (endpoint_ops [] []) two_endpoints))) =
     AddrPort (IP4 2) 7"
proof -
  have "\<forall>(k, v) \<in> set (dp_endpointStatusMap two_endpoints). es_RTT v < MaxInt64"
    by (simp add: two_endpoints_def MaxInt64_def)
  from updateStatus_selects_minimum [OF this, of "[]" "[]"] show ?thesis
    by (auto simp: two_endpoints_def candidate_def sm_Load_def NewDiscoPeerEndpoint_def)
qed

lemma packet_Encrypt_endpoint:
  "packet_Encrypt B rnd (d\<lparr>pkt_Endpoint := a\<rparr>) = map_option (\<lambda>e. e\<lparr>enc_Endpoint := a\<rparr>) (packet_Encrypt B rnd d)"
  by (simp add: packet_Encrypt_def Let_def split: option.split)

lemma packet_roundtrip_from:
  assumes "nacl_laws B" "length nonce = nonceLen" "is_key (pkt_SrcPublicDiscoKey d)"
    "packet_Encrypt B (Some nonce) d = Some e" "pkt_SharedKey r = pkt_SharedKey d"
  shows "packet_Decrypt B r (e\<lparr>enc_Endpoint := a\<rparr>) = (d\<lparr>pkt_Endpoint := a\<rparr>, True)"
  using assms packet_roundtrip [of B nonce "d\<lparr>pkt_Endpoint := a\<rparr>" "e\<lparr>enc_Endpoint := a\<rparr>" r]
  by (simp add: packet_Encrypt_endpoint)

lemma key_Public_is_key: "nacl_laws B \<Longrightarrow> is_key (key_Public B a)"
  by (simp add: nacl_laws_def is_key_def key_Public_def)

lemma packet_Encrypt_Some: "\<exists>e. packet_Encrypt B (Some n) d = Some e"
  by (simp add: packet_Encrypt_def shared_Encrypt_def)

lemma run_packet_ping:
  assumes "packet_Decrypt B \<lparr>pkt_Header = 0, pkt_SrcPublicDiscoKey = replicate 32 0, pkt_EndpointID = 0,
      pkt_ID = 0, pkt_Endpoint = zero_addr_port, pkt_SharedKey = dp_sharedKey p\<rparr> pkt = (d, True)"
    and "pkt_Header d = PingMessage"
  shows "\<exists>p' pong. run_packet B (Some n) ops now pkt p = Some (p', Some pong) \<and>
    packet_Encrypt B (Some n) \<lparr>pkt_Header = PongMessage, pkt_SrcPublicDiscoKey = dp_localPublicDiscoKey p,
      pkt_EndpointID = pkt_EndpointID d, pkt_ID = pkt_ID d, pkt_Endpoint = pkt_Endpoint d,
      pkt_SharedKey = dp_sharedKey p\<rparr> = Some pong"
  using packet_Encrypt_Some [of B n] assms
  by (fastforce simp: run_packet_def handlePing_def Let_def split: option.splits)

lemma Encrypt_enc_Endpoint: "packet_Encrypt B rnd d = Some e \<Longrightarrow> enc_Endpoint e = pkt_Endpoint d"
  by (auto simp: packet_Encrypt_def Let_def split: option.splits)

text \<open>
  C20. A ping is answered and connects. An endpoint of \<open>b\<close> sends a ping at \<open>t0\<close>; it reaches
  \<open>a\<close> from the address \<open>from\<close>; the peer that \<open>a\<close> keeps for \<open>b\<close> answers with a pong for
  \<open>from\<close>; the pong, from whatever address \<open>b\<close> sees it, decrypts there, bears the number of
  the endpoint that sent the ping, and its handling at \<open>t2\<close> makes this endpoint connected
  with round-trip time \<open>t2 - t0\<close> and its ticker run at the rate of a connected one.
\<close>

theorem ping_is_answered_and_connects:
  assumes laws: "nacl_laws B" and n0: "length n0 = nonceLen" and n1: "length n1 = nonceLen"
    and p: "dp_sharedKey p = key_Shared B a (key_Public B b)" "dp_localPublicDiscoKey p = key_Public B a"
    and pe: "de_sharedKey pe = key_Shared B b (key_Public B a)" "de_localPubKey pe = key_Public B b"
    and r: "pkt_SharedKey r = key_Shared B b (key_Public B a)"
  shows "\<exists>pe1 ping p' pong d. sendDiscoPing B (Some n0) t0 pe = (pe1, Some ping) \<and>
    enc_Endpoint ping = de_endpoint pe \<and>
    run_packet B (Some n1) (endpoint_ops pub sh) t1 (ping\<lparr>enc_Endpoint := from\<rparr>) p = Some (p', Some pong) \<and>
    enc_Endpoint pong = from \<and>
    packet_Decrypt B r (pong\<lparr>enc_Endpoint := from'\<rparr>) = (d, True) \<and>
    pkt_Header d = PongMessage \<and> pkt_EndpointID d = de_endpointID pe \<and>
    ep_state (handlePong d t2 pe1) = Connected \<and>
    es_RTT (cell_Get (de_status (handlePong d t2 pe1))) = t2 - t0 \<and> coherent (handlePong d t2 pe1)"
proof -
  let ?ping = "\<lparr>pkt_Header = PingMessage, pkt_SrcPublicDiscoKey = de_localPubKey pe,
    pkt_EndpointID = de_endpointID pe, pkt_ID = de_packetID pe, pkt_Endpoint = de_endpoint pe,
    pkt_SharedKey = de_sharedKey pe\<rparr>"
  let ?pong = "\<lparr>pkt_Header = PongMessage, pkt_SrcPublicDiscoKey = dp_localPublicDiscoKey p,
    pkt_EndpointID = de_endpointID pe, pkt_ID = de_packetID pe, pkt_Endpoint = from,
    pkt_SharedKey = dp_sharedKey p\<rparr>"
  let ?pe1 = "pe\<lparr>de_packetID := de_packetID pe + 1,
    de_packetManager := AddPacket (de_packetID pe) t0 (de_packetManager pe)\<rparr>"
  have shared: "key_Shared B a (key_Public B b) = key_Shared B b (key_Public B a)"
    by (rule key_Shared_sym [OF laws])
  obtain ping where ping: "packet_Encrypt B (Some n0) ?ping = Some ping"
    using packet_Encrypt_Some by blast
  have send: "sendDiscoPing B (Some n0) t0 pe = (?pe1, Some ping)"
    using ping by (simp add: sendDiscoPing_def Let_def)
  have "packet_Decrypt B \<lparr>pkt_Header = 0, pkt_SrcPublicDiscoKey = replicate 32 0, pkt_EndpointID = 0,
      pkt_ID = 0, pkt_Endpoint = zero_addr_port, pkt_SharedKey = dp_sharedKey p\<rparr>
      (ping\<lparr>enc_Endpoint := from\<rparr>) = (?ping\<lparr>pkt_Endpoint := from\<rparr>, True)"
    by (rule packet_roundtrip_from [OF laws n0 _ ping]) (simp_all add: pe p shared key_Public_is_key laws)
  from run_packet_ping [OF this, of n1 "endpoint_ops pub sh" t1]
  obtain p' pong where run: "run_packet B (Some n1) (endpoint_ops pub sh) t1 (ping\<lparr>enc_Endpoint := from\<rparr>) p
      = Some (p', Some pong)" "packet_Encrypt B (Some n1) ?pong = Some pong"
    by auto
  let ?d = "?pong\<lparr>pkt_Endpoint := from'\<rparr>"
  have dec: "packet_Decrypt B r (pong\<lparr>enc_Endpoint := from'\<rparr>) = (?d, True)"
    by (rule packet_roundtrip_from [OF laws n1 _ run(2)]) (simp_all add: p r shared key_Public_is_key laws)
  have "pm_m (de_packetManager ?pe1) (pkt_ID ?d) = Some t0"
    by simp
  note con = handlePong_cases(2) [OF this, of t2]
  show ?thesis
    using send run(1) dec con Encrypt_enc_Endpoint [OF run(2)] Encrypt_enc_Endpoint [OF ping]
    by (intro exI [of _ ?pe1] exI [of _ ping] exI [of _ p'] exI [of _ pong] exI [of _ ?d])
      (simp add: cell_Get_def)
qed

theorem ping_is_answered_and_connects_witness:
  "\<exists>pe1 d. ep_state (handlePong d 50 pe1) = Connected \<and>
     es_RTT (cell_Get (de_status (handlePong d 50 pe1))) = 20"
proof -
  let ?p = "example_peer" and ?k = "replicate 32 (1 :: byte)" and ?s = "replicate 32 (2 :: byte)"
  let ?pe = "NewDiscoPeerEndpoint 4 (AddrPort (IP4 1) 7) ?k ?s"
  have "length (replicate 24 (0 :: byte)) = nonceLen"
    by (simp add: nonceLen_def)
  from ping_is_answered_and_connects [OF example_box_laws this this, where p = ?p and a = "[]" and b = "[]" and pe = ?pe
      and r = "example_packet\<lparr>pkt_SharedKey := ?s\<rparr>" and ?t0.0 = 30 and ?t2.0 = 50]
  show ?thesis
    by (fastforce simp: example_peer_def NewDiscoPeer_def key_Shared_def key_Public_def example_box_def
        NewDiscoPeerEndpoint_def)
qed


text \<open>A run in which two calls of \<open>updateStatus\<close> overlap, on a peer with two connected endpoints.\<close>

definition two_addrs :: "addr_port list" where
  "two_addrs = [AddrPort (IP4 1) 7, AddrPort (IP4 2) 7]"

definition stale_sys0 :: "endpoint peer_sys" where
  "stale_sys0 = (new_peer_sys example_peer)\<lparr>prs_peer := two_endpoints\<lparr>dp_endpointStatusMap := []\<rparr>\<rparr>"

lemma two_endpoints_added:
  "SetEndpoints_add (endpoint_ops [] []) two_addrs example_peer = two_endpoints\<lparr>dp_endpointStatusMap := []\<rparr>"
  by (rule disco_peer.equality)
    (simp_all add: SetEndpoints_add_def two_addrs_def two_endpoints_def Let_def example_peer_fields
      sm_LoadOrStore_def sm_Store_def endpoint_ops_def)

lemma two_endpoints_kept:
  "SetEndpoints_prune (endpoint_ops [] []) two_addrs (two_endpoints\<lparr>dp_endpointStatusMap := []\<rparr>)
     = Returns (two_endpoints\<lparr>dp_endpointStatusMap := []\<rparr>)"
  by (simp add: SetEndpoints_prune_def two_endpoints_def two_addrs_def example_peer_fields Let_def
      endpoint_ops_def NewDiscoPeerEndpoint_def)

lemma stale_sys0_reachable: "peer_reachable example_box (endpoint_ops [] []) endpoint_open stale_sys0"
proof -
  let ?R = "peer_reachable example_box (endpoint_ops [] []) endpoint_open"
  let ?p = "two_endpoints\<lparr>dp_endpointStatusMap := []\<rparr>"
  have "?R (new_peer_sys example_peer)"
    unfolding example_peer_def by (rule peer_reachable.init)
  from peer_reachable.step [OF this set_open [where eps = two_addrs]]
  have "?R ((new_peer_sys example_peer)\<lparr>prs_adding := [two_addrs]\<rparr>)"
    by (simp add: new_peer_sys_def example_peer_fields)
  from peer_reachable.step [OF this set_add [where xs = "[]" and ys = "[]" and eps = two_addrs]]
  have "?R ((new_peer_sys example_peer)\<lparr>prs_peer := ?p, prs_pruning := [two_addrs]\<rparr>)"
    by (simp add: new_peer_sys_def example_peer_fields two_endpoints_added) (simp add: two_addrs_def)
  from peer_reachable.step [OF this set_prune [where xs = "[]" and ys = "[]" and eps = two_addrs and p = ?p]]
  show ?thesis
    by (simp add: new_peer_sys_def stale_sys0_def two_endpoints_kept)
qed

definition stale_stored :: "endpoint disco_peer" where
  "stale_stored = store_status 2 \<lparr>es_State = Connected, es_RTT = 20\<rparr>
     (store_status 1 \<lparr>es_State = Connected, es_RTT = 30\<rparr> (two_endpoints\<lparr>dp_endpointStatusMap := []\<rparr>))"

definition stale_dropped :: "endpoint disco_peer" where
  "stale_dropped = store_status 2 \<lparr>es_State = Connecting, es_RTT = 0\<rparr> stale_stored"

definition stale_final :: "endpoint disco_peer" where
  "stale_final = updateStatus_apply (endpoint_ops [] []) (20, AddrPort (IP4 2) 7, 2)
     (updateStatus_apply (endpoint_ops [] []) (30, AddrPort (IP4 1) 7, 1) stale_dropped)"

lemma stale_selections:
  "updateStatus_select (endpoint_ops [] []) stale_stored = (20, AddrPort (IP4 2) 7, 2)"
  "updateStatus_select (endpoint_ops [] []) stale_dropped = (30, AddrPort (IP4 1) 7, 1)"
  by (simp_all add: updateStatus_select_def stale_stored_def stale_dropped_def store_status_def two_endpoints_def
      sm_Store_def select_step_def MaxInt64_def sm_Load_def endpoint_ops_def NewDiscoPeerEndpoint_def)

lemma stale_reachable:
  "peer_reachable example_box (endpoint_ops [] []) endpoint_open (stale_sys0\<lparr>prs_peer := stale_final\<rparr>)"
proof -
  let ?R = "peer_reachable example_box (endpoint_ops [] []) endpoint_open"
  let ?s = "\<lambda>p sel. \<lparr>prs_peer = p, prs_adding = [], prs_pruning = [], prs_selected = sel,
    prs_closing = False, prs_onClose = 0\<rparr>"
  have "?s (two_endpoints\<lparr>dp_endpointStatusMap := []\<rparr>) [] = stale_sys0"
    by (simp add: stale_sys0_def new_peer_sys_def)
  with stale_sys0_reachable have "?R (?s (two_endpoints\<lparr>dp_endpointStatusMap := []\<rparr>) [])"
    by simp
  from peer_reachable.step [OF peer_reachable.step [OF this
      store [where i = 1 and st = "\<lparr>es_State = Connected, es_RTT = 30\<rparr>"]]
      store [where i = 2 and st = "\<lparr>es_State = Connected, es_RTT = 20\<rparr>"]]
  have "?R (?s stale_stored [])"
    by (simp add: stale_stored_def)
  from peer_reachable.step [OF this select]
  have "?R (?s stale_stored [(20, AddrPort (IP4 2) 7, 2)])"
    by (simp add: stale_selections)
  from peer_reachable.step [OF this store [where i = 2 and st = "\<lparr>es_State = Connecting, es_RTT = 0\<rparr>"]]
  have "?R (?s stale_dropped [(20, AddrPort (IP4 2) 7, 2)])"
    by (simp add: stale_dropped_def)
  from peer_reachable.step [OF this select]
  have "?R (?s stale_dropped [(30, AddrPort (IP4 1) 7, 1), (20, AddrPort (IP4 2) 7, 2)])"
    by (simp add: stale_selections)
  from peer_reachable.step [OF this apply_selected [where xs = "[]" and ys = "[(20, AddrPort (IP4 2) 7, 2)]"
      and sel = "(30, AddrPort (IP4 1) 7, 1)"]]
  have "?R (?s (updateStatus_apply (endpoint_ops [] []) (30, AddrPort (IP4 1) 7, 1) stale_dropped)
      [(20, AddrPort (IP4 2) 7, 2)])"
    by simp
  from peer_reachable.step [OF this apply_selected [where xs = "[]" and ys = "[]"
      and sel = "(20, AddrPort (IP4 2) 7, 2)"]]
  have "?R (?s stale_final [])"
    by (simp add: stale_final_def)
  moreover have "?s stale_final [] = stale_sys0\<lparr>prs_peer := stale_final\<rparr>"
    by (simp add: stale_sys0_def new_peer_sys_def)
  ultimately show ?thesis by simp
qed


text \<open>
  Because \<open>updateStatus\<close> reads and writes without a lock, two overlapping calls can
  leave a stale choice: there is a run after which every callback has returned, endpoint 1 is
  known to be connected and endpoint 2 to be connecting, and yet the status of the peer
  shows endpoint 2 as the active one; a further call of \<open>updateStatus\<close> would correct it.
\<close>

lemma updateStatus_race:
  "\<exists>s. peer_reachable example_box (endpoint_ops [] []) endpoint_open s \<and> prs_selected s = [] \<and>
     map_of (dp_endpointStatusMap (prs_peer s)) 1 = Some \<lparr>es_State = Connected, es_RTT = 30\<rparr> \<and>
     map_of (dp_endpointStatusMap (prs_peer s)) 2 = Some \<lparr>es_State = Connecting, es_RTT = 0\<rparr> \<and>
     map_option de_endpoint (sm_Load 2 (dp_endpoints (prs_peer s))) = Some (AddrPort (IP4 2) 7) \<and>
     ps_ActiveEndpoint (cell_Get (dp_status (prs_peer s))) = AddrPort (IP4 2) 7 \<and>
     ps_ActiveEndpoint (cell_Get (dp_status (updateStatus (endpoint_ops [] []) (prs_peer s)))) = AddrPort (IP4 1) 7"
proof (intro exI conjI)
  let ?s = "stale_sys0\<lparr>prs_peer := stale_final\<rparr>"
  have status: "dp_endpointStatusMap stale_final =
      [(1, \<lparr>es_State = Connected, es_RTT = 30\<rparr>), (2, \<lparr>es_State = Connecting, es_RTT = 0\<rparr>)]"
    by (simp add: stale_final_def stale_dropped_def stale_stored_def updateStatus_apply_def Let_def store_status_def sm_Store_def two_endpoints_def)
  have eps: "sm_Load 1 (dp_endpoints stale_final) =
        Some (SetPriority Sub (SetPriority Primary (NewDiscoPeerEndpoint 1 (AddrPort (IP4 1) 7) [] [])))"
      "sm_Load 2 (dp_endpoints stale_final) =
        Some (SetPriority Primary (SetPriority Sub (NewDiscoPeerEndpoint 2 (AddrPort (IP4 2) 7) [] [])))"
    by (simp_all add: stale_final_def stale_dropped_def stale_stored_def updateStatus_apply_endpoints MaxInt64_def store_status_def two_endpoints_def)
      (simp_all add: sm_Load_def endpoint_ops_def)
  have addr: "op_Endpoint (endpoint_ops [] []) (SetPriority pr (SetPriority pr'
      (NewDiscoPeerEndpoint i a [] []))) = a" for pr pr' i a
    by (simp add: endpoint_ops_def SetPriority_def Let_def set_ticker_def NewDiscoPeerEndpoint_def)
  show "peer_reachable example_box (endpoint_ops [] []) endpoint_open ?s"
    by (rule stale_reachable)
  show "prs_selected ?s = []"
    by (simp add: stale_sys0_def new_peer_sys_def)
  show "map_of (dp_endpointStatusMap (prs_peer ?s)) 1 = Some \<lparr>es_State = Connected, es_RTT = 30\<rparr>"
    "map_of (dp_endpointStatusMap (prs_peer ?s)) 2 = Some \<lparr>es_State = Connecting, es_RTT = 0\<rparr>"
    by (simp_all add: status)
  show "map_option de_endpoint (sm_Load 2 (dp_endpoints (prs_peer ?s))) = Some (AddrPort (IP4 2) 7)"
    using addr [of Primary Sub 2 "AddrPort (IP4 2) 7"] by (simp add: eps endpoint_ops_def)
  show "ps_ActiveEndpoint (cell_Get (dp_status (prs_peer ?s))) = AddrPort (IP4 2) 7"
    by (simp add: stale_final_def updateStatus_apply_def Let_def MaxInt64_def cell_Get_def cell_setStatus_def)
  have "updateStatus_select (endpoint_ops [] []) stale_final = (30, AddrPort (IP4 1) 7, 1)"
    by (simp add: updateStatus_select_def status select_step_def eps addr MaxInt64_def)
  then show "ps_ActiveEndpoint (cell_Get (dp_status (updateStatus (endpoint_ops [] []) (prs_peer ?s))))
      = AddrPort (IP4 1) 7"
    by (simp add: updateStatus_def updateStatus_apply_def Let_def MaxInt64_def cell_Get_def cell_setStatus_def)
qed

end
