(* ===== verification/Disco.thy ===== *)
theory Disco
  imports DiscoPeer
begin

text \<open>
  \<open>disco/disco.go\<close>: the set of peers, the two goroutines around the socket, and the shutdown.
  The Go interface \<open>DiscoPeer\<close> is a record of functions over the type of peers; the locale
  \<open>disco_peer_interface\<close> is its contract, proved for \<open>discoPeer\<close> with its real endpoints. A Go
  map argument is an association list, its order the order in which Go ranges over it.
\<close>

section \<open>The interface DiscoPeer\<close>

text \<open>\<open>po_Close\<close> also says whether the \<open>onClose\<close> of the peer was called.\<close>

record 'p peer_ops =
  po_new :: "key \<Rightarrow> 'p"
  po_SetEndpoints :: "addr_port list \<Rightarrow> 'p \<Rightarrow> 'p outcome"
  po_Status :: "'p \<Rightarrow> peer_status"
  po_Close :: "'p \<Rightarrow> 'p \<times> bool"

locale disco_peer_interface =
  fixes ops :: "'p peer_ops"
    and ok :: "'p \<Rightarrow> bool"
    and addrs :: "'p \<Rightarrow> addr_port set"
    and room :: "'p \<Rightarrow> nat"
  assumes new_peer: "ok (po_new ops k)" "room (po_new ops k) = 2 ^ 32 - 1"
    and set_endpoints: "ok p \<Longrightarrow> length eps < room p \<Longrightarrow>
      \<exists>p'. po_SetEndpoints ops eps p = Returns p' \<and> ok p' \<and> addrs p' = set eps \<and>
           po_Status ops p' = po_Status ops p"
    and close_calls: "ok p \<Longrightarrow> snd (po_Close ops p)"

section \<open>State and operations\<close>

record 'p disco =
  d_privateKey :: key
  d_publicKey :: key
  d_closed :: bool
  d_conn_open :: bool
  d_peers :: "(key, 'p) syncmap"

definition disco_New :: "nacl_box \<Rightarrow> key \<Rightarrow> 'p disco" where
  "disco_New B privateKey =
     \<lparr>d_privateKey = privateKey, d_publicKey = key_Public B privateKey, d_closed = False,
      d_conn_open = True, d_peers = []\<rparr>"

text \<open>
  \<open>onClose\<close> of a peer deletes its key unless the peer is still \<open>temporal\<close>, that is, unless
  it lost the race for its key in \<open>LoadOrStore\<close>.
\<close>

definition peer_onClose :: "bool \<Rightarrow> key \<Rightarrow> 'p disco \<Rightarrow> 'p disco" where
  "peer_onClose temporal pubKey d =
     (if temporal then d else d\<lparr>d_peers := sm_Delete pubKey (d_peers d)\<rparr>)"

text \<open>\<open>Close\<close> of the peer stored under a key.\<close>

definition close_stored :: "'p peer_ops \<Rightarrow> key \<Rightarrow> 'p \<Rightarrow> 'p disco \<Rightarrow> 'p disco" where
  "close_stored ops k p d =
     (case po_Close ops p of (p', called) \<Rightarrow>
        if called then peer_onClose False k d
        else d\<lparr>d_peers := sm_Store k p' (d_peers d)\<rparr>)"

text \<open>The second component is \<open>False\<close> where the code returns \<open>nil\<close>.\<close>

definition AddPeer :: "'p peer_ops \<Rightarrow> key \<Rightarrow> 'p disco \<Rightarrow> 'p disco \<times> bool" where
  "AddPeer ops pubKey d =
     (case sm_Load pubKey (d_peers d) of
        Some peer \<Rightarrow> (d, True)
      | None \<Rightarrow>
          let peer = po_new ops pubKey
          in case sm_LoadOrStore pubKey peer (d_peers d) of
               (m, actual, True) \<Rightarrow>
                 (if snd (po_Close ops peer) then peer_onClose True pubKey d else d, True)
             | (m, actual, False) \<Rightarrow>
                 let d1 = d\<lparr>d_peers := m\<rparr>
                 in if d_closed d then (close_stored ops pubKey peer d1, False) else (d1, True))"

fun SetPeers_add :: "'p peer_ops \<Rightarrow> (key \<times> addr_port list) list \<Rightarrow> 'p disco \<Rightarrow> 'p disco outcome" where
  "SetPeers_add ops [] d = Returns d"
| "SetPeers_add ops ((k, v) # rest) d =
     (case AddPeer ops k d of
        (d1, False) \<Rightarrow> Panics NilDereference
      | (d1, True) \<Rightarrow>
          (case sm_Load k (d_peers d1) of
             None \<Rightarrow> SetPeers_add ops rest d1
           | Some peer \<Rightarrow>
               bind_outcome (po_SetEndpoints ops v peer)
                 (\<lambda>peer'. SetPeers_add ops rest (d1\<lparr>d_peers := sm_Store k peer' (d_peers d1)\<rparr>))))"

fun SetPeers_close :: "'p peer_ops \<Rightarrow> (key \<times> addr_port list) list \<Rightarrow> (key, 'p) syncmap
    \<Rightarrow> 'p disco \<Rightarrow> 'p disco" where
  "SetPeers_close ops peers [] d = d"
| "SetPeers_close ops peers ((key, val) # rest) d =
     SetPeers_close ops peers rest
       (if map_of peers key = None then close_stored ops key val d else d)"

definition SetPeers :: "'p peer_ops \<Rightarrow> (key \<times> addr_port list) list \<Rightarrow> 'p disco \<Rightarrow> 'p disco outcome" where
  "SetPeers ops peers d =
     bind_outcome (SetPeers_add ops peers d)
       (\<lambda>d1. Returns (SetPeers_close ops peers (d_peers d1) d1))"

definition GetAllStatuses :: "'p peer_ops \<Rightarrow> 'p disco \<Rightarrow> (key \<times> peer_status) list" where
  "GetAllStatuses ops d =
     sm_Range (\<lambda>key val res. (AList.update key (po_Status ops val) res, True)) (d_peers d) []"

text \<open>The key is deleted before the peer is closed, so a peer that does not call \<open>onClose\<close> goes too.\<close>

definition close_visited :: "'p peer_ops \<Rightarrow> key \<Rightarrow> 'p \<Rightarrow> 'p disco \<Rightarrow> 'p disco" where
  "close_visited ops key val d =
     (let d1 = d\<lparr>d_peers := sm_Delete key (d_peers d)\<rparr>
      in if snd (po_Close ops val) then peer_onClose False key d1 else d1)"

definition closeAllPeers :: "'p peer_ops \<Rightarrow> 'p disco \<Rightarrow> 'p disco" where
  "closeAllPeers ops d = sm_Range (\<lambda>key val d. (close_visited ops key val d, True)) (d_peers d) d"

definition disco_Close :: "'p peer_ops \<Rightarrow> 'p disco \<Rightarrow> 'p disco outcome" where
  "disco_Close ops d =
     (if d_closed d then Panics CloseOfClosedChannel
      else Returns ((closeAllPeers ops (d\<lparr>d_closed := True\<rparr>))\<lparr>d_conn_open := False\<rparr>))"

section \<open>The goroutines around the socket\<close>

text \<open>What \<open>runSender\<close> writes for a packet: its bytes and the address they go to.\<close>

definition runSender :: "enc_packet \<Rightarrow> (byte list \<times> addr_port) option" where
  "runSender pkt =
     (case Marshal pkt of None \<Rightarrow> None | Some b \<Rightarrow> Some (b, enc_Endpoint pkt))"

text \<open>
  What one round of \<open>runReceiver\<close> does with a datagram of at most 2048 bytes: the packet it
  hands to the peer of its source key. \<open>ReadFrom\<close> cuts a longer datagram off.
\<close>

definition runReceiver :: "byte list \<times> addr_port \<Rightarrow> 'p disco \<Rightarrow> (key \<times> enc_packet) option" where
  "runReceiver datagram d =
     (case datagram of (b, addr) \<Rightarrow>
        if d_closed d then None
        else
          let addr = AddrPort (unmap (ap_addr addr)) (ap_port addr);
              blank = \<lparr>enc_Header = 0, enc_SrcPublicDiscoKey = replicate 32 0,
                      enc_EncryptedPayload = [], enc_Endpoint = addr\<rparr>
          in case Unmarshal blank (take 2048 b) of
               None \<Rightarrow> None
             | Some pkt \<Rightarrow>
                 (case sm_Load (enc_SrcPublicDiscoKey pkt) (d_peers d) of
                    None \<Rightarrow> None
                  | Some peer \<Rightarrow> Some (enc_SrcPublicDiscoKey pkt, pkt)))"

section \<open>Lemmas\<close>

lemma AddPeer_open:
  assumes "\<not> d_closed d"
  shows "AddPeer ops k d =
    (case sm_Load k (d_peers d) of Some p \<Rightarrow> (d, True)
     | None \<Rightarrow> (d\<lparr>d_peers := sm_Store k (po_new ops k) (d_peers d)\<rparr>, True))"
  using assms by (auto simp: AddPeer_def syncmap.load_or_store_law Let_def split: option.split)

lemma close_stored_fields:
  "d_closed (close_stored ops k p d) = d_closed d"
  by (auto simp: close_stored_def peer_onClose_def split: prod.split)

lemma map_of_sm_Range_update:
  "distinct (map fst m) \<Longrightarrow>
     map_of (sm_Range (\<lambda>k v res. (AList.update k (f v) res, True)) m acc) k =
       (case map_of m k of None \<Rightarrow> map_of acc k | Some v \<Rightarrow> Some (f v))"
proof (induction m arbitrary: acc)
  case (Cons x m)
  obtain a b where x: "x = (a, b)"
    by fastforce
  have "map_of m a = None"
    using Cons.prems x by (simp add: map_of_eq_None_iff)
  then show ?case
    using Cons x by (cases "k = a") (simp_all add: update_conv' split: option.split)
qed simp

lemma map_of_GetAllStatuses:
  "sm_ok (d_peers d) \<Longrightarrow> map_of (GetAllStatuses ops d) k = map_option (po_Status ops) (sm_Load k (d_peers d))"
  by (simp add: GetAllStatuses_def sm_ok_def map_of_sm_Range_update sm_Load_def split: option.split)

lemma close_visited_peers:
  "d_peers (close_visited ops k v d) = filter (\<lambda>x. fst x \<noteq> k) (d_peers d)"
  by (simp add: close_visited_def Let_def peer_onClose_def sm_Delete_def AList.delete_eq case_prod_unfold eq_commute)

lemma closeAllPeers_loop:
  "d_peers (fold (\<lambda>(k, v). close_visited ops k v) m d) = filter (\<lambda>x. fst x \<notin> fst ` set m) (d_peers d)"
  by (induction m arbitrary: d) (auto simp: close_visited_peers intro: filter_cong)

lemma closeAllPeers_empty: "d_peers (closeAllPeers ops d) = []"
  by (simp add: closeAllPeers_def sm_Range_True closeAllPeers_loop filter_empty_conv)

lemma close_visited_closed: "d_closed (close_visited ops k v d) = d_closed d"
  by (simp add: close_visited_def Let_def peer_onClose_def)

lemma closeAllPeers_closed: "d_closed (closeAllPeers ops d) = d_closed d"
proof -
  have "d_closed (fold (\<lambda>(k, v). close_visited ops k v) m d) = d_closed d" for m
    by (induction m arbitrary: d) (simp_all add: close_visited_closed case_prod_unfold)
  then show ?thesis
    by (simp add: closeAllPeers_def sm_Range_True)
qed

lemma sm_Store_again: "sm_Store k v (sm_Store k w m) = sm_Store k v m"
  unfolding sm_Store_def by (induction m) auto


text \<open>Every peer is fit for its new endpoints, the new peers included.\<close>

definition disco_ready :: "('p \<Rightarrow> bool) \<Rightarrow> ('p \<Rightarrow> nat) \<Rightarrow> (key \<times> addr_port list) list \<Rightarrow> 'p disco \<Rightarrow> bool" where
  "disco_ready ok room peers d \<longleftrightarrow> \<not> d_closed d \<and> sm_ok (d_peers d) \<and>
     (\<forall>(k, p) \<in> set (d_peers d). ok p) \<and>
     (\<forall>(k, eps) \<in> set peers. length eps < 2 ^ 32 - 1 \<and>
        (\<forall>(j, p) \<in> set (d_peers d). j = k \<longrightarrow> length eps < room p))"

context disco_peer_interface
begin

definition ready :: "(key \<times> addr_port list) list \<Rightarrow> 'p disco \<Rightarrow> bool" where
  "ready peers d \<longleftrightarrow> \<not> d_closed d \<and> sm_ok (d_peers d) \<and>
     (\<forall>k p. sm_Load k (d_peers d) = Some p \<longrightarrow> ok p) \<and>
     (\<forall>(k, eps) \<in> set peers. length eps < 2 ^ 32 - 1 \<and>
        (\<forall>p. sm_Load k (d_peers d) = Some p \<longrightarrow> length eps < room p))"

lemma ready_disco_ready: "ready peers d \<longleftrightarrow> disco_ready ok room peers d"
proof (cases "sm_ok (d_peers d)")
  case True
  then show ?thesis
    unfolding ready_def disco_ready_def sm_Load_set [OF True] by fast
qed (simp add: ready_def disco_ready_def)

lemma add_one:
  assumes "ready ((k, eps) # rest) d" "k \<notin> fst ` set rest"
  shows "\<exists>p' old. SetPeers_add ops ((k, eps) # rest) d
      = SetPeers_add ops rest (d\<lparr>d_peers := sm_Store k p' (d_peers d)\<rparr>) \<and>
    ok p' \<and> addrs p' = set eps \<and> po_Status ops p' = po_Status ops old \<and>
    sm_Load k (d_peers d) \<in> {None, Some old} \<and>
    ready rest (d\<lparr>d_peers := sm_Store k p' (d_peers d)\<rparr>)"
proof -
  let ?old = "case sm_Load k (d_peers d) of None \<Rightarrow> po_new ops k | Some p \<Rightarrow> p"
  have old: "ok ?old" "length eps < room ?old"
    using assms(1) by (auto simp: ready_def new_peer split: option.splits)
  from set_endpoints [OF old] obtain p' where p': "po_SetEndpoints ops eps ?old = Returns p'" "ok p'"
    "addrs p' = set eps" "po_Status ops p' = po_Status ops ?old"
    by blast
  have "SetPeers_add ops ((k, eps) # rest) d
      = SetPeers_add ops rest (d\<lparr>d_peers := sm_Store k p' (d_peers d)\<rparr>)"
    using assms(1) p'(1)
    by (cases "sm_Load k (d_peers d)")
      (simp_all add: ready_def AddPeer_open syncmap.load_store sm_Store_again)
  moreover have "ready rest (d\<lparr>d_peers := sm_Store k p' (d_peers d)\<rparr>)"
    unfolding ready_def
  proof (intro conjI allI impI)
    show "ok p" if "sm_Load j (d_peers (d\<lparr>d_peers := sm_Store k p' (d_peers d)\<rparr>)) = Some p" for j p
      using that assms(1) p'(2) by (cases "j = k") (auto simp: ready_def syncmap.load_store)
    have "j \<noteq> k" if "(j, e) \<in> set rest" for j e
      using that assms(2) by force
    with assms(1) show "\<forall>(j, e) \<in> set rest. length e < 2 ^ 32 - 1 \<and>
        (\<forall>p. sm_Load j (d_peers (d\<lparr>d_peers := sm_Store k p' (d_peers d)\<rparr>)) = Some p \<longrightarrow> length e < room p)"
      by (auto simp: ready_def syncmap.load_store)
  qed (use assms(1) in \<open>simp_all add: ready_def syncmap.invar_store\<close>)
  ultimately show ?thesis
    using p' by (intro exI [of _ p'] exI [of _ ?old]) (auto split: option.split)
qed

lemma SetPeers_add_correct:
  assumes "ready peers d" "distinct (map fst peers)"
  shows "\<exists>d'. SetPeers_add ops peers d = Returns d' \<and> ready [] d' \<and>
    (\<forall>k. sm_Load k (d_peers d') = None \<longleftrightarrow> sm_Load k (d_peers d) = None \<and> map_of peers k = None) \<and>
    (\<forall>k eps p. map_of peers k = Some eps \<longrightarrow> sm_Load k (d_peers d') = Some p \<longrightarrow> addrs p = set eps \<and>
       (\<forall>old. sm_Load k (d_peers d) = Some old \<longrightarrow> po_Status ops p = po_Status ops old)) \<and>
    (\<forall>k. map_of peers k = None \<longrightarrow> sm_Load k (d_peers d') = sm_Load k (d_peers d))"
  using assms
proof (induction peers arbitrary: d)
  case Nil
  then show ?case by simp
next
  case (Cons x rest)
  obtain k eps where x: "x = (k, eps)"
    by fastforce
  with Cons.prems have k: "k \<notin> fst ` set rest" "map_of rest k = None"
    by (auto simp: map_of_eq_None_iff)
  from add_one [of k eps rest d] Cons.prems(1) k x obtain p' old where p':
    "SetPeers_add ops (x # rest) d = SetPeers_add ops rest (d\<lparr>d_peers := sm_Store k p' (d_peers d)\<rparr>)"
    "addrs p' = set eps" "po_Status ops p' = po_Status ops old"
    "sm_Load k (d_peers d) \<in> {None, Some old}" "ready rest (d\<lparr>d_peers := sm_Store k p' (d_peers d)\<rparr>)"
    by auto
  let ?d = "d\<lparr>d_peers := sm_Store k p' (d_peers d)\<rparr>"
  have "distinct (map fst rest)"
    using Cons.prems by simp
  from Cons.IH [OF p'(5) this] obtain d' where d': "SetPeers_add ops rest ?d = Returns d'" "ready [] d'"
    "\<And>k. sm_Load k (d_peers d') = None \<longleftrightarrow> sm_Load k (d_peers ?d) = None \<and> map_of rest k = None"
    "\<And>k eps p. map_of rest k = Some eps \<Longrightarrow> sm_Load k (d_peers d') = Some p \<Longrightarrow> addrs p = set eps \<and>
       (\<forall>old. sm_Load k (d_peers ?d) = Some old \<longrightarrow> po_Status ops p = po_Status ops old)"
    "\<And>k. map_of rest k = None \<Longrightarrow> sm_Load k (d_peers d') = sm_Load k (d_peers ?d)"
    by auto
  show ?case
  proof (intro exI [of _ d'] conjI allI impI)
    fix j q f old'
    assume j: "map_of (x # rest) j = Some f" "sm_Load j (d_peers d') = Some q"
    show "addrs q = set f" "sm_Load j (d_peers d) = Some old' \<Longrightarrow> po_Status ops q = po_Status ops old'"
      using j p'(2-4) d'(4) [of j f q] d'(5) [OF k(2)] k(2) x
      by (cases "j = k"; auto simp: syncmap.load_store split: if_splits)+
  qed (use p'(1) d' k x in \<open>auto simp: syncmap.load_store split: if_splits\<close>)
qed

lemma SetPeers_close_correct:
  assumes "\<forall>(k, v) \<in> set rest. ok v"
  shows "sm_Load k (d_peers (SetPeers_close ops peers rest d)) =
      (if k \<in> fst ` set rest \<and> map_of peers k = None then None else sm_Load k (d_peers d)) \<and>
    d_closed (SetPeers_close ops peers rest d) = d_closed d \<and>
    (sm_ok (d_peers d) \<longrightarrow> sm_ok (d_peers (SetPeers_close ops peers rest d)))"
  using assms
proof (induction rest arbitrary: d)
  case (Cons x rest)
  obtain j v where x: "x = (j, v)"
    by fastforce
  have "close_stored ops j v d = d\<lparr>d_peers := sm_Delete j (d_peers d)\<rparr>"
    using close_calls [of v] Cons.prems x by (auto simp: close_stored_def peer_onClose_def split: prod.split)
  then show ?case
    using Cons x by (auto simp: syncmap.load_delete syncmap.invar_delete)
qed simp

lemma SetPeers_correct:
  assumes "ready peers d" "distinct (map fst peers)"
  shows "\<exists>d'. SetPeers ops peers d = Returns d' \<and> ready [] d' \<and>
    (\<forall>k. sm_Load k (d_peers d') = None \<longleftrightarrow> map_of peers k = None) \<and>
    (\<forall>k eps p. map_of peers k = Some eps \<longrightarrow> sm_Load k (d_peers d') = Some p \<longrightarrow> addrs p = set eps \<and>
       (\<forall>old. sm_Load k (d_peers d) = Some old \<longrightarrow> po_Status ops p = po_Status ops old))"
proof -
  obtain d1 where d1: "SetPeers_add ops peers d = Returns d1" "ready [] d1"
    "\<And>k. sm_Load k (d_peers d1) = None \<longleftrightarrow> sm_Load k (d_peers d) = None \<and> map_of peers k = None"
    "\<And>k eps p. map_of peers k = Some eps \<Longrightarrow> sm_Load k (d_peers d1) = Some p \<Longrightarrow> addrs p = set eps \<and>
       (\<forall>old. sm_Load k (d_peers d) = Some old \<longrightarrow> po_Status ops p = po_Status ops old)"
    using SetPeers_add_correct [OF assms] by blast
  let ?d = "SetPeers_close ops peers (d_peers d1) d1"
  have "\<forall>(k, v) \<in> set (d_peers d1). ok v"
    using d1(2) by (auto simp: ready_def sm_Load_set)
  note close = SetPeers_close_correct [OF this, of _ peers d1]
  have load: "sm_Load k (d_peers ?d) = (if map_of peers k = None then None else sm_Load k (d_peers d1))" for k
    using close [of k] sm_Load_dom [of k "d_peers d1"] by auto
  have "ready [] ?d"
    using d1(2) close load by (simp add: ready_def)
  moreover have "sm_Load k (d_peers ?d) = None \<longleftrightarrow> map_of peers k = None" for k
    using load [of k] d1(3) [of k] by auto
  moreover have "SetPeers ops peers d = Returns ?d"
    using d1(1) by (simp add: SetPeers_def)
  ultimately show ?thesis
    using d1(4) load by (intro exI [of _ ?d]) simp
qed

end

section \<open>The peers of the program\<close>

definition discoPeer_ops :: "nacl_box \<Rightarrow> key \<Rightarrow> endpoint disco_peer peer_ops" where
  "discoPeer_ops B privateKey =
     \<lparr>po_new = NewDiscoPeer B privateKey,
      po_SetEndpoints = (\<lambda>eps p. SetEndpoints (endpoint_ops (dp_localPublicDiscoKey p) (dp_sharedKey p)) eps p),
      po_Status = (\<lambda>p. cell_Get (dp_status p)),
      po_Close = (\<lambda>p. peer_Close (endpoint_ops (dp_localPublicDiscoKey p) (dp_sharedKey p)) p)\<rparr>"

text \<open>A peer that is open and consistent, and how many endpoint numbers it has left.\<close>

definition discoPeer_ok :: "endpoint disco_peer \<Rightarrow> bool" where
  "discoPeer_ok p \<longleftrightarrow> \<not> dp_closed p \<and> peer_inv (endpoint_ops [] []) endpoint_open p"

definition discoPeer_room :: "endpoint disco_peer \<Rightarrow> nat" where
  "discoPeer_room p = 2 ^ 32 - 1 - unat (dp_endpointIDCounter p)"

definition discoPeer_addrs :: "endpoint disco_peer \<Rightarrow> addr_port set" where
  "discoPeer_addrs p = de_endpoint ` set (map snd (dp_endpoints p))"

lemma peer_inv_endpoint_ops: "peer_inv (endpoint_ops a b) opened = peer_inv (endpoint_ops c d) opened"
  by (simp add: fun_eq_iff peer_inv_def endpoint_ops_def)

lemma discoPeer_set_endpoints:
  assumes "discoPeer_ok p" "length eps < discoPeer_room p"
  shows "\<exists>p'. SetEndpoints (endpoint_ops a b) eps p = Returns p' \<and> discoPeer_ok p' \<and>
    discoPeer_addrs p' = set eps \<and> dp_status p' = dp_status p"
proof -
  have inv: "peer_inv (endpoint_ops a b) endpoint_open p" "\<not> dp_closed p"
    using assms(1) peer_inv_endpoint_ops [of a b endpoint_open "[]" "[]"] by (simp_all add: discoPeer_ok_def)
  have "unat (dp_endpointIDCounter p) + length eps + 1 < 2 ^ 32"
    using assms(2) by (simp add: discoPeer_room_def)
  from endpoints.SetEndpoints_correct [OF inv this] show ?thesis
    using peer_inv_endpoint_ops [of a b endpoint_open "[]" "[]"]
    by (force simp: discoPeer_ok_def discoPeer_addrs_def endpoint_ops_def)
qed

lemma discoPeer_close:
  assumes "discoPeer_ok p"
  shows "snd (peer_Close (endpoint_ops a b) p)"
proof -
  have "peer_inv (endpoint_ops a b) endpoint_open (p\<lparr>dp_closed := True\<rparr>)"
    using assms peer_inv_endpoint_ops [of a b endpoint_open "[]" "[]"] by (simp add: discoPeer_ok_def)
  from endpoints.peer_Close_rest_correct [OF this] show ?thesis
    using assms by (auto simp: peer_Close_def Let_def discoPeer_ok_def)
qed

lemma discoPeer_new: "discoPeer_ok (NewDiscoPeer B a k)" "discoPeer_room (NewDiscoPeer B a k) = 2 ^ 32 - 1"
  by (simp_all add: discoPeer_ok_def peer_inv_new discoPeer_room_def) (simp_all add: NewDiscoPeer_def)

interpretation peers: disco_peer_interface "discoPeer_ops B privateKey" discoPeer_ok discoPeer_addrs discoPeer_room
proof unfold_locales
  show "\<exists>p'. po_SetEndpoints (discoPeer_ops B privateKey) eps p = Returns p' \<and> discoPeer_ok p' \<and>
      discoPeer_addrs p' = set eps \<and>
      po_Status (discoPeer_ops B privateKey) p' = po_Status (discoPeer_ops B privateKey) p"
    if "discoPeer_ok p" "length eps < discoPeer_room p" for p eps
    using discoPeer_set_endpoints [OF that] by (force simp: discoPeer_ops_def)
qed (simp_all add: discoPeer_ops_def discoPeer_new discoPeer_close)

text \<open>
  \<open>SetPeers\<close> on an open disco, as long as no peer runs out of endpoint numbers: it
  returns without a panic, whatever the order in which Go ranges over the map; afterwards the
  peers are exactly the given keys, each with exactly its given addresses; and a peer that
  was there before keeps its status.
\<close>

lemma discoPeer_SetPeers:
  assumes "disco_ready discoPeer_ok discoPeer_room peers d" "distinct (map fst peers)"
  shows "\<exists>d'. SetPeers (discoPeer_ops B privateKey) peers d = Returns d' \<and>
    disco_ready discoPeer_ok discoPeer_room [] d' \<and>
    fst ` set (d_peers d') = fst ` set peers \<and>
    (\<forall>k eps p. (k, eps) \<in> set peers \<longrightarrow> (k, p) \<in> set (d_peers d') \<longrightarrow> discoPeer_addrs p = set eps) \<and>
    (\<forall>k st. map_of (GetAllStatuses (discoPeer_ops B privateKey) d) k = Some st \<longrightarrow> k \<in> fst ` set peers \<longrightarrow>
       map_of (GetAllStatuses (discoPeer_ops B privateKey) d') k = Some st)"
proof -
  let ?ops = "discoPeer_ops B privateKey"
  have "disco_peer_interface.ready discoPeer_ok discoPeer_room peers d"
    using assms(1) by (simp add: peers.ready_disco_ready)
  from peers.SetPeers_correct [OF this assms(2)]
  obtain d' where d': "SetPeers ?ops peers d = Returns d'"
    "disco_peer_interface.ready discoPeer_ok discoPeer_room [] d'"
    "\<And>k. sm_Load k (d_peers d') = None \<longleftrightarrow> map_of peers k = None"
    "\<And>k eps p. map_of peers k = Some eps \<Longrightarrow> sm_Load k (d_peers d') = Some p \<Longrightarrow>
       discoPeer_addrs p = set eps \<and>
       (\<forall>old. sm_Load k (d_peers d) = Some old \<longrightarrow> po_Status ?ops p = po_Status ?ops old)"
    by blast
  have ok: "sm_ok (d_peers d)" "sm_ok (d_peers d')"
    using assms(1) d'(2) by (simp_all add: disco_ready_def peers.ready_def)
  have keys: "fst ` set (d_peers d') = fst ` set peers"
    using d'(3) sm_Load_dom by (metis (no_types, opaque_lifting) map_of_eq_None_iff subsetI subset_antisym)
  have status: "map_of (GetAllStatuses ?ops d') k = Some st"
    if old: "map_of (GetAllStatuses ?ops d) k = Some st" and k: "k \<in> fst ` set peers" for k st
  proof -
    from old obtain q where q: "sm_Load k (d_peers d) = Some q" "st = po_Status ?ops q"
      by (auto simp: map_of_GetAllStatuses ok)
    obtain eps where eps: "map_of peers k = Some eps"
      using k by (metis map_of_eq_None_iff option.exhaust)
    then obtain p where "sm_Load k (d_peers d') = Some p"
      using d'(3) [of k] by auto
    with d'(4) [OF eps this] q show ?thesis
      by (simp add: map_of_GetAllStatuses ok)
  qed
  show ?thesis
  proof (intro exI [of _ d'] conjI allI impI)
    show "disco_ready discoPeer_ok discoPeer_room [] d'"
      using d'(2) by (simp add: peers.ready_disco_ready)
    fix k eps p
    assume "(k, eps) \<in> set peers" "(k, p) \<in> set (d_peers d')"
    then show "discoPeer_addrs p = set eps"
      using d'(4) [of k eps p] assms(2) by (simp add: sm_Load_set [OF ok(2)])
  qed (use d'(1) keys status in auto)
qed

section \<open>Properties\<close>

definition example_peers :: "(key \<times> addr_port list) list" where
  "example_peers = [(replicate 32 1, [AddrPort (IP4 1) 7]), (replicate 32 2, [])]"

text \<open>
  C33. The shutdown: after \<open>Close\<close> there are no peers, nothing that arrives is delivered and
  the socket is closed. What is not guarded: a second \<open>Close\<close> panics, and so does a later \<open>SetPeers\<close>
  with any peer at all, because \<open>AddPeer\<close> then returns \<open>nil\<close> and its result is used.
\<close>

theorem disco_after_Close:
  assumes "disco_Close ops d = Returns d'"
  shows "d_peers d' = [] \<and> \<not> d_conn_open d' \<and> GetAllStatuses ops d' = [] \<and>
    runReceiver datagram d' = None \<and>
    disco_Close ops d' = Panics CloseOfClosedChannel \<and>
    SetPeers ops ((k, eps) # peers) d' = Panics NilDereference"
proof -
  from assms have d': "d' = (closeAllPeers ops (d\<lparr>d_closed := True\<rparr>))\<lparr>d_conn_open := False\<rparr>"
    by (simp add: disco_Close_def split: if_splits)
  then have "d_closed d'" "d_peers d' = []" "\<not> d_conn_open d'"
    by (simp_all add: closeAllPeers_empty) (simp add: closeAllPeers_closed)
  moreover from this have "snd (AddPeer ops k d') = False"
    by (simp add: AddPeer_def syncmap.load_or_store_law Let_def)
  then have "SetPeers_add ops ((k, eps) # peers) d' = Panics NilDereference"
    by (cases "AddPeer ops k d'") simp
  ultimately show ?thesis
    by (simp add: GetAllStatuses_def runReceiver_def disco_Close_def SetPeers_def split: prod.split)
qed

theorem disco_after_Close_witness:
  "\<exists>d'. disco_Close (discoPeer_ops example_box []) (disco_New example_box []) = Returns d' \<and>
     SetPeers (discoPeer_ops example_box []) example_peers d' = Panics NilDereference"
proof -
  obtain d' where d': "disco_Close (discoPeer_ops example_box []) (disco_New example_box []) = Returns d'"
    by (simp add: disco_Close_def disco_New_def)
  from disco_after_Close [OF this, of _ "replicate 32 1" "[AddrPort (IP4 1) 7]" "[(replicate 32 2, [])]"] d'
  show ?thesis
    by (auto simp: example_peers_def)
qed

text \<open>
  C21. Routing of datagrams: what \<open>runReceiver\<close> hands over goes to a known peer, the one
  whose key the datagram starts with, and bears the address the datagram came from, an
  IPv4-mapped one as IPv4; and every packet that \<open>runSender\<close> writes, if it fits the buffer
  and its sender is a known peer, is handed over unchanged but for this address.
\<close>

theorem datagram_routing:
  "(runReceiver (b, from) d = Some (k, pkt) \<longrightarrow>
      \<not> d_closed d \<and> k \<in> fst ` set (d_peers d) \<and> k = take 32 (drop 1 b) \<and>
      enc_SrcPublicDiscoKey pkt = k \<and> enc_Endpoint pkt = AddrPort (unmap (ap_addr from)) (ap_port from)) \<and>
   (runSender e = Some (bytes, to) \<longrightarrow> is_key (enc_SrcPublicDiscoKey e) \<longrightarrow>
      length (enc_EncryptedPayload e) \<le> 2015 \<longrightarrow> \<not> d_closed d \<longrightarrow>
      enc_SrcPublicDiscoKey e \<in> fst ` set (d_peers d) \<longrightarrow>
      to = enc_Endpoint e \<and>
      runReceiver (bytes, from) d = Some (enc_SrcPublicDiscoKey e,
        e\<lparr>enc_Endpoint := AddrPort (unmap (ap_addr from)) (ap_port from)\<rparr>))"
proof -
  let ?from = "AddrPort (unmap (ap_addr from)) (ap_port from)"
  have "\<not> d_closed d \<and> k \<in> fst ` set (d_peers d) \<and> k = take 32 (drop 1 b) \<and>
      enc_SrcPublicDiscoKey pkt = k \<and> enc_Endpoint pkt = ?from"
    if "runReceiver (b, from) d = Some (k, pkt)"
  proof -
    from that have "pkt = \<lparr>enc_Header = take 2048 b ! 0, enc_SrcPublicDiscoKey = take 32 (drop 1 b),
        enc_EncryptedPayload = drop 33 (take 2048 b), enc_Endpoint = ?from\<rparr>"
      "k = enc_SrcPublicDiscoKey pkt" "sm_Load k (d_peers d) \<noteq> None" "\<not> d_closed d"
      by (auto simp: runReceiver_def Unmarshal_def Let_def take_drop split: if_splits option.splits)
    then show ?thesis
      using sm_Load_dom [of k "d_peers d"] by simp
  qed
  moreover have "to = enc_Endpoint e \<and> runReceiver (bytes, from) d =
      Some (enc_SrcPublicDiscoKey e, e\<lparr>enc_Endpoint := ?from\<rparr>)"
    if "runSender e = Some (bytes, to)" and key: "is_key (enc_SrcPublicDiscoKey e)"
      and "length (enc_EncryptedPayload e) \<le> 2015"
      and "\<not> d_closed d" "enc_SrcPublicDiscoKey e \<in> fst ` set (d_peers d)"
  proof -
    have m: "Marshal e = Some bytes" "to = enc_Endpoint e"
      using that(1) by (auto simp: runSender_def split: option.splits)
    then have "length bytes \<le> 2048"
      using that(3) key Marshal_length [OF m(1)] by (simp add: is_key_def)
    then show ?thesis
      using that(4,5) sm_Load_dom [of "enc_SrcPublicDiscoKey e" "d_peers d"] Unmarshal_Marshal [OF m(1) key] m(2)
      by (auto simp: runReceiver_def Let_def)
  qed
  ultimately show ?thesis by blast
qed

theorem datagram_routing_witness:
  "\<exists>bytes. runSender example_enc_packet = Some (bytes, AddrPort (IP4 5) 9) \<and>
     runReceiver (bytes, AddrPort (IP6 0xFFFF01020304 []) 9)
       ((disco_New example_box [])\<lparr>d_peers := [(replicate 32 7, example_peer)]\<rparr>) =
     Some (replicate 32 7, example_enc_packet\<lparr>enc_Endpoint := AddrPort (IP4 0x01020304) 9\<rparr>)"
proof -
  obtain bytes where b: "runSender example_enc_packet = Some (bytes, AddrPort (IP4 5) 9)"
    by (simp add: runSender_def Marshal_def example_enc_packet_def)
  have "unmap (IP6 0xFFFF01020304 []) = IP4 0x01020304"
    by (simp add: is_4in6_def)
  with b datagram_routing [of "[]" "AddrPort (IP6 0xFFFF01020304 []) 9"
      "(disco_New example_box [])\<lparr>d_peers := [(replicate 32 7, example_peer)]\<rparr>" _ _ example_enc_packet bytes]
  show ?thesis
    by (simp add: example_enc_packet_def is_key_def disco_New_def)
qed

end
