(* ===== verification/NetText.thy ===== *)
theory NetText
  imports Prelude
begin

text \<open>
  The text forms of \<open>net\<close> and \<open>net/netip\<close> values, which the sources use as map keys, in
  comparisons and in what they print: dotted decimal for IPv4, the shortened hexadecimal
  groups for IPv6, \<open>address/bits\<close> for a network and \<open>address:port\<close> for an address with a
  port. \<open>Prefix\<close> and \<open>IPNet\<close> stand for \<open>netip.Prefix\<close> and for a \<open>net.IPNet\<close> whose mask is a
  \<open>CIDRMask\<close>; their prefix length is a number.
\<close>

section \<open>Numbers\<close>

definition digit_char :: "nat \<Rightarrow> char" where
  "digit_char d = (if d < 10 then char_of (48 + d) else char_of (87 + d))"

fun digits_in :: "nat \<Rightarrow> nat \<Rightarrow> string" where
  "digits_in base n =
     (if base \<le> 1 \<or> n < base then [digit_char n]
      else digits_in base (n div base) @ [digit_char (n mod base)])"

declare digits_in.simps [simp del]

definition dec_String :: "nat \<Rightarrow> string" where
  "dec_String n = digits_in 10 n"

definition hex_String :: "nat \<Rightarrow> string" where
  "hex_String n = digits_in 16 n"

section \<open>Addresses\<close>

definition ip4_bytes :: "32 word \<Rightarrow> nat list" where
  "ip4_bytes w = map (\<lambda>i. unat (ucast (drop_bit (8 * i) w) :: 8 word)) [3, 2, 1, 0]"

definition ip4_String :: "32 word \<Rightarrow> string" where
  "ip4_String w = concat (map (\<lambda>(i, b). (if i = 0 then [] else ''.'') @ dec_String b)
                     (enumerate 0 (ip4_bytes w)))"

definition ip6_groups :: "128 word \<Rightarrow> nat list" where
  "ip6_groups w = map (\<lambda>i. unat (ucast (drop_bit (16 * i) w) :: 16 word)) [7, 6, 5, 4, 3, 2, 1, 0]"

text \<open>
  The longest run of at least two zero groups, the first one of that length: where it
  starts and where it ends, or \<open>(8, 8)\<close>.
\<close>

definition zero_run :: "nat list \<Rightarrow> nat \<times> nat" where
  "zero_run gs =
     foldl (\<lambda>(s, e) i. let l = length (takeWhile (\<lambda>g. g = 0) (drop i gs))
                       in if 2 \<le> l \<and> e - s < l then (i, i + l) else (s, e))
       (8, 8) [0..<length gs]"

definition ip6_String :: "128 word \<Rightarrow> string" where
  "ip6_String w =
     (let gs = ip6_groups w; (s, e) = zero_run gs;
          join = (\<lambda>xs. concat (map (\<lambda>(i, g). (if i = 0 then [] else '':'') @ hex_String g) (enumerate 0 xs)))
      in if s = 8 then join gs else join (take s gs) @ ''::'' @ join (drop e gs))"

definition with_zone :: "string \<Rightarrow> string" where
  "with_zone z = (if z = [] then [] else ''%'' @ z)"

text \<open>\<open>netip.Addr.String\<close>: an IPv4-mapped IPv6 address is printed as such.\<close>

fun ip_String :: "ip_addr \<Rightarrow> string" where
  "ip_String InvalidIP = ''invalid IP''"
| "ip_String (IP4 w) = ip4_String w"
| "ip_String (IP6 w z) =
     (if is_4in6 w then ''::ffff:'' @ ip4_String (ucast w) else ip6_String w) @ with_zone z"

definition addr_port_String :: "addr_port \<Rightarrow> string" where
  "addr_port_String ap =
     (case ap_addr ap of
        InvalidIP \<Rightarrow> ''invalid AddrPort''
      | IP4 w \<Rightarrow> ip4_String w @ '':'' @ dec_String (unat (ap_port ap))
      | IP6 w z \<Rightarrow> ''['' @ ip_String (IP6 w z) @ '']:'' @ dec_String (unat (ap_port ap)))"

text \<open>\<open>net.UDPAddr.String\<close>: the IPv4-mapped form is printed as IPv4.\<close>

definition udp_String :: "addr_port \<Rightarrow> string" where
  "udp_String ap =
     (case ap_addr ap of
        InvalidIP \<Rightarrow> '':'' @ dec_String (unat (ap_port ap))
      | IP4 w \<Rightarrow> ip4_String w @ '':'' @ dec_String (unat (ap_port ap))
      | IP6 w z \<Rightarrow>
          (if is_4in6 w \<and> z = [] then ip4_String (ucast w)
           else ''['' @ (if is_4in6 w then ip4_String (ucast w) else ip6_String w) @ with_zone z @ '']'')
          @ '':'' @ dec_String (unat (ap_port ap)))"

section \<open>Networks\<close>

datatype ip_net = IPNet (net_IP: ip_addr) (net_ones: nat)

text \<open>\<open>IPNet.String\<close> prints the IPv4-mapped form as IPv4, with the length of the last part of its mask.\<close>

definition ipnet_ones :: "ip_net \<Rightarrow> nat" where
  "ipnet_ones n = (if unmap (net_IP n) = net_IP n then net_ones n else net_ones n - 96)"

definition ipnet_String :: "ip_net \<Rightarrow> string" where
  "ipnet_String n = ip_String (unmap (net_IP n)) @ ''/'' @ dec_String (ipnet_ones n)"

text \<open>A nil \<open>*net.IPNet\<close> prints as \<open><nil>\<close>.\<close>

definition dst_String :: "ip_net option \<Rightarrow> string" where
  "dst_String d = (case d of None \<Rightarrow> ''<nil>'' | Some n \<Rightarrow> ipnet_String n)"

datatype prefix = Prefix (pre_addr: ip_addr) (pre_bits: nat)

definition bit_len :: "ip_addr \<Rightarrow> nat" where
  "bit_len a = (case a of InvalidIP \<Rightarrow> 0 | IP4 _ \<Rightarrow> 32 | IP6 _ _ \<Rightarrow> 128)"

definition prefix_is_valid :: "prefix \<Rightarrow> bool" where
  "prefix_is_valid p \<longleftrightarrow> addr_is_valid (pre_addr p) \<and> pre_bits p \<le> bit_len (pre_addr p)"

definition prefix_String :: "prefix \<Rightarrow> string" where
  "prefix_String p =
     (if prefix_is_valid p then ip_String (pre_addr p) @ ''/'' @ dec_String (pre_bits p)
      else ''invalid Prefix'')"

section \<open>Parsing\<close>

definition digit_val :: "char \<Rightarrow> nat option" where
  "digit_val c = (let n = of_char c in if 48 \<le> n \<and> n \<le> 57 then Some (n - 48) else None)"

definition hex_val :: "char \<Rightarrow> nat option" where
  "hex_val c =
     (let n = of_char c
      in if 48 \<le> n \<and> n \<le> 57 then Some (n - 48)
         else if 97 \<le> n \<and> n \<le> 102 then Some (n - 87)
         else if 65 \<le> n \<and> n \<le> 70 then Some (n - 55) else None)"

text \<open>A non-empty string of decimal digits.\<close>

definition dec_step :: "nat option \<Rightarrow> char \<Rightarrow> nat option" where
  "dec_step acc c = (case (acc, digit_val c) of (Some n, Some d) \<Rightarrow> Some (10 * n + d) | _ \<Rightarrow> None)"

definition parse_dec :: "string \<Rightarrow> nat option" where
  "parse_dec s = (if s = [] then None else foldl dec_step (Some 0) s)"

fun split_on :: "char \<Rightarrow> string \<Rightarrow> string list" where
  "split_on d [] = [[]]"
| "split_on d (c # s) =
     (if c = d then [] # split_on d s
      else case split_on d s of [] \<Rightarrow> [[c]] | f # fs \<Rightarrow> (c # f) # fs)"

text \<open>What is before and after the last occurrence of a character.\<close>

definition last_split :: "char \<Rightarrow> string \<Rightarrow> (string \<times> string) option" where
  "last_split d s =
     (if d \<in> set s
      then Some (rev (tl (dropWhile (\<lambda>c. c \<noteq> d) (rev s))), rev (takeWhile (\<lambda>c. c \<noteq> d) (rev s)))
      else None)"

text \<open>One field of a dotted address: no leading zero, at most 255.\<close>

definition parse_octet :: "string \<Rightarrow> nat option" where
  "parse_octet s =
     (if 1 < length s \<and> hd s = CHR ''0'' then None
      else case parse_dec s of None \<Rightarrow> None | Some n \<Rightarrow> if 255 < n then None else Some n)"

definition parse_ip4 :: "string \<Rightarrow> 32 word option" where
  "parse_ip4 s =
     (case map parse_octet (split_on (CHR ''.'') s) of
        [Some a, Some b, Some c, Some d] \<Rightarrow> Some (of_nat (((a * 256 + b) * 256 + c) * 256 + d))
      | _ \<Rightarrow> None)"

text \<open>
  The loop of \<open>parseIPv6\<close> over the groups: what is left of the text, how many more groups fit,
  the groups so far and how many groups were read before the \<open>::\<close>.
\<close>

fun parse_groups :: "nat \<Rightarrow> string \<Rightarrow> nat list \<Rightarrow> nat option \<Rightarrow> (nat list \<times> nat option) option" where
  "parse_groups 0 s gs el = (if s = [] then Some (gs, el) else None)"
| "parse_groups (Suc left) s gs el =
     (if s = [] then Some (gs, el)
      else
        let h = takeWhile (\<lambda>c. hex_val c \<noteq> None) s; rest = dropWhile (\<lambda>c. hex_val c \<noteq> None) s
        in if h = [] \<or> 4 < length h then None
           else if rest \<noteq> [] \<and> hd rest = CHR ''.'' then
             (if (el = None \<and> length gs \<noteq> 6) \<or> 6 < length gs then None
              else case parse_ip4 s of
                     None \<Rightarrow> None
                   | Some w \<Rightarrow> Some (gs @ [unat (drop_bit 16 w), unat (take_bit 16 w)], el))
           else
             let gs' = gs @ [foldl (\<lambda>n c. 16 * n + the (hex_val c)) 0 h]
             in case rest of
                  [] \<Rightarrow> Some (gs', el)
                | [c] \<Rightarrow> None
                | c # d # more \<Rightarrow>
                    if c \<noteq> CHR '':'' then None
                    else if d = CHR '':'' then
                      (if el \<noteq> None then None else parse_groups left more gs' (Some (length gs')))
                    else parse_groups left (d # more) gs' el)"

definition groups_word :: "nat list \<Rightarrow> 128 word" where
  "groups_word gs = foldl (\<lambda>w g. 65536 * w + of_nat g) 0 gs"

definition parse_ip6 :: "string \<Rightarrow> ip_addr option" where
  "parse_ip6 s =
     (let body = takeWhile (\<lambda>c. c \<noteq> CHR ''%'') s; tail = dropWhile (\<lambda>c. c \<noteq> CHR ''%'') s
      in if tail \<noteq> [] \<and> tl tail = [] then None
         else
           let zone = (if tail = [] then [] else tl tail);
               (start, el) = (if take 2 body = ''::'' then (drop 2 body, Some 0) else (body, None))
           in if start = [] \<and> el = Some 0 then Some (IP6 0 zone)
              else if start = [] then None
              else case parse_groups 8 start [] el of
                     None \<Rightarrow> None
                   | Some (gs, None) \<Rightarrow> if length gs = 8 then Some (IP6 (groups_word gs) zone) else None
                   | Some (gs, Some k) \<Rightarrow>
                       if length gs < 8
                       then Some (IP6 (groups_word (take k gs @ replicate (8 - length gs) 0 @ drop k gs)) zone)
                       else None)"

text \<open>\<open>ParseAddr\<close> looks for the first of \<open>.\<close>, \<open>:\<close> and \<open>%\<close>.\<close>

definition ParseAddr :: "string \<Rightarrow> ip_addr option" where
  "ParseAddr s =
     (case dropWhile (\<lambda>c. c \<notin> set ''.:%'') s of
        [] \<Rightarrow> None
      | c # _ \<Rightarrow> if c = CHR ''.'' then map_option IP4 (parse_ip4 s)
                else if c = CHR '':'' then parse_ip6 s else None)"

definition ParseAddrPort :: "string \<Rightarrow> addr_port option" where
  "ParseAddrPort s =
     (case last_split (CHR '':'') s of
        None \<Rightarrow> None
      | Some (ip, port) \<Rightarrow>
          let bracketed = (ip \<noteq> [] \<and> hd ip = CHR ''['')
          in if ip = [] \<or> port = [] \<or> (bracketed \<and> (length ip < 2 \<or> last ip \<noteq> CHR '']'')) then None
             else case (parse_dec port, ParseAddr (if bracketed then butlast (tl ip) else ip)) of
                    (Some n, Some a) \<Rightarrow>
                      if 65535 < n \<or> bracketed \<noteq> is_6 a then None else Some (AddrPort a (of_nat n))
                  | _ \<Rightarrow> None)"

definition ParsePrefix :: "string \<Rightarrow> prefix option" where
  "ParsePrefix s =
     (case last_split (CHR ''/'') s of
        None \<Rightarrow> None
      | Some (ip, bits) \<Rightarrow>
          (case (ParseAddr ip, parse_dec bits) of
             (Some a, Some n) \<Rightarrow>
               if (case a of IP6 w z \<Rightarrow> z \<noteq> [] | _ \<Rightarrow> False) \<or> (1 < length bits \<and> hd bits = CHR ''0'') \<or> bit_len a < n
               then None else Some (Prefix a n)
           | _ \<Rightarrow> None))"

text \<open>\<open>strconv.Atoi\<close> on 64 bits.\<close>

definition Atoi :: "string \<Rightarrow> int option" where
  "Atoi s =
     (let neg = (s \<noteq> [] \<and> hd s = CHR ''-''); signed = (neg \<or> s \<noteq> [] \<and> hd s = CHR ''+'')
      in case parse_dec (if signed then tl s else s) of
           None \<Rightarrow> None
         | Some n \<Rightarrow> (let v = (if neg then - int n else int n)
                     in if - (2 ^ 63) \<le> v \<and> v < 2 ^ 63 then Some v else None))"

section \<open>What is printed is parsed\<close>

lemma digits_in_rec:
  "1 < base \<Longrightarrow> digits_in base n = (if n < base then [digit_char n]
     else digits_in base (n div base) @ [digit_char (n mod base)])"
  by (subst digits_in.simps) simp

lemma digit_val_char: "d < 10 \<Longrightarrow> digit_val (digit_char d) = Some d"
  by (simp add: digit_val_def digit_char_def Let_def)

lemma dec_step_digit: "d < 10 \<Longrightarrow> dec_step (Some n) (digit_char d) = Some (10 * n + d)"
  by (simp add: dec_step_def digit_val_char)

lemma parse_dec_String: "parse_dec (dec_String n) = Some n"
proof -
  have "digits_in 10 n \<noteq> [] \<and> foldl dec_step (Some 0) (digits_in 10 n) = Some n"
  proof (induction n rule: less_induct)
    case (less n)
    show ?case
    proof (cases "n < 10")
      case True
      then show ?thesis by (subst (1 2) digits_in_rec) (simp_all add: dec_step_digit)
    next
      case False
      with less [of "n div 10"] show ?thesis
        by (subst (1 2) digits_in_rec) (simp_all add: dec_step_digit)
    qed
  qed
  then show ?thesis
    by (simp add: parse_dec_def dec_String_def)
qed

lemma dec_String_chars: "c \<in> set (dec_String n) \<Longrightarrow> 48 \<le> (of_char c :: nat) \<and> (of_char c :: nat) \<le> 57"
proof -
  have "c \<in> set (digits_in 10 n) \<Longrightarrow> 48 \<le> (of_char c :: nat) \<and> (of_char c :: nat) \<le> 57"
  proof (induction n rule: less_induct)
    case (less n)
    show ?case
    proof (cases "n < 10")
      case True
      with less.prems show ?thesis by (subst (asm) digits_in_rec) (auto simp: digit_char_def)
    next
      case False
      with less.prems less.IH [of "n div 10"] show ?thesis
        by (subst (asm) digits_in_rec) (auto simp: digit_char_def)
    qed
  qed
  then show "c \<in> set (dec_String n) \<Longrightarrow> 48 \<le> (of_char c :: nat) \<and> (of_char c :: nat) \<le> 57"
    by (simp add: dec_String_def)
qed

lemma dec_String_no:
  "CHR ''.'' \<notin> set (dec_String n)" "CHR '':'' \<notin> set (dec_String n)" "CHR ''/'' \<notin> set (dec_String n)"
  "CHR ''%'' \<notin> set (dec_String n)" "CHR ''['' \<notin> set (dec_String n)"
  using dec_String_chars [of _ n] by fastforce+

lemma dec_String_nonempty: "dec_String n \<noteq> []"
  by (simp add: dec_String_def digits_in_rec)

lemma dec_String_no_zero: "1 < length (dec_String n) \<Longrightarrow> hd (dec_String n) \<noteq> CHR ''0''"
proof -
  have "0 < n \<Longrightarrow> hd (digits_in 10 n) \<noteq> CHR ''0''" for n
  proof (induction n rule: less_induct)
    case (less n)
    have one: "digit_char n \<noteq> CHR ''0''" if "n < 10"
      using that less.prems by (auto simp: digit_char_def dest!: arg_cong [where f = "of_char :: _ \<Rightarrow> nat"])
    have "digits_in 10 (n div 10) \<noteq> []"
      by (simp add: digits_in_rec)
    with one less.IH [of "n div 10"] show ?case
      by (subst digits_in_rec) auto
  qed
  moreover have "length (digits_in 10 0) = 1"
    by (simp add: digits_in_rec)
  ultimately show "1 < length (dec_String n) \<Longrightarrow> hd (dec_String n) \<noteq> CHR ''0''"
    by (cases "n = 0") (auto simp: dec_String_def)
qed

lemma split_on_none: "d \<notin> set s \<Longrightarrow> split_on d s = [s]"
  by (induction s) auto

lemma split_on_first: "d \<notin> set s \<Longrightarrow> split_on d (s @ d # t) = s # split_on d t"
  by (induction s) auto

lemma last_split_at: "d \<notin> set t \<Longrightarrow> last_split d (s @ d # t) = Some (s, t)"
proof -
  assume "d \<notin> set t"
  then have t: "\<And>x. x \<in> set (rev t) \<Longrightarrow> x \<noteq> d"
    by auto
  have "takeWhile (\<lambda>c. c \<noteq> d) (rev t @ d # rev s) = rev t" "dropWhile (\<lambda>c. c \<noteq> d) (rev t @ d # rev s) = d # rev s"
    using t takeWhile_append2 [where P = "\<lambda>c. c \<noteq> d" and xs = "rev t" and ys = "d # rev s"]
      dropWhile_append2 [where P = "\<lambda>c. c \<noteq> d" and xs = "rev t" and ys = "d # rev s"] by simp_all
  then show ?thesis
    by (simp add: last_split_def)
qed

lemma parse_octet_dec: "n \<le> 255 \<Longrightarrow> parse_octet (dec_String n) = Some n"
  using dec_String_no_zero [of n] by (auto simp: parse_octet_def parse_dec_String)

lemma ip4_String_dotted:
  "ip4_bytes w = [a, b, c, d] \<Longrightarrow>
     ip4_String w = dec_String a @ ''.'' @ dec_String b @ ''.'' @ dec_String c @ ''.'' @ dec_String d"
  by (simp add: ip4_String_def enumerate_eq_zip)

lemma parse_ip4_dotted:
  assumes "a \<le> 255" "b \<le> 255" "c \<le> 255" "d \<le> 255"
  shows "parse_ip4 (dec_String a @ ''.'' @ dec_String b @ ''.'' @ dec_String c @ ''.'' @ dec_String d)
    = Some (of_nat (((a * 256 + b) * 256 + c) * 256 + d))"
proof -
  have "split_on (CHR ''.'') (dec_String a @ ''.'' @ dec_String b @ ''.'' @ dec_String c @ ''.'' @ dec_String d)
      = [dec_String a, dec_String b, dec_String c, dec_String d]"
    by (simp add: split_on_first split_on_none dec_String_no)
  with assms show ?thesis
    by (simp add: parse_ip4_def parse_octet_dec)
qed

lemma base_256:
  fixes n :: nat
  assumes "n < 2 ^ 32"
  shows "((n div 2 ^ 24 mod 256 * 256 + n div 2 ^ 16 mod 256) * 256 + n div 2 ^ 8 mod 256) * 256 + n mod 256 = n"
proof -
  have "n div 2 ^ 24 mod 256 = n div 2 ^ 24"
    using assms by (simp add: less_mult_imp_div_less)
  moreover have "n div 2 ^ 24 = n div 2 ^ 16 div 256" "n div 2 ^ 16 = n div 2 ^ 8 div 256" "n div 2 ^ 8 = n div 256"
    by (simp_all add: div_mult2_eq [symmetric])
  ultimately show ?thesis
    by (metis div_mult_mod_eq)
qed

lemma parse_ip4_String: "parse_ip4 (ip4_String w) = Some w"
proof -
  let ?b = "\<lambda>i. unat (ucast (drop_bit (8 * i) w) :: 8 word)"
  have w: "unat w < 4294967296"
    using unsigned_less [of w, where ?'a = nat] by simp
  have b: "?b i = unat w div 2 ^ (8 * i) mod 256" for i
    using w by (simp add: unsigned_ucast_eq unsigned_drop_bit_eq) (simp add: drop_bit_eq_div take_bit_eq_mod)
  have le: "?b i \<le> 255" for i
    unfolding b by (simp add: less_Suc_eq_le [symmetric])
  have "ip4_bytes w = [?b 3, ?b 2, ?b 1, ?b 0]"
    by (simp add: ip4_bytes_def)
  from ip4_String_dotted [OF this]
  have "parse_ip4 (ip4_String w) = Some (of_nat (((?b 3 * 256 + ?b 2) * 256 + ?b 1) * 256 + ?b 0))"
    using parse_ip4_dotted [OF le le le le, of 3 2 1 0] by (simp only:)
  also have "((?b 3 * 256 + ?b 2) * 256 + ?b 1) * 256 + ?b 0 = unat w"
    unfolding b using base_256 [of "unat w"] w by simp
  finally show ?thesis by simp
qed

lemma ip4_String_shape:
  "\<exists>a b c d. ip4_String w = dec_String a @ ''.'' @ dec_String b @ ''.'' @ dec_String c @ ''.'' @ dec_String d"
proof -
  have "\<exists>a b c d. ip4_bytes w = [a, b, c, d]"
    by (simp add: ip4_bytes_def)
  then show ?thesis
    using ip4_String_dotted by blast
qed

lemma ParseAddr_ip4: "ParseAddr (ip4_String w) = Some (IP4 w)"
proof -
  obtain a rest where s: "ip4_String w = dec_String a @ CHR ''.'' # rest"
    using ip4_String_shape [of w] by auto
  have "c \<notin> set ''.:%''" if "c \<in> set (dec_String a)" for c
    using that dec_String_no [of a] by auto
  note dropWhile_append2 [where P = "\<lambda>c. c \<notin> set ''.:%''" and xs = "dec_String a" and ys = "CHR ''.'' # rest", OF this]
  then have "dropWhile (\<lambda>c. c \<notin> set ''.:%'') (dec_String a @ CHR ''.'' # rest) = CHR ''.'' # rest"
    by simp
  then show ?thesis
    using parse_ip4_String [of w] by (simp add: ParseAddr_def s)
qed

lemma ip4_String_no: "CHR '':'' \<notin> set (ip4_String w)" "CHR ''/'' \<notin> set (ip4_String w)"
  "ip4_String w \<noteq> []" "hd (ip4_String w) \<noteq> CHR ''[''"
proof -
  obtain a b c d where s: "ip4_String w = dec_String a @ ''.'' @ dec_String b @ ''.'' @ dec_String c @ ''.'' @ dec_String d"
    using ip4_String_shape by blast
  show "CHR '':'' \<notin> set (ip4_String w)" "CHR ''/'' \<notin> set (ip4_String w)" "ip4_String w \<noteq> []"
    by (simp_all add: s dec_String_no)
  have "hd (dec_String a) \<in> set (dec_String a)"
    by (simp add: dec_String_nonempty)
  then show "hd (ip4_String w) \<noteq> CHR ''[''"
    using dec_String_no(5) [of a] by (metis s hd_append2 dec_String_nonempty)
qed

lemma ParsePrefix_ip4: "n \<le> 32 \<Longrightarrow> ParsePrefix (prefix_String (Prefix (IP4 w) n)) = Some (Prefix (IP4 w) n)"
  using last_split_at [OF dec_String_no(3), of "ip4_String w" n] dec_String_no_zero [of n]
  by (auto simp: ParsePrefix_def prefix_String_def prefix_is_valid_def addr_is_valid_def bit_len_def
      ParseAddr_ip4 parse_dec_String)

lemma ParseAddrPort_ip4: "ParseAddrPort (addr_port_String (AddrPort (IP4 w) p)) = Some (AddrPort (IP4 w) p)"
proof -
  have "unat p \<le> 65535"
    using unsigned_less [of p, where ?'a = nat] by simp
  then show ?thesis
    using last_split_at [OF dec_String_no(2), of "ip4_String w" "unat p"] ip4_String_no [of w]
    by (simp add: ParseAddrPort_def addr_port_String_def dec_String_nonempty ParseAddr_ip4 parse_dec_String)
qed

text \<open>The text of an IPv6 address has a colon, that of an IPv4 network determines it.\<close>

lemma ip6_String_colon: "CHR '':'' \<in> set (ip6_String w)"
proof -
  obtain s e where run: "zero_run (ip6_groups w) = (s, e)" by fastforce
  show ?thesis
  proof (cases "s = 8")
    case True
    then show ?thesis
      unfolding ip6_String_def Let_def run by (simp add: ip6_groups_def enumerate_eq_zip)
  qed (simp add: ip6_String_def Let_def run)
qed

lemma ipnet_String_ip4:
  assumes "ipnet_String (IPNet a n) = ipnet_String (IPNet (IP4 w) m)" "unmap a = a"
  shows "a = IP4 w \<and> n = m"
proof -
  have eq: "ip_String a @ CHR ''/'' # dec_String n = ip4_String w @ CHR ''/'' # dec_String m"
    using assms by (simp add: ipnet_String_def ipnet_ones_def)
  have slash: "CHR ''/'' \<notin> set (dec_String k)" for k
    by (rule dec_String_no(3))
  have "last_split (CHR ''/'') (ip_String a @ CHR ''/'' # dec_String n) = Some (ip_String a, dec_String n)"
    "last_split (CHR ''/'') (ip4_String w @ CHR ''/'' # dec_String m) = Some (ip4_String w, dec_String m)"
    by (rule last_split_at [OF slash])+
  with eq have texts: "ip_String a = ip4_String w" "dec_String n = dec_String m"
    by (metis option.inject prod.inject)+
  have "n = m"
    using parse_dec_String [of n] parse_dec_String [of m] unfolding texts(2) by simp
  moreover have "a = IP4 w"
  proof (cases a)
    case InvalidIP
    have "ParseAddr ''invalid IP'' = None"
      by (simp add: ParseAddr_def)
    with InvalidIP texts(1) ParseAddr_ip4 [of w] show ?thesis
      by (metis ip_String.simps(1) option.distinct(1))
  next
    case (IP4 v)
    with texts(1) have "ip4_String v = ip4_String w" by simp
    with IP4 show ?thesis
      by (metis ParseAddr_ip4 option.inject)
  next
    case (IP6 v z)
    with assms(2) have "\<not> is_4in6 v" by auto
    then have "CHR '':'' \<in> set (ip_String a)"
      using IP6 ip6_String_colon [of v] by simp
    then show ?thesis
      unfolding texts(1) by (simp add: ip4_String_no)
  qed
  ultimately show ?thesis by simp
qed

end
