(* ===== verification/WgEngine.thy ===== *)
theory WgEngine
  imports NetText Wgkey
begin

text \<open>
  \<open>tetraengine/wgengine\<close>: bringing a WireGuard interface to a wanted configuration. \<open>util.go\<close>
  computes what has to change (addresses, routes, peers); \<open>wgengine.go\<close> applies it through
  netlink and wgctrl, which are parameters of the model. Structures of these libraries are
  extensible records with the fields that the sources read; a Go map that is ranged over
  and then sorted is an association list.
\<close>

section \<open>Data\<close>

record nl_addr =
  na_IPNet :: "ip_net option"

record nl_route =
  nr_Dst :: "ip_net option"
  nr_LinkIndex :: int
  nr_Table :: int
  nr_Scope :: byte

record wg_peer =
  wp_PublicKey :: key
  wp_Remove :: bool
  wp_PresharedKey :: "key option"
  wp_Endpoint :: "addr_port option"
  wp_PersistentKeepaliveInterval :: "duration option"
  wp_ReplaceAllowedIPs :: bool
  wp_AllowedIPs :: "ip_net list"

record wg_config =
  wc_PrivateKey :: "key option"
  wc_ListenPort :: "int option"
  wc_FirewallMark :: "int option"
  wc_ReplacePeers :: bool
  wc_Peers :: "wg_peer list"

definition addr_key :: "nl_addr \<Rightarrow> string" where
  "addr_key a = dst_String (na_IPNet a)"

definition route_key :: "nl_route \<Rightarrow> string" where
  "route_key r = dst_String (nr_Dst r)"

definition peer_key :: "wg_peer \<Rightarrow> string" where
  "peer_key p = EncodeToString (wp_PublicKey p)"

section \<open>Differences of addresses and routes\<close>

text \<open>The loop over the current addresses: what is left of the wanted ones, and what is to be deleted.\<close>

fun diffIPs_loop :: "nl_addr list \<Rightarrow> (string \<times> nl_addr) list \<Rightarrow> (string \<times> nl_addr) list \<times> nl_addr list" where
  "diffIPs_loop [] desired = (desired, [])"
| "diffIPs_loop (c # cs) desired =
     (case map_of desired (addr_key c) of
        None \<Rightarrow> (case diffIPs_loop cs desired of (m, deleted) \<Rightarrow> (m, c # deleted))
      | Some _ \<Rightarrow> diffIPs_loop cs (AList.delete (addr_key c) desired))"

definition diffIPs :: "nl_addr list \<Rightarrow> nl_addr list \<Rightarrow> nl_addr list \<times> nl_addr list" where
  "diffIPs desired current =
     (case diffIPs_loop current (alist_of addr_key desired) of (m, deleted) \<Rightarrow>
        (sort_key addr_key (map snd m), deleted))"

fun diffRoutes_loop ::
  "nl_route list \<Rightarrow> (string \<times> nl_route) list \<Rightarrow> (string \<times> nl_route) list \<times> nl_route list" where
  "diffRoutes_loop [] desired = (desired, [])"
| "diffRoutes_loop (c # cs) desired =
     (case map_of desired (route_key c) of
        None \<Rightarrow> (case diffRoutes_loop cs desired of (m, deleted) \<Rightarrow> (m, c # deleted))
      | Some r \<Rightarrow>
          if nr_LinkIndex r \<noteq> nr_LinkIndex c
          then (case diffRoutes_loop cs desired of (m, deleted) \<Rightarrow> (m, c # deleted))
          else diffRoutes_loop cs (AList.delete (route_key c) desired))"

definition diffRoutes :: "nl_route list \<Rightarrow> nl_route list \<Rightarrow> nl_route list \<times> nl_route list" where
  "diffRoutes desired current =
     (case diffRoutes_loop current (alist_of route_key desired) of (m, deleted) \<Rightarrow>
        (sort_key route_key (map snd m), deleted))"

definition generateRoutesFromWGConfig :: "wg_config \<Rightarrow> int \<Rightarrow> int \<Rightarrow> nl_route list" where
  "generateRoutesFromWGConfig config link table =
     concat (map (\<lambda>peer. map (\<lambda>allowedIPs.
         \<lparr>nr_Dst = Some allowedIPs, nr_LinkIndex = link, nr_Table = table, nr_Scope = 0\<rparr>)
       (wp_AllowedIPs peer)) (wc_Peers config))"

section \<open>Differences of peers and configurations\<close>

definition peer_differs :: "wg_peer \<Rightarrow> wg_peer \<Rightarrow> bool" where
  "peer_differs e c \<longleftrightarrow>
     map_option udp_String (wp_Endpoint e) \<noteq> map_option udp_String (wp_Endpoint c) \<or>
     wp_PersistentKeepaliveInterval e \<noteq> wp_PersistentKeepaliveInterval c \<or>
     wp_PresharedKey e \<noteq> wp_PresharedKey c \<or>
     wp_PublicKey e \<noteq> wp_PublicKey c \<or>
     length (wp_AllowedIPs e) \<noteq> length (wp_AllowedIPs c) \<or>
     list_ex (\<lambda>(a, b). ipnet_String a \<noteq> ipnet_String b) (zip (wp_AllowedIPs e) (wp_AllowedIPs c))"

fun diffPeers_loop :: "wg_peer list \<Rightarrow> wg_peer list \<Rightarrow> wg_peer list" where
  "diffPeers_loop [] current = map (\<lambda>c. c\<lparr>wp_Remove := True\<rparr>) current"
| "diffPeers_loop expected [] = expected"
| "diffPeers_loop (e # es) (c # cs) =
     (if peer_key c < peer_key e then c\<lparr>wp_Remove := True\<rparr> # diffPeers_loop (e # es) cs
      else if peer_key e < peer_key c then e # diffPeers_loop es (c # cs)
      else if peer_differs e c then e\<lparr>wp_ReplaceAllowedIPs := True\<rparr> # diffPeers_loop es cs
      else diffPeers_loop es cs)"

definition diffPeers :: "wg_peer list \<Rightarrow> wg_peer list \<Rightarrow> wg_peer list" where
  "diffPeers expected current =
     diffPeers_loop (sort_key peer_key expected) (sort_key peer_key current)"

definition diffConfigs :: "wg_config \<Rightarrow> wg_config \<Rightarrow> wg_config \<times> bool" where
  "diffConfigs expected current =
     (let peers = diffPeers (wc_Peers expected) (wc_Peers current)
      in (\<lparr>wc_PrivateKey = wc_PrivateKey expected, wc_ListenPort = wc_ListenPort expected,
           wc_FirewallMark = wc_FirewallMark expected,
           wc_ReplacePeers = (wc_Peers current = []), wc_Peers = peers\<rparr>,
          wc_FirewallMark expected \<noteq> wc_FirewallMark current \<or>
          wc_ListenPort expected \<noteq> wc_ListenPort current \<or>
          wc_PrivateKey expected \<noteq> wc_PrivateKey current \<or> peers \<noteq> []))"

section \<open>Lemmas on addresses and routes\<close>

text \<open>Both loops are instances of one.\<close>

fun diff_loop :: "('a \<Rightarrow> string) \<Rightarrow> ('a \<Rightarrow> 'a \<Rightarrow> bool) \<Rightarrow> 'a list \<Rightarrow> (string \<times> 'a) list
    \<Rightarrow> (string \<times> 'a) list \<times> 'a list" where
  "diff_loop key same [] desired = (desired, [])"
| "diff_loop key same (c # cs) desired =
     (case map_of desired (key c) of
        Some r \<Rightarrow>
          if same r c then diff_loop key same cs (AList.delete (key c) desired)
          else (case diff_loop key same cs desired of (m, deleted) \<Rightarrow> (m, c # deleted))
      | None \<Rightarrow> (case diff_loop key same cs desired of (m, deleted) \<Rightarrow> (m, c # deleted)))"

lemma diffIPs_loop_eq: "diffIPs_loop cs m = diff_loop addr_key (\<lambda>_ _. True) cs m"
  by (induction cs m rule: diffIPs_loop.induct) (auto split: option.split prod.split)

lemma diffRoutes_loop_eq: "diffRoutes_loop cs m = diff_loop route_key (\<lambda>r c. nr_LinkIndex r = nr_LinkIndex c) cs m"
  by (induction cs m rule: diffRoutes_loop.induct) (auto split: option.split prod.split)

lemma diff_loop_eq:
  assumes "distinct (map fst m)" "distinct (map key cs)"
  shows "diff_loop key same cs m =
    (filter (\<lambda>(k, r). \<not> (\<exists>c \<in> set cs. key c = k \<and> same r c)) m,
     filter (\<lambda>c. \<not> (\<exists>r. map_of m (key c) = Some r \<and> same r c)) cs)"
  using assms
proof (induction cs arbitrary: m)
  case (Cons c cs)
  have c: "key x \<noteq> key c" if "x \<in> set cs" for x
    using Cons.prems(2) that by (metis distinct.simps(2) image_eqI list.set_map list.simps(9))
  show ?case
  proof (cases "\<exists>r. map_of m (key c) = Some r \<and> same r c")
    case True
    then obtain r where r: "map_of m (key c) = Some r" "same r c" by blast
    let ?m = "AList.delete (key c) m"
    have "filter (\<lambda>(k, r). \<not> (\<exists>c \<in> set cs. key c = k \<and> same r c)) ?m
        = filter (\<lambda>(k, r). \<not> (\<exists>x \<in> set (c # cs). key x = k \<and> same r x)) m"
      using r Cons.prems(1) unfolding AList.delete_eq filter_filter
      by (intro filter_cong refl) (auto dest: c eq_key_imp_eq_value [OF Cons.prems(1)])
    moreover have "filter (\<lambda>x. \<not> (\<exists>r. map_of ?m (key x) = Some r \<and> same r x)) cs
        = filter (\<lambda>x. \<not> (\<exists>r. map_of m (key x) = Some r \<and> same r x)) cs"
      by (intro filter_cong refl) (simp add: delete_conv' c)
    ultimately show ?thesis
      using r Cons.IH [of ?m] Cons.prems by (auto simp: distinct_delete)
  next
    case False
    then have "diff_loop key same (c # cs) m =
        (case diff_loop key same cs m of (m, deleted) \<Rightarrow> (m, c # deleted))"
      by (auto split: option.split)
    moreover have "filter (\<lambda>(k, r). \<not> (\<exists>c \<in> set cs. key c = k \<and> same r c)) m
        = filter (\<lambda>(k, r). \<not> (\<exists>x \<in> set (c # cs). key x = k \<and> same r x)) m"
      using False Cons.prems(1) by (intro filter_cong refl) auto
    ultimately show ?thesis
      using False Cons.IH [of m] Cons.prems by simp
  qed
qed simp

text \<open>
  The result of a difference: what is missing, in the order of the keys, and what is too
  much, in the order of the current entries.
\<close>

lemma alist_of_entry:
  "(k, r) \<in> set (alist_of key xs) \<Longrightarrow> r \<in> set xs \<and> key r = k"
  using key_value_alist_of [of k r key xs] map_of_alist_of [of key xs] distinct_alist_of [of key xs]
  by (auto simp: map_of_eq_Some_iff [symmetric] simp del: map_of_eq_Some_iff dest!: map_of_SomeD)

lemma diff_result:
  assumes "distinct (map key current)"
    and "diff_loop key same current (alist_of key desired) = (m, deleted)"
  shows "key ` set (map snd m) = {k \<in> key ` set desired.
      \<not> (\<exists>c \<in> set current. key c = k \<and> (\<exists>r. map_of (alist_of key desired) k = Some r \<and> same r c))}"
    and "set (map snd m) \<subseteq> set desired" and "distinct (map key (map snd m))"
    and "deleted = filter (\<lambda>c. \<not> (\<exists>r. map_of (alist_of key desired) (key c) = Some r \<and> same r c)) current"
proof -
  let ?D = "alist_of key desired"
  have m: "m = filter (\<lambda>(k, r). \<not> (\<exists>c \<in> set current. key c = k \<and> same r c)) ?D"
    and "deleted = filter (\<lambda>c. \<not> (\<exists>r. map_of ?D (key c) = Some r \<and> same r c)) current"
    using assms diff_loop_eq [OF distinct_alist_of assms(1)] by auto
  then show "deleted = filter (\<lambda>c. \<not> (\<exists>r. map_of ?D (key c) = Some r \<and> same r c)) current"
    by simp
  have fst: "map key (map snd m) = map fst m"
    unfolding m by (auto dest: alist_of_entry)
  have "distinct (map fst m)"
    unfolding m by (rule distinct_map_filter [OF distinct_alist_of])
  then show "distinct (map key (map snd m))"
    by (simp add: fst del: map_map)
  show "set (map snd m) \<subseteq> set desired"
    unfolding m by (auto dest: alist_of_entry)
  have D: "map_of ?D k = Some r \<longleftrightarrow> (k, r) \<in> set ?D" for k r
    by (simp add: map_of_eq_Some_iff distinct_alist_of)
  have "key ` set (map snd m) = fst ` set m"
    using fst by (metis list.set_map)
  also have "\<dots> = {k \<in> fst ` set ?D. \<not> (\<exists>c \<in> set current. key c = k \<and> (\<exists>r. map_of ?D k = Some r \<and> same r c))}"
    unfolding m D using distinct_alist_of [of key desired]
    by (force simp: distinct_map inj_on_def)
  finally show "key ` set (map snd m) = {k \<in> key ` set desired.
      \<not> (\<exists>c \<in> set current. key c = k \<and> (\<exists>r. map_of ?D k = Some r \<and> same r c))}"
    by (simp add: keys_alist_of)
qed

section \<open>Lemmas on peers\<close>

lemma peer_key_update [simp]:
  "peer_key (p\<lparr>wp_Remove := b\<rparr>) = peer_key p" "peer_key (p\<lparr>wp_ReplaceAllowedIPs := b\<rparr>) = peer_key p"
  by (simp_all add: peer_key_def)

lemma peer_key_eq: "peer_key p = peer_key q \<longleftrightarrow> wp_PublicKey p = wp_PublicKey q"
  by (simp add: peer_key_def EncodeToString_inj)

text \<open>What the loop lists: removals, additions and replacements.\<close>

definition removal :: "wg_peer set \<Rightarrow> wg_peer set \<Rightarrow> wg_peer \<Rightarrow> bool" where
  "removal E C p \<longleftrightarrow> (\<exists>c \<in> C. p = c\<lparr>wp_Remove := True\<rparr> \<and> (\<forall>e \<in> E. peer_key e \<noteq> peer_key c))"

definition addition :: "wg_peer set \<Rightarrow> wg_peer set \<Rightarrow> wg_peer \<Rightarrow> bool" where
  "addition E C p \<longleftrightarrow> p \<in> E \<and> (\<forall>c \<in> C. peer_key c \<noteq> peer_key p)"

definition replacement :: "wg_peer set \<Rightarrow> wg_peer set \<Rightarrow> wg_peer \<Rightarrow> bool" where
  "replacement E C p \<longleftrightarrow>
     (\<exists>e \<in> E. p = e\<lparr>wp_ReplaceAllowedIPs := True\<rparr> \<and> (\<exists>c \<in> C. peer_key c = peer_key e \<and> peer_differs e c))"

definition peer_change :: "wg_peer set \<Rightarrow> wg_peer set \<Rightarrow> wg_peer \<Rightarrow> bool" where
  "peer_change E C p \<longleftrightarrow> removal E C p \<or> addition E C p \<or> replacement E C p"

lemmas peer_change_defs = peer_change_def removal_def addition_def replacement_def

lemma peer_change_skip_current:
  assumes "\<forall>e \<in> E. peer_key e \<noteq> peer_key c"
  shows "peer_change E (insert c C) p \<longleftrightarrow> p = c\<lparr>wp_Remove := True\<rparr> \<or> peer_change E C p"
proof -
  have "removal E (insert c C) p \<longleftrightarrow> p = c\<lparr>wp_Remove := True\<rparr> \<or> removal E C p"
    "addition E (insert c C) p \<longleftrightarrow> addition E C p" "replacement E (insert c C) p \<longleftrightarrow> replacement E C p"
    using assms by (auto simp: peer_change_defs)
  then show ?thesis by (auto simp: peer_change_def)
qed

lemma peer_change_skip_expected:
  assumes "\<forall>c \<in> C. peer_key c \<noteq> peer_key e" "\<forall>x \<in> E. peer_key x \<noteq> peer_key e"
  shows "peer_change (insert e E) C p \<longleftrightarrow> p = e \<or> peer_change E C p"
proof -
  have "removal (insert e E) C p \<longleftrightarrow> removal E C p"
    using assms(1) unfolding removal_def by (metis insert_iff)
  moreover have "addition (insert e E) C p \<longleftrightarrow> p = e \<or> addition E C p"
    "replacement (insert e E) C p \<longleftrightarrow> replacement E C p"
    using assms by (auto simp: peer_change_defs)
  ultimately show ?thesis by (auto simp: peer_change_def)
qed

lemma peer_change_both:
  assumes "peer_key e = peer_key c" "\<forall>x \<in> E. peer_key x \<noteq> peer_key e" "\<forall>x \<in> C. peer_key x \<noteq> peer_key c"
  shows "peer_change (insert e E) (insert c C) p \<longleftrightarrow>
    (peer_differs e c \<and> p = e\<lparr>wp_ReplaceAllowedIPs := True\<rparr>) \<or> peer_change E C p"
proof -
  have "removal (insert e E) (insert c C) p \<longleftrightarrow> removal E C p"
    using assms unfolding removal_def by (metis insert_iff)
  moreover have "addition (insert e E) (insert c C) p \<longleftrightarrow> addition E C p"
    using assms unfolding addition_def by (metis insert_iff)
  moreover have "replacement (insert e E) (insert c C) p \<longleftrightarrow>
      (peer_differs e c \<and> p = e\<lparr>wp_ReplaceAllowedIPs := True\<rparr>) \<or> replacement E C p"
    using assms unfolding replacement_def by (metis insert_iff)
  ultimately show ?thesis by (auto simp: peer_change_def)
qed

lemma loop_members:
  "sorted_wrt (<) (map peer_key es) \<Longrightarrow> sorted_wrt (<) (map peer_key cs) \<Longrightarrow>
     p \<in> set (diffPeers_loop es cs) \<longleftrightarrow> peer_change (set es) (set cs) p"
proof (induction es cs rule: diffPeers_loop.induct)
  case (1 cs)
  then show ?case by (auto simp: peer_change_defs)
next
  case (2 e es)
  then show ?case by (simp add: peer_change_defs)
next
  case (3 e es c cs)
  have e: "\<forall>x \<in> set es. peer_key e < peer_key x" and c: "\<forall>x \<in> set cs. peer_key c < peer_key x"
    using "3.prems" by simp_all
  then have ne: "\<forall>x \<in> set es. peer_key x \<noteq> peer_key e" "\<forall>x \<in> set cs. peer_key x \<noteq> peer_key c"
    by (metis less_irrefl)+
  consider "peer_key c < peer_key e" | "peer_key e < peer_key c" | "peer_key e = peer_key c"
    by (metis linorder_less_linear)
  then show ?case
  proof cases
    case 1
    then have "\<forall>x \<in> set (e # es). peer_key x \<noteq> peer_key c"
      using e by (metis less_trans less_irrefl set_ConsD)
    from peer_change_skip_current [OF this, of "set cs" p] 1 3 show ?thesis by simp
  next
    case 2
    then have "\<forall>x \<in> set (c # cs). peer_key x \<noteq> peer_key e"
      using c by (metis less_trans less_irrefl set_ConsD)
    from peer_change_skip_expected [OF this ne(1), of p] 2 3 show ?thesis by simp
  next
    case eq: 3
    from peer_change_both [OF eq ne, of p] eq 3 show ?thesis by auto
  qed
qed

lemma loop_sorted:
  "sorted_wrt (<) (map peer_key es) \<Longrightarrow> sorted_wrt (<) (map peer_key cs) \<Longrightarrow>
     sorted_wrt (<) (map peer_key (diffPeers_loop es cs))"
proof (induction es cs rule: diffPeers_loop.induct)
  case (3 e es c cs)
  have low: "\<forall>x \<in> set (diffPeers_loop xs ys). l < peer_key x"
    if "\<forall>x \<in> set xs \<union> set ys. l < peer_key x" "sorted_wrt (<) (map peer_key xs)"
      "sorted_wrt (<) (map peer_key ys)" for l xs ys
    using that by (auto simp: loop_members peer_change_defs)
  consider "peer_key c < peer_key e" | "peer_key e < peer_key c" | "peer_key e = peer_key c"
    by (metis linorder_less_linear)
  then show ?case
  proof cases
    case 1
    then have "\<forall>x \<in> set (diffPeers_loop (e # es) cs). peer_key c < peer_key x"
      using "3.prems" by (intro low) (auto intro: less_trans)
    with 1 3 show ?thesis by simp
  next
    case 2
    then have "\<forall>x \<in> set (diffPeers_loop es (c # cs)). peer_key e < peer_key x"
      using "3.prems" by (intro low) (auto intro: less_trans)
    with 2 3 show ?thesis by simp
  next
    case eq: 3
    then have "\<forall>x \<in> set (diffPeers_loop es cs). peer_key c < peer_key x"
      using "3.prems" by (intro low) auto
    with eq 3 show ?thesis by simp
  qed
qed (simp_all add: o_def)

lemma peer_change_key: "peer_change E C p \<Longrightarrow> \<exists>q \<in> E \<union> C. peer_key q = peer_key p"
  by (auto simp: peer_change_defs)

text \<open>
  What a list of changes means for a set of peers: a peer marked \<open>Remove\<close> goes, every other
  one takes the place of the peer with its key.
\<close>

definition peers_of :: "wg_peer list \<Rightarrow> key \<Rightarrow> wg_peer option" where
  "peers_of ps = map_of (map (\<lambda>p. (wp_PublicKey p, p)) ps)"

definition apply_peer :: "wg_peer \<Rightarrow> (key \<Rightarrow> wg_peer option) \<Rightarrow> key \<Rightarrow> wg_peer option" where
  "apply_peer p m = m(wp_PublicKey p := (if wp_Remove p then None else Some p))"

definition apply_peers :: "wg_peer list \<Rightarrow> (key \<Rightarrow> wg_peer option) \<Rightarrow> key \<Rightarrow> wg_peer option" where
  "apply_peers ps m = fold apply_peer ps m"

lemma peers_of_Some:
  "distinct (map wp_PublicKey ps) \<Longrightarrow> peers_of ps k = Some p \<longleftrightarrow> p \<in> set ps \<and> wp_PublicKey p = k"
  by (auto simp: peers_of_def map_of_eq_Some_iff o_def)

lemma peers_of_None: "peers_of ps k = None \<longleftrightarrow> (\<forall>p \<in> set ps. wp_PublicKey p \<noteq> k)"
  by (force simp: peers_of_def map_of_eq_None_iff)

lemma apply_peers_at:
  "distinct (map wp_PublicKey ps) \<Longrightarrow>
     apply_peers ps m k = (case peers_of ps k of None \<Rightarrow> m k | Some p \<Rightarrow> if wp_Remove p then None else Some p)"
proof (induction ps arbitrary: m)
  case (Cons p ps)
  have "peers_of ps (wp_PublicKey p) = None"
    using Cons.prems by (simp add: peers_of_None) (metis image_eqI)
  with Cons show ?case
    by (auto simp: apply_peers_def apply_peer_def peers_of_def split: option.split)
qed (simp add: apply_peers_def peers_of_def)

lemma peer_differs_refl [simp]: "\<not> peer_differs e e" "\<not> peer_differs e (e\<lparr>wp_ReplaceAllowedIPs := b\<rparr>)"
  by (auto simp: peer_differs_def list_ex_iff set_zip)

lemma sorted_peers:
  assumes "distinct (map wp_PublicKey ps)"
  shows "sorted_wrt (<) (map peer_key (sort_key peer_key ps))"
proof -
  have "distinct (map peer_key ps)"
    using assms by (simp add: distinct_map inj_on_def peer_key_eq)
  then have "distinct (map peer_key (sort_key peer_key ps))"
    by (simp add: distinct_map)
  then show ?thesis
    by (simp add: strict_sorted_iff)
qed

lemma diffPeers_members:
  assumes "distinct (map wp_PublicKey expected)" "distinct (map wp_PublicKey current)"
  shows "p \<in> set (diffPeers expected current) \<longleftrightarrow> peer_change (set expected) (set current) p"
    and "distinct (map wp_PublicKey (diffPeers expected current))"
    and "sorted_wrt (<) (map peer_key (diffPeers expected current))"
proof -
  show "p \<in> set (diffPeers expected current) \<longleftrightarrow> peer_change (set expected) (set current) p"
    by (simp add: diffPeers_def loop_members sorted_peers assms)
  show sorted: "sorted_wrt (<) (map peer_key (diffPeers expected current))"
    by (simp add: diffPeers_def loop_sorted sorted_peers assms)
  then have "distinct (map peer_key (diffPeers expected current))"
    by (simp add: strict_sorted_iff)
  then show "distinct (map wp_PublicKey (diffPeers expected current))"
    by (simp add: distinct_map inj_on_def peer_key_eq)
qed

lemma diffPeers_changes:
  assumes "distinct (map wp_PublicKey expected)" "distinct (map wp_PublicKey current)"
    and "peer_change (set expected) (set current) p"
  shows "apply_peers (diffPeers expected current) m (wp_PublicKey p) = (if wp_Remove p then None else Some p)"
proof -
  note dist = diffPeers_members(2) [OF assms(1,2)]
  have "peers_of (diffPeers expected current) (wp_PublicKey p) = Some p"
    using assms(3) by (simp add: peers_of_Some [OF dist] diffPeers_members(1) [OF assms(1,2)])
  then show ?thesis
    by (simp add: apply_peers_at [OF dist])
qed

lemma diffPeers_keeps:
  assumes "distinct (map wp_PublicKey expected)" "distinct (map wp_PublicKey current)"
    and "\<And>p. peer_change (set expected) (set current) p \<Longrightarrow> wp_PublicKey p \<noteq> k"
  shows "apply_peers (diffPeers expected current) m k = m k"
  using diffPeers_members(1) [OF assms(1,2)] assms(3) peers_of_None [of "diffPeers expected current" k]
  by (auto simp: apply_peers_at [OF diffPeers_members(2) [OF assms(1,2)]] split: option.split)

lemma same_peer_unchanged:
  assumes E: "distinct (map wp_PublicKey expected)" and C: "distinct (map wp_PublicKey current)"
    and "peers_of expected k = Some e" "peers_of current k = Some c" "\<not> peer_differs e c"
    and change: "peer_change (set expected) (set current) p"
  shows "wp_PublicKey p \<noteq> k"
proof -
  have ec: "e \<in> set expected" "wp_PublicKey e = k" "c \<in> set current" "wp_PublicKey c = k"
    using assms(3,4) by (simp_all add: peers_of_Some E C)
  have uniq: "x = e" if "x \<in> set expected" "wp_PublicKey x = k" for x
    using that assms(3) E by (metis peers_of_Some option.inject)
  have uniq': "x = c" if "x \<in> set current" "wp_PublicKey x = k" for x
    using that assms(4) C by (metis peers_of_Some option.inject)
  show ?thesis
    using change assms(5) ec unfolding peer_change_defs peer_key_eq
    by (auto dest: uniq uniq')
qed

lemma diffPeers_effect:
  assumes E: "distinct (map wp_PublicKey expected)" and C: "distinct (map wp_PublicKey current)"
    and keep: "\<forall>e \<in> set expected. \<not> wp_Remove e"
  shows "rel_option (\<lambda>e p. \<not> peer_differs e p) (peers_of expected k)
    (apply_peers (diffPeers expected current) (peers_of current) k)"
proof (cases "peers_of expected k")
  case None
  then have e: "\<forall>e \<in> set expected. wp_PublicKey e \<noteq> k"
    by (simp add: peers_of_None)
  show ?thesis
  proof (cases "peers_of current k")
    case c: None
    have "wp_PublicKey p \<noteq> k" if "peer_change (set expected) (set current) p" for p
      using that e c by (force simp: peers_of_None peer_key_eq dest: peer_change_key)
    from diffPeers_keeps [OF E C this] None c show ?thesis by simp
  next
    case (Some c)
    then have c: "c \<in> set current" "wp_PublicKey c = k"
      by (simp_all add: peers_of_Some C)
    then have "peer_change (set expected) (set current) (c\<lparr>wp_Remove := True\<rparr>)"
      using e by (auto simp: peer_change_defs peer_key_eq)
    from diffPeers_changes [OF E C this] c None show ?thesis by simp
  qed
next
  case (Some e)
  then have e: "e \<in> set expected" "wp_PublicKey e = k"
    by (simp_all add: peers_of_Some E)
  show ?thesis
  proof (cases "peers_of current k")
    case None
    then have "peer_change (set expected) (set current) e"
      using e by (auto simp: peer_change_defs peer_key_eq peers_of_None)
    from diffPeers_changes [OF E C this] e Some keep show ?thesis by simp
  next
    case c: (Some c)
    show ?thesis
    proof (cases "peer_differs e c")
      case True
      then have "peer_change (set expected) (set current) (e\<lparr>wp_ReplaceAllowedIPs := True\<rparr>)"
        using e c by (auto simp: peer_change_defs peer_key_eq peers_of_Some C)
      from diffPeers_changes [OF E C this] e Some keep show ?thesis by simp
    next
      case False
      from diffPeers_keeps [OF E C same_peer_unchanged [OF E C Some c False]] c Some False
      show ?thesis by simp
    qed
  qed
qed

section \<open>The engine\<close>

text \<open>
  netlink and wgctrl as parameters: listing may fail, adding and deleting return the new
  state of the interface and whether the call succeeded. \<open>'n\<close> is that state.
\<close>

record 'n kernel =
  nk_AddrList :: "'n \<Rightarrow> nl_addr list option"
  nk_AddrDel :: "nl_addr \<Rightarrow> 'n \<Rightarrow> 'n \<times> bool"
  nk_AddrAdd :: "nl_addr \<Rightarrow> 'n \<Rightarrow> 'n \<times> bool"
  nk_RouteList :: "int \<Rightarrow> int \<Rightarrow> 'n \<Rightarrow> nl_route list option"
  nk_RouteDel :: "nl_route \<Rightarrow> 'n \<Rightarrow> 'n \<times> bool"
  nk_RouteAdd :: "nl_route \<Rightarrow> 'n \<Rightarrow> 'n \<times> bool"
  nk_ConfigureDevice :: "wg_config \<Rightarrow> 'n \<Rightarrow> 'n \<times> bool"

record 'n wg_engine =
  we_link :: int
  we_prevConfig :: wg_config
  we_net :: 'n

text \<open>Each of the following returns whether the code returns \<open>nil\<close>.\<close>

definition reconfigWireguard :: "'n kernel \<Rightarrow> wg_config \<Rightarrow> 'n wg_engine \<Rightarrow> 'n wg_engine \<times> bool" where
  "reconfigWireguard K config e =
     (case diffConfigs config (we_prevConfig e) of (diff, hasDiff) \<Rightarrow>
        if \<not> hasDiff then (e, True)
        else case nk_ConfigureDevice K diff (we_net e) of
               (n, False) \<Rightarrow> (e\<lparr>we_net := n\<rparr>, False)
             | (n, True) \<Rightarrow> (e\<lparr>we_net := n, we_prevConfig := config\<rparr>, True))"

text \<open>The loops that apply a list of changes, go on after an error and remember that there was one.\<close>

fun apply_each :: "('a \<Rightarrow> 'n \<Rightarrow> 'n \<times> bool) \<Rightarrow> 'a list \<Rightarrow> 'n \<times> bool \<Rightarrow> 'n \<times> bool" where
  "apply_each f [] s = s"
| "apply_each f (x # xs) (n, ok) = (case f x n of (n', ok') \<Rightarrow> apply_each f xs (n', ok \<and> ok'))"

definition reconfigAddresses :: "'n kernel \<Rightarrow> nl_addr list \<Rightarrow> 'n wg_engine \<Rightarrow> 'n wg_engine \<times> bool" where
  "reconfigAddresses K addrs e =
     (case nk_AddrList K (we_net e) of
        None \<Rightarrow> (e, False)
      | Some current \<Rightarrow>
          (case diffIPs addrs current of (added, deleted) \<Rightarrow>
             (case apply_each (nk_AddrAdd K) added
                     (apply_each (nk_AddrDel K) deleted (we_net e, True)) of
                (n, ok) \<Rightarrow> (e\<lparr>we_net := n\<rparr>, ok))))"

text \<open>Routes that are never deleted: those of host scope (254) and IPv6 multicast.\<close>

definition route_exempt :: "nl_route \<Rightarrow> bool" where
  "route_exempt d \<longleftrightarrow> nr_Scope d = 254 \<or> route_key d = ''ff00::/8''"

definition reconfigRoutes :: "'n kernel \<Rightarrow> wg_config \<Rightarrow> 'n wg_engine \<Rightarrow> 'n wg_engine \<times> bool" where
  "reconfigRoutes K config e =
     (let table = 0
      in case nk_RouteList K (we_link e) table (we_net e) of
           None \<Rightarrow> (e, False)
         | Some current \<Rightarrow>
             (let desired = generateRoutesFromWGConfig config (we_link e) table
              in case diffRoutes desired current of (added, deleted) \<Rightarrow>
                   (case apply_each (nk_RouteAdd K) added
                           (apply_each (nk_RouteDel K) (filter (\<lambda>d. \<not> route_exempt d) deleted)
                             (we_net e, True)) of
                      (n, ok) \<Rightarrow> (e\<lparr>we_net := n\<rparr>, ok))))"

definition wg_Reconfig :: "'n kernel \<Rightarrow> wg_config \<Rightarrow> nl_addr list \<Rightarrow> 'n wg_engine \<Rightarrow> 'n wg_engine \<times> bool" where
  "wg_Reconfig K config addrs e =
     (case reconfigWireguard K config e of
        (e1, False) \<Rightarrow> (e1, False)
      | (e1, True) \<Rightarrow>
          (case reconfigAddresses K addrs e1 of (e2, ok2) \<Rightarrow>
             (case reconfigRoutes K config e2 of (e3, ok3) \<Rightarrow> (e3, ok2 \<and> ok3))))"

section \<open>Lemmas on the engine\<close>

text \<open>
  What netlink promises, for calls that succeed: a list shows every entry once, \<open>Add\<close> and
  \<open>Del\<close> add and remove one key, and a list that is filtered by a link shows its routes only.
\<close>

definition addr_keys :: "'n kernel \<Rightarrow> 'n \<Rightarrow> string set option" where
  "addr_keys K n = map_option (\<lambda>l. addr_key ` set l) (nk_AddrList K n)"

definition route_keys :: "'n kernel \<Rightarrow> int \<Rightarrow> 'n \<Rightarrow> string set option" where
  "route_keys K i n = map_option (\<lambda>l. route_key ` set l) (nk_RouteList K i 0 n)"

definition kernel_laws :: "'n kernel \<Rightarrow> bool" where
  "kernel_laws K \<longleftrightarrow>
     (\<forall>n l. nk_AddrList K n = Some l \<longrightarrow> distinct (map addr_key l)) \<and>
     (\<forall>a n n' S. nk_AddrDel K a n = (n', True) \<longrightarrow> addr_keys K n = Some S \<longrightarrow>
        addr_keys K n' = Some (S - {addr_key a})) \<and>
     (\<forall>a n n' S. nk_AddrAdd K a n = (n', True) \<longrightarrow> addr_keys K n = Some S \<longrightarrow>
        addr_keys K n' = Some (insert (addr_key a) S)) \<and>
     (\<forall>i n l. nk_RouteList K i 0 n = Some l \<longrightarrow>
        distinct (map route_key l) \<and> (\<forall>r \<in> set l. nr_LinkIndex r = i)) \<and>
     (\<forall>r n n' S. nk_RouteDel K r n = (n', True) \<longrightarrow> route_keys K (nr_LinkIndex r) n = Some S \<longrightarrow>
        route_keys K (nr_LinkIndex r) n' = Some (S - {route_key r})) \<and>
     (\<forall>r n n' S. nk_RouteAdd K r n = (n', True) \<longrightarrow> route_keys K (nr_LinkIndex r) n = Some S \<longrightarrow>
        route_keys K (nr_LinkIndex r) n' = Some (insert (route_key r) S))"

lemma kernel_lawsD:
  assumes "kernel_laws K"
  shows "nk_AddrDel K a n = (n', True) \<Longrightarrow> addr_keys K n = Some S \<Longrightarrow> addr_keys K n' = Some (S - {addr_key a})"
    and "nk_AddrAdd K a n = (n', True) \<Longrightarrow> addr_keys K n = Some S \<Longrightarrow> addr_keys K n' = Some (insert (addr_key a) S)"
    and "nr_LinkIndex r = i \<Longrightarrow> nk_RouteDel K r n = (n', True) \<Longrightarrow> route_keys K i n = Some S \<Longrightarrow>
      route_keys K i n' = Some (S - {route_key r})"
    and "nr_LinkIndex r = i \<Longrightarrow> nk_RouteAdd K r n = (n', True) \<Longrightarrow> route_keys K i n = Some S \<Longrightarrow>
      route_keys K i n' = Some (insert (route_key r) S)"
  using assms by (auto simp: kernel_laws_def)

lemma apply_each_False: "snd (apply_each f xs (n, False)) = False"
  by (induction xs arbitrary: n) (auto split: prod.split)

lemma apply_each_ok:
  assumes "apply_each f xs (n, ok) = (n', True)" "keys n = Some S"
    and step: "\<And>x n n' S. x \<in> set xs \<Longrightarrow> f x n = (n', True) \<Longrightarrow> keys n = Some S \<Longrightarrow> keys n' = Some (upd x S)"
  shows "ok \<and> keys n' = Some (fold upd xs S)"
  using assms
proof (induction xs arbitrary: n ok S)
  case (Cons x xs)
  obtain n1 ok1 where f: "f x n = (n1, ok1)"
    by fastforce
  with Cons.prems(1) have run: "apply_each f xs (n1, ok \<and> ok1) = (n', True)"
    by simp
  then have "ok \<and> ok1"
    using apply_each_False [of f xs n1] by (cases "ok \<and> ok1") auto
  with f Cons.prems have "keys n1 = Some (upd x S)"
    by auto
  with Cons.IH [OF run this] Cons.prems(3) \<open>ok \<and> ok1\<close> show ?case by auto
qed simp

lemma fold_remove: "fold (\<lambda>x S. S - {key x}) xs S = S - key ` set xs"
  by (induction xs arbitrary: S) auto

lemma fold_insert_keys: "fold (\<lambda>x S. insert (key x) S) xs S = S \<union> key ` set xs"
  by (induction xs arbitrary: S) auto

lemma diffPeers_same: "diffPeers ps ps = []"
proof -
  have "diffPeers_loop es es = []" for es
    by (induction es) auto
  then show ?thesis by (simp add: diffPeers_def)
qed

lemma diffConfigs_same: "snd (diffConfigs config config) = False"
  by (simp add: diffConfigs_def Let_def diffPeers_same)

lemma alist_of_dom: "(\<exists>r. map_of (alist_of key xs) k = Some r \<and> r \<in> set xs) \<longleftrightarrow> k \<in> key ` set xs"
proof -
  have "(\<exists>r. map_of (alist_of key xs) k = Some r) \<longleftrightarrow> k \<in> key ` set xs"
    using map_of_eq_None_iff [of "alist_of key xs" k] by (metis keys_alist_of not_None_eq)
  then show ?thesis
    by (metis alist_of_entry map_of_SomeD)
qed

lemma diffIPs_result:
  assumes "distinct (map addr_key current)" "diffIPs desired current = (added, deleted)"
  shows "addr_key ` set added = addr_key ` set desired - addr_key ` set current"
    and "deleted = filter (\<lambda>c. addr_key c \<notin> addr_key ` set desired) current"
    and "set added \<subseteq> set desired"
proof -
  obtain m where m: "diff_loop addr_key (\<lambda>_ _. True) current (alist_of addr_key desired) = (m, deleted)"
    "added = sort_key addr_key (map snd m)"
    using assms(2) by (auto simp: diffIPs_def diffIPs_loop_eq split: prod.splits)
  note r = diff_result [OF assms(1) m(1)]
  have dom: "(\<exists>r. map_of (alist_of addr_key desired) k = Some r) \<longleftrightarrow> k \<in> addr_key ` set desired" for k
    using alist_of_dom [of addr_key desired k] by (metis alist_of_entry map_of_SomeD)
  show "addr_key ` set added = addr_key ` set desired - addr_key ` set current"
    unfolding m(2) set_sort r(1) by (simp add: dom del: set_map) blast
  show "deleted = filter (\<lambda>c. addr_key c \<notin> addr_key ` set desired) current"
    using r(4) dom by simp
  show "set added \<subseteq> set desired"
    using r(2) m(2) by simp
qed

lemma diffRoutes_result:
  assumes "distinct (map route_key current)" "diffRoutes desired current = (added, deleted)"
    and "\<forall>r \<in> set desired. nr_LinkIndex r = i" "\<forall>r \<in> set current. nr_LinkIndex r = i"
  shows "route_key ` set added = route_key ` set desired - route_key ` set current"
    and "deleted = filter (\<lambda>c. route_key c \<notin> route_key ` set desired) current"
    and "set added \<subseteq> set desired"
proof -
  let ?same = "\<lambda>r c. nr_LinkIndex r = nr_LinkIndex c"
  obtain m where m: "diff_loop route_key ?same current (alist_of route_key desired) = (m, deleted)"
    "added = sort_key route_key (map snd m)"
    using assms(2) by (auto simp: diffRoutes_def diffRoutes_loop_eq split: prod.splits)
  note r = diff_result [OF assms(1) m(1)]
  have dom: "(\<exists>r. map_of (alist_of route_key desired) k = Some r \<and> nr_LinkIndex r = i) \<longleftrightarrow>
      k \<in> route_key ` set desired" for k
    using alist_of_dom [of route_key desired k] assms(3) by (metis alist_of_entry map_of_SomeD)
  show "route_key ` set added = route_key ` set desired - route_key ` set current"
  proof -
    have "(\<exists>c \<in> set current. route_key c = k \<and>
        (\<exists>r. map_of (alist_of route_key desired) k = Some r \<and> nr_LinkIndex r = nr_LinkIndex c)) \<longleftrightarrow>
        k \<in> route_key ` set current \<and> k \<in> route_key ` set desired" for k
    proof -
      have "(\<exists>c \<in> set current. route_key c = k \<and>
          (\<exists>r. map_of (alist_of route_key desired) k = Some r \<and> nr_LinkIndex r = nr_LinkIndex c)) \<longleftrightarrow>
          (\<exists>c \<in> set current. route_key c = k \<and>
          (\<exists>r. map_of (alist_of route_key desired) k = Some r \<and> nr_LinkIndex r = i))"
        using assms(4) by (intro bex_cong refl) simp
      then show ?thesis
        unfolding dom by blast
    qed
    then show ?thesis
      unfolding m(2) set_sort r(1) by blast
  qed
  show "deleted = filter (\<lambda>c. route_key c \<notin> route_key ` set desired) current"
    unfolding r(4) using dom assms(4) by (intro filter_cong) auto
  show "set added \<subseteq> set desired"
    using r(2) m(2) by simp
qed

lemma reconfigAddresses_ok:
  assumes "kernel_laws K" "reconfigAddresses K addrs e = (e', True)"
  shows "addr_keys K (we_net e') = Some (addr_key ` set addrs)"
proof -
  obtain current added deleted n where run: "nk_AddrList K (we_net e) = Some current"
    "diffIPs addrs current = (added, deleted)"
    "apply_each (nk_AddrAdd K) added (apply_each (nk_AddrDel K) deleted (we_net e, True)) = (n, True)"
    "we_net e' = n"
    using assms(2) by (auto simp: reconfigAddresses_def split: option.splits prod.splits)
  obtain n1 ok1 where del: "apply_each (nk_AddrDel K) deleted (we_net e, True) = (n1, ok1)"
    by fastforce
  have add: "apply_each (nk_AddrAdd K) added (n1, ok1) = (n, True)"
    using run(3) del by simp
  then have "ok1"
    using apply_each_False [of "nk_AddrAdd K" added n1] by (cases ok1) auto
  have start: "addr_keys K (we_net e) = Some (addr_key ` set current)"
    by (simp add: addr_keys_def run(1))
  have "addr_keys K n1 = Some (fold (\<lambda>x S. S - {addr_key x}) deleted (addr_key ` set current))"
    using del start \<open>ok1\<close> kernel_lawsD(1) [OF assms(1)]
    by (intro apply_each_ok [THEN conjunct2]) auto
  then have "addr_keys K n = Some (fold (\<lambda>x S. insert (addr_key x) S) added
      (fold (\<lambda>x S. S - {addr_key x}) deleted (addr_key ` set current)))"
    using kernel_lawsD(2) [OF assms(1)] by (intro apply_each_ok [OF add, THEN conjunct2]) auto
  moreover have "distinct (map addr_key current)"
    using assms(1) run(1) by (simp add: kernel_laws_def)
  note r = diffIPs_result [OF this run(2)]
  have "addr_key ` set current - addr_key ` set deleted \<union> addr_key ` set added = addr_key ` set addrs"
    unfolding r(1) r(2) by (auto simp del: set_map) (metis image_eqI)+
  ultimately show ?thesis
    by (simp add: fold_remove fold_insert_keys run(4))
qed

lemma reconfigRoutes_ok:
  assumes "kernel_laws K" "reconfigRoutes K config e = (e', True)"
    and "nk_RouteList K (we_link e) 0 (we_net e) = Some current"
    and desired: "desired = generateRoutesFromWGConfig config (we_link e) 0"
  shows "route_keys K (we_link e) (we_net e') =
    Some (route_key ` set desired \<union> route_key ` {c \<in> set current. route_exempt c})"
proof -
  let ?i = "we_link e"
  let ?keys = "route_keys K ?i"
  have links: "\<forall>r \<in> set desired. nr_LinkIndex r = ?i" "\<forall>r \<in> set current. nr_LinkIndex r = ?i"
    and dist: "distinct (map route_key current)"
    using assms(1,3) by (auto simp: desired generateRoutesFromWGConfig_def kernel_laws_def)
  obtain added deleted n where run: "diffRoutes desired current = (added, deleted)"
    "apply_each (nk_RouteAdd K) added
       (apply_each (nk_RouteDel K) (filter (\<lambda>d. \<not> route_exempt d) deleted) (we_net e, True)) = (n, True)"
    "we_net e' = n"
    using assms(2,3) desired by (auto simp: reconfigRoutes_def Let_def split: prod.splits)
  note r = diffRoutes_result [OF dist run(1) links]
  let ?del = "filter (\<lambda>d. \<not> route_exempt d) deleted"
  obtain n1 ok1 where del: "apply_each (nk_RouteDel K) ?del (we_net e, True) = (n1, ok1)"
    by fastforce
  have add: "apply_each (nk_RouteAdd K) added (n1, ok1) = (n, True)"
    using run(2) del by simp
  then have "ok1"
    using apply_each_False [of "nk_RouteAdd K" added n1] by (cases ok1) auto
  have start: "?keys (we_net e) = Some (route_key ` set current)"
    by (simp add: route_keys_def assms(3))
  have "\<forall>x \<in> set ?del. nr_LinkIndex x = ?i"
    using links(2) r(2) by auto
  then have "?keys n1 = Some (fold (\<lambda>x S. S - {route_key x}) ?del (route_key ` set current))"
    using del start \<open>ok1\<close> kernel_lawsD(3) [OF assms(1)]
    by (intro apply_each_ok [THEN conjunct2]) auto
  moreover have "\<forall>x \<in> set added. nr_LinkIndex x = ?i"
    using links(1) r(3) by auto
  ultimately have "?keys n = Some (fold (\<lambda>x S. insert (route_key x) S) added
      (fold (\<lambda>x S. S - {route_key x}) ?del (route_key ` set current)))"
    using kernel_lawsD(4) [OF assms(1)] by (intro apply_each_ok [OF add, THEN conjunct2]) auto
  then have "?keys n = Some (route_key ` set current - route_key ` set ?del \<union> route_key ` set added)"
    by (simp add: fold_remove fold_insert_keys)
  moreover have "route_key ` set current - route_key ` set ?del =
      route_key ` {c \<in> set current. route_key c \<in> route_key ` set desired \<or> route_exempt c}"
  proof -
    have "route_key ` set current - route_key ` set ?del = route_key ` (set current - set ?del)"
      using dist r(2) by (intro inj_on_image_set_diff [symmetric, of _ "set current"]) (auto simp: distinct_map)
    also have "set current - set ?del = {c \<in> set current. route_key c \<in> route_key ` set desired \<or> route_exempt c}"
      unfolding r(2) by auto
    finally show ?thesis .
  qed
  moreover have "route_key ` {c \<in> set current. route_key c \<in> route_key ` set desired \<or> route_exempt c} \<union>
      route_key ` set added = route_key ` set desired \<union> route_key ` {c \<in> set current. route_exempt c}"
    unfolding r(1) by blast
  ultimately show ?thesis
    by (simp add: run(3))
qed

section \<open>Properties\<close>

text \<open>
  C4. \<open>diffPeers\<close>, for peers with different keys: what it lists, applied to the current
  peers, gives a peer for exactly the expected keys, and each agrees with the expected one in
  everything the code compares; the list has one entry per key in the order of the keys; and
  it is minimal: an entry is a current peer that is not expected, an expected one that is new,
  or an expected one that differs from the current one.
\<close>

theorem diffPeers_reaches_expected:
  assumes "distinct (map wp_PublicKey expected)" "distinct (map wp_PublicKey current)"
    and "\<forall>e \<in> set expected. \<not> wp_Remove e"
  shows "(\<forall>k. rel_option (\<lambda>e p. \<not> peer_differs e p) (peers_of expected k)
              (apply_peers (diffPeers expected current) (peers_of current) k)) \<and>
    sorted_wrt (<) (map peer_key (diffPeers expected current)) \<and>
    (\<forall>p \<in> set (diffPeers expected current).
       (\<exists>c \<in> set current. p = c\<lparr>wp_Remove := True\<rparr> \<and> wp_PublicKey c \<notin> wp_PublicKey ` set expected) \<or>
       (p \<in> set expected \<and> wp_PublicKey p \<notin> wp_PublicKey ` set current) \<or>
       (\<exists>e \<in> set expected. \<exists>c \<in> set current. p = e\<lparr>wp_ReplaceAllowedIPs := True\<rparr> \<and>
          wp_PublicKey c = wp_PublicKey e \<and> peer_differs e c))"
proof (intro conjI allI ballI)
  fix p assume "p \<in> set (diffPeers expected current)"
  then show "(\<exists>c \<in> set current. p = c\<lparr>wp_Remove := True\<rparr> \<and> wp_PublicKey c \<notin> wp_PublicKey ` set expected) \<or>
       (p \<in> set expected \<and> wp_PublicKey p \<notin> wp_PublicKey ` set current) \<or>
       (\<exists>e \<in> set expected. \<exists>c \<in> set current. p = e\<lparr>wp_ReplaceAllowedIPs := True\<rparr> \<and>
          wp_PublicKey c = wp_PublicKey e \<and> peer_differs e c)"
    unfolding diffPeers_members(1) [OF assms(1,2)] peer_change_def
  proof (elim disjE)
    assume "removal (set expected) (set current) p"
    then have "\<exists>c \<in> set current. p = c\<lparr>wp_Remove := True\<rparr> \<and> wp_PublicKey c \<notin> wp_PublicKey ` set expected"
      unfolding removal_def peer_key_eq image_iff by metis
    then show ?thesis by (rule disjI1)
  next
    assume "addition (set expected) (set current) p"
    then have "p \<in> set expected \<and> wp_PublicKey p \<notin> wp_PublicKey ` set current"
      unfolding addition_def peer_key_eq image_iff by metis
    then show ?thesis by (intro disjI2 disjI1)
  next
    assume "replacement (set expected) (set current) p"
    then have "\<exists>e \<in> set expected. \<exists>c \<in> set current. p = e\<lparr>wp_ReplaceAllowedIPs := True\<rparr> \<and>
        wp_PublicKey c = wp_PublicKey e \<and> peer_differs e c"
      unfolding replacement_def peer_key_eq by blast
    then show ?thesis by (intro disjI2)
  qed
qed (simp_all add: diffPeers_effect diffPeers_members assms)

definition example_wg_peer :: "byte \<Rightarrow> wg_peer" where
  "example_wg_peer b = \<lparr>wp_PublicKey = replicate 32 b, wp_Remove = False, wp_PresharedKey = None,
     wp_Endpoint = Some (AddrPort (IP4 1) 7), wp_PersistentKeepaliveInterval = Some (30 * second),
     wp_ReplaceAllowedIPs = True, wp_AllowedIPs = [IPNet (IP4 (ucast b)) 32]\<rparr>"

theorem diffPeers_reaches_expected_witness:
  "rel_option (\<lambda>e p. \<not> peer_differs e p) (Some (example_wg_peer 2))
     (apply_peers (diffPeers [example_wg_peer 2, example_wg_peer 3] [example_wg_peer 1, example_wg_peer 3])
        (peers_of [example_wg_peer 1, example_wg_peer 3]) (replicate 32 2))"
proof -
  let ?E = "[example_wg_peer 2, example_wg_peer 3]" and ?C = "[example_wg_peer 1, example_wg_peer 3]"
  have "distinct (map wp_PublicKey ?E)" "distinct (map wp_PublicKey ?C)" "\<forall>e \<in> set ?E. \<not> wp_Remove e"
    by (simp_all add: example_wg_peer_def)
  note diff = diffPeers_reaches_expected [OF this, THEN conjunct1, THEN spec, of "replicate 32 2"]
  have "peers_of ?E (replicate 32 2) = Some (example_wg_peer 2)"
    by (simp add: peers_of_def example_wg_peer_def)
  with diff show ?thesis by (simp only:)
qed

text \<open>
  Addresses converge: if \<open>reconfigAddresses\<close> reports no error, the interface has exactly
  the wanted addresses, whatever it had before, and a second call changes nothing.
\<close>

lemma addresses_converge:
  assumes "kernel_laws K" "reconfigAddresses K addrs e = (e', True)"
  shows "addr_keys K (we_net e') = Some (addr_key ` set addrs) \<and> reconfigAddresses K addrs e' = (e', True)"
proof
  show keys: "addr_keys K (we_net e') = Some (addr_key ` set addrs)"
    by (rule reconfigAddresses_ok [OF assms])
  then obtain current where c: "nk_AddrList K (we_net e') = Some current"
    "addr_key ` set current = addr_key ` set addrs"
    by (auto simp: addr_keys_def)
  obtain added deleted where d: "diffIPs addrs current = (added, deleted)"
    by fastforce
  have "distinct (map addr_key current)"
    using assms(1) c(1) by (simp add: kernel_laws_def)
  from diffIPs_result [OF this d] have "added = []" "deleted = []"
    using c(2) by (auto simp: filter_empty_conv)
  with c(1) d show "reconfigAddresses K addrs e' = (e', True)"
    by (simp add: reconfigAddresses_def)
qed

text \<open>A concrete interface for the witnesses: the addresses and the routes it has.\<close>

definition example_kernel :: "(nl_addr list \<times> nl_route list) kernel" where
  "example_kernel =
     \<lparr>nk_AddrList = (\<lambda>n. Some (map snd (alist_of addr_key (fst n)))),
      nk_AddrDel = (\<lambda>a n. (apfst (filter (\<lambda>x. addr_key x \<noteq> addr_key a)) n, True)),
      nk_AddrAdd = (\<lambda>a n. (apfst (\<lambda>xs. xs @ [a]) n, True)),
      nk_RouteList = (\<lambda>i t n. Some (map snd (alist_of route_key (filter (\<lambda>r. nr_LinkIndex r = i) (snd n))))),
      nk_RouteDel = (\<lambda>r n. (apsnd (filter (\<lambda>x. \<not> (route_key x = route_key r \<and>
                        nr_LinkIndex x = nr_LinkIndex r))) n, True)),
      nk_RouteAdd = (\<lambda>r n. (apsnd (\<lambda>xs. xs @ [r]) n, True)),
      nk_ConfigureDevice = (\<lambda>c n. (n, wc_ListenPort c \<noteq> None))\<rparr>"

lemma alist_of_values: "map key (map snd (alist_of key xs)) = map fst (alist_of key xs)"
  by (auto dest: alist_of_entry)

lemma alist_of_value_keys: "key ` set (map snd (alist_of key xs)) = key ` set xs"
  using alist_of_values [of key xs] keys_alist_of [of key xs] by (metis list.set_map)

lemma example_kernel_laws: "kernel_laws example_kernel"
proof -
  have addr: "addr_keys example_kernel n = Some (addr_key ` set (fst n))" for n
    by (simp add: addr_keys_def example_kernel_def alist_of_value_keys del: set_map)
  have route: "route_keys example_kernel i n = Some (route_key ` {r \<in> set (snd n). nr_LinkIndex r = i})" for i n
    by (simp add: route_keys_def example_kernel_def alist_of_value_keys del: set_map)
  show ?thesis
    unfolding kernel_laws_def addr route
    by (auto simp: example_kernel_def alist_of_values distinct_alist_of simp del: map_map dest: alist_of_entry)
qed

definition example_engine :: "(nl_addr list \<times> nl_route list) wg_engine" where
  "example_engine = \<lparr>we_link = 5,
     we_prevConfig = \<lparr>wc_PrivateKey = None, wc_ListenPort = None, wc_FirewallMark = None,
                      wc_ReplacePeers = False, wc_Peers = []\<rparr>,
     we_net = ([\<lparr>na_IPNet = Some (IPNet (IP4 1) 32)\<rparr>],
               [\<lparr>nr_Dst = Some (IPNet (IP4 9) 32), nr_LinkIndex = 5, nr_Table = 0, nr_Scope = 254\<rparr>])\<rparr>"

definition example_config :: wg_config where
  "example_config = \<lparr>wc_PrivateKey = Some (replicate 32 4), wc_ListenPort = Some 51820, wc_FirewallMark = None,
     wc_ReplacePeers = True, wc_Peers = [example_wg_peer 2, example_wg_peer 3]\<rparr>"

lemma apply_each_succeeds: "(\<And>x n. snd (f x n)) \<Longrightarrow> snd (apply_each f xs s) = snd s"
proof (induction xs arbitrary: s)
  case (Cons x xs)
  then show ?case
    by (cases s) (simp add: case_prod_unfold)
qed simp

lemma example_kernel_succeeds:
  "snd (nk_AddrDel example_kernel a n)" "snd (nk_AddrAdd example_kernel a n)"
  "snd (nk_RouteDel example_kernel r n)" "snd (nk_RouteAdd example_kernel r n)"
  "nk_AddrList example_kernel n \<noteq> None" "nk_RouteList example_kernel i 0 n \<noteq> None"
  by (simp_all add: example_kernel_def)


text \<open>
  A failed \<open>ConfigureDevice\<close> is retried and a successful one is not repeated: after a
  failure the remembered configuration is the old one and neither addresses nor routes have been
  touched; after a success the same configuration makes no further call.
\<close>

lemma wireguard_retry:
  "(nk_ConfigureDevice K (fst (diffConfigs config (we_prevConfig e))) (we_net e) = (n, False) \<and>
      snd (diffConfigs config (we_prevConfig e)) \<longrightarrow>
      wg_Reconfig K config addrs e = (e\<lparr>we_net := n\<rparr>, False)) \<and>
   (reconfigWireguard K config e = (e', True) \<longrightarrow>
      reconfigWireguard K config e' = (e', True) \<and>
      (we_prevConfig e' = config \<or> e' = e \<and> snd (diffConfigs config (we_prevConfig e)) = False))"
  using diffConfigs_same [of config]
  by (cases "diffConfigs config (we_prevConfig e)")
    (auto simp: wg_Reconfig_def reconfigWireguard_def split: prod.splits if_splits bool.splits)


end
