(* ===== verification/TetraEngine.thy ===== *)
theory TetraEngine
  imports Disco WgEngine
begin

text \<open>
  \<open>tetraengine\<close>: from the configuration of a node to its disco peers and its WireGuard
  configuration, the announcement of the node's own data, and the trigger that makes one
  goroutine reconfigure. WireGuard's key functions and the text of a netlink address are
  parameters, the record \<open>lib\<close>.
\<close>

section \<open>Data\<close>

record peer_config =
  pc_Endpoints :: "string list"
  pc_PublicKey :: string
  pc_PublicDiscoKey :: string
  pc_Addresses :: "string list"
  pc_AllowedIPs :: "string list"

record te_config =
  tc_PrivateKey :: string
  tc_ListenPort :: int
  tc_STUNEndpoint :: string
  tc_Addresses :: "nl_addr list"
  tc_Peers :: "peer_config list"

record lib =
  lib_ParseKey :: "string \<Rightarrow> key option"
  lib_PublicKey :: "key \<Rightarrow> key"
  lib_addr_String :: "nl_addr \<Rightarrow> string"

record tetra_engine =
  te_discoPrivateKey :: key
  te_currentConfig :: te_config
  te_endpoints :: "addr_port list option"
  te_globalEndpoints :: "addr_port list option"
  te_trigger :: bool
  te_closed :: bool
  te_latestDiscoStatusHash :: "string option"

section \<open>Conversion of peers\<close>

fun parse_all :: "('a \<Rightarrow> 'b option) \<Rightarrow> 'a list \<Rightarrow> 'b list option" where
  "parse_all f [] = Some []"
| "parse_all f (x # xs) =
     (case f x of None \<Rightarrow> None
      | Some y \<Rightarrow> (case parse_all f xs of None \<Rightarrow> None | Some ys \<Rightarrow> Some (y # ys)))"

definition toWGConfig :: "lib \<Rightarrow> peer_config \<Rightarrow> wg_peer option" where
  "toWGConfig L pc =
     (case parse_all ParsePrefix (pc_AllowedIPs pc) of
        None \<Rightarrow> None
      | Some prefixes \<Rightarrow>
          (case lib_ParseKey L (pc_PublicKey pc) of
             None \<Rightarrow> None
           | Some pubKey \<Rightarrow>
               Some \<lparr>wp_PublicKey = pubKey, wp_Remove = False, wp_PresharedKey = None,
                     wp_Endpoint = None, wp_PersistentKeepaliveInterval = Some (30 * second),
                     wp_ReplaceAllowedIPs = True,
                     wp_AllowedIPs = map (\<lambda>p. IPNet (pre_addr p) (pre_bits p)) prefixes\<rparr>))"

definition toAddrPrefix :: "ip_addr \<Rightarrow> prefix" where
  "toAddrPrefix addr =
     (let addr = unmap addr; bits = (if is_6 addr then 128 else 32) in Prefix addr bits)"

section \<open>notify\<close>

text \<open>The package has a copy of the difference of addresses, which the program does not call.\<close>

definition te_diffIPs :: "nl_addr list \<Rightarrow> nl_addr list \<Rightarrow> nl_addr list \<times> nl_addr list" where
  "te_diffIPs desired current = WgEngine.diffIPs desired current"

text \<open>
  What \<open>notify\<close> hands to the callback, \<open>None\<close> where it returns early; an address without a
  network panics.
\<close>

definition notify_endpoints :: "string list \<Rightarrow> addr_port list option \<Rightarrow> string list" where
  "notify_endpoints addressSets eps =
     (case eps of None \<Rightarrow> []
      | Some aps \<Rightarrow> map addr_port_String (filter (\<lambda>e. ip_String (ap_addr e) \<notin> set addressSets) aps))"

definition notify :: "nacl_box \<Rightarrow> lib \<Rightarrow> tetra_engine \<Rightarrow> peer_config option outcome" where
  "notify B L e =
     (let cfg = te_currentConfig e
      in case lib_ParseKey L (tc_PrivateKey cfg) of
           None \<Rightarrow> Returns None
         | Some privKey \<Rightarrow>
             if list_ex (\<lambda>a. na_IPNet a = None) (tc_Addresses cfg) then Panics NilDereference
             else
               let ips = map (\<lambda>a. net_IP (the (na_IPNet a))) (tc_Addresses cfg);
                   addressSets = map (\<lambda>ip. ip_String (unmap ip)) ips
               in Returns (Some
                    \<lparr>pc_Endpoints = notify_endpoints addressSets (te_endpoints e),
                     pc_PublicKey = EncodeToString (lib_PublicKey L privKey),
                     pc_PublicDiscoKey = key_String (key_Public B (te_discoPrivateKey e)),
                     pc_Addresses = map (lib_addr_String L) (tc_Addresses cfg),
                     pc_AllowedIPs = map (\<lambda>ip. prefix_String (toAddrPrefix ip)) ips\<rparr>))"

definition endpointsCallback :: "addr_port list \<Rightarrow> addr_port list \<Rightarrow> tetra_engine \<Rightarrow> tetra_engine" where
  "endpointsCallback endpoints globalEndpoints e =
     e\<lparr>te_endpoints := Some endpoints, te_globalEndpoints := Some globalEndpoints\<rparr>"

section \<open>reconfig\<close>

text \<open>The endpoints of one peer: those that parse, without those behind the node's own NAT.\<close>

definition peer_endpoints :: "ip_addr list \<Rightarrow> string list \<Rightarrow> addr_port list" where
  "peer_endpoints globalAddresses eps =
     filter (\<lambda>ap. ap_addr ap \<notin> set globalAddresses) (List.map_filter ParseAddrPort eps)"

definition disco_peers :: "ip_addr list \<Rightarrow> peer_config list \<Rightarrow> (key \<times> addr_port list) list" where
  "disco_peers globalAddresses ps =
     fold (\<lambda>peer m.
         case key_Parse (pc_PublicDiscoKey peer) of
           Inl _ \<Rightarrow> m
         | Inr pubKey \<Rightarrow> AList.update pubKey (peer_endpoints globalAddresses (pc_Endpoints peer)) m)
       ps []"

definition reconfigDisco :: "'p peer_ops \<Rightarrow> te_config \<Rightarrow> tetra_engine \<Rightarrow> 'p disco \<Rightarrow> 'p disco outcome" where
  "reconfigDisco ops cfg e d =
     (let globalAddresses = (case te_globalEndpoints e of None \<Rightarrow> [] | Some eps \<Rightarrow> map ap_addr eps)
      in SetPeers ops (disco_peers globalAddresses (tc_Peers cfg)) d)"

definition getDiscoStatus :: "(key \<times> peer_status) list \<Rightarrow> string \<Rightarrow> peer_status option" where
  "getDiscoStatus discoStatuses pubKey =
     (case key_Parse pubKey of Inl _ \<Rightarrow> None | Inr discoPubKey \<Rightarrow> map_of discoStatuses discoPubKey)"

definition wg_peer_of :: "lib \<Rightarrow> (key \<times> peer_status) list \<Rightarrow> peer_config \<Rightarrow> wg_peer option" where
  "wg_peer_of L discoStatuses peer =
     (case toWGConfig L peer of
        None \<Rightarrow> None
      | Some wcfg \<Rightarrow>
          (case getDiscoStatus discoStatuses (pc_PublicDiscoKey peer) of
             None \<Rightarrow> Some wcfg
           | Some status \<Rightarrow>
               Some (if addr_port_is_valid (ps_ActiveEndpoint status)
                     then wcfg\<lparr>wp_Endpoint := Some (ps_ActiveEndpoint status)\<rparr> else wcfg)))"

definition toWGDevice :: "lib \<Rightarrow> (key \<times> peer_status) list \<Rightarrow> te_config \<Rightarrow> key \<Rightarrow> wg_config" where
  "toWGDevice L discoStatuses cfg privKey =
     \<lparr>wc_PrivateKey = Some privKey, wc_ListenPort = Some (tc_ListenPort cfg), wc_FirewallMark = None,
      wc_ReplacePeers = True, wc_Peers = List.map_filter (wg_peer_of L discoStatuses) (tc_Peers cfg)\<rparr>"

text \<open>The last component says whether the code returns \<open>nil\<close>.\<close>

definition reconfig :: "lib \<Rightarrow> 'p peer_ops \<Rightarrow> 'n kernel \<Rightarrow> tetra_engine \<Rightarrow> 'p disco \<Rightarrow> 'n wg_engine
    \<Rightarrow> ('p disco \<times> 'n wg_engine \<times> bool) outcome" where
  "reconfig L ops K e d w =
     (let cfg = te_currentConfig e
      in case lib_ParseKey L (tc_PrivateKey cfg) of
           None \<Rightarrow> Returns (d, w, False)
         | Some privKey \<Rightarrow>
             bind_outcome (reconfigDisco ops cfg e d)
               (\<lambda>d1. case wg_Reconfig K (toWGDevice L (GetAllStatuses ops d1) cfg privKey)
                             (tc_Addresses cfg) w of
                       (w1, ok) \<Rightarrow> Returns (d1, w1, ok)))"

section \<open>The trigger\<close>

text \<open>The channel has room for one token; a send on the closed channel panics.\<close>

definition triggerReconfig :: "tetra_engine \<Rightarrow> tetra_engine outcome" where
  "triggerReconfig e =
     (if te_closed e then Panics SendOnClosedChannel else Returns (e\<lparr>te_trigger := True\<rparr>))"

definition te_Reconfig :: "te_config \<Rightarrow> tetra_engine \<Rightarrow> tetra_engine outcome" where
  "te_Reconfig cfg e = triggerReconfig (e\<lparr>te_currentConfig := cfg\<rparr>)"

text \<open>
  \<open>json.Marshal\<close> of the sorted pairs. A string is quoted with the escapes of \<open>encoding/json\<close>
  for ASCII; an empty slice that was never appended to is \<open>null\<close>.
\<close>

definition json_char :: "char \<Rightarrow> string" where
  "json_char c =
     (let n = of_char c :: nat
      in if c = CHR 0x22 \<or> c = CHR 0x5C then [CHR 0x5C, c]
         else if c = CHR 0x0A then [CHR 0x5C, CHR ''n'']
         else if c = CHR 0x0D then [CHR 0x5C, CHR ''r'']
         else if c = CHR 0x09 then [CHR 0x5C, CHR ''t'']
         else if n < 32 \<or> c \<in> set ''<>&''
         then [CHR 0x5C] @ ''u00'' @ (if n < 16 then ''0'' else []) @ hex_String n
         else [c])"

definition json_String :: "string \<Rightarrow> string" where
  "json_String s = [CHR 0x22] @ concat (map json_char s) @ [CHR 0x22]"

fun json_list :: "string list \<Rightarrow> string" where
  "json_list [] = ''null''"
| "json_list (x # xs) = ''['' @ x @ concat (map (\<lambda>y. '','' @ y) xs) @ '']''"

definition status_item :: "string \<times> string \<Rightarrow> string" where
  "status_item p = ''{'' @ json_String ''PubKey'' @ '':'' @ json_String (fst p) @ '','' @
     json_String ''Endpoint'' @ '':'' @ json_String (snd p) @ ''}''"

definition status_hash :: "(key \<times> peer_status) list \<Rightarrow> string" where
  "status_hash statuses =
     json_list (map status_item
       (sort_key fst (map (\<lambda>(k, v). (key_String k, addr_port_String (ps_ActiveEndpoint v))) statuses)))"

definition hasDiscoStatusUpdate :: "(key \<times> peer_status) list \<Rightarrow> tetra_engine \<Rightarrow> tetra_engine \<times> bool" where
  "hasDiscoStatusUpdate statuses e =
     (let hash = status_hash statuses
      in if te_latestDiscoStatusHash e \<noteq> Some hash
         then (e\<lparr>te_latestDiscoStatusHash := Some hash\<rparr>, True)
         else (e, False))"

definition discoStatusCallback :: "(key \<times> peer_status) list \<Rightarrow> tetra_engine \<Rightarrow> tetra_engine outcome" where
  "discoStatusCallback statuses e =
     (case hasDiscoStatusUpdate statuses e of
        (e1, update) \<Rightarrow> if update then triggerReconfig e1 else Returns e1)"

definition te_Close :: "tetra_engine \<Rightarrow> tetra_engine outcome" where
  "te_Close e = (if te_closed e then Panics CloseOfClosedChannel else Returns (e\<lparr>te_closed := True\<rparr>))"

text \<open>\<open>init\<close> stores the configuration and triggers once before the goroutine starts.\<close>

definition init_engine :: "key \<Rightarrow> te_config \<Rightarrow> tetra_engine" where
  "init_engine discoPrivateKey config =
     \<lparr>te_discoPrivateKey = discoPrivateKey, te_currentConfig = config, te_endpoints = None,
      te_globalEndpoints = None, te_trigger = True, te_closed = False,
      te_latestDiscoStatusHash = None\<rparr>"

section \<open>The reconfiguration goroutine\<close>

text \<open>
  \<open>runReconfig\<close> takes a token, and \<open>reconfig\<close> then loads the current configuration; callers of
  \<open>Reconfig\<close> store first and trigger afterwards (\<open>rc_storing\<close> counts those between the two).
  \<open>rc_applied\<close> is the configuration of the last \<open>reconfig\<close> that ended.
\<close>

datatype reconfig_pc = RIdle | RStarted | RLoaded te_config

record reconfig_sys =
  rc_engine :: tetra_engine
  rc_storing :: nat
  rc_pc :: reconfig_pc
  rc_applied :: "te_config option"

inductive reconfig_step :: "reconfig_sys \<Rightarrow> reconfig_sys \<Rightarrow> bool" where
  store_config: "reconfig_step s (s\<lparr>rc_engine := (rc_engine s)\<lparr>te_currentConfig := cfg\<rparr>,
    rc_storing := rc_storing s + 1\<rparr>)"
| trigger: "rc_storing s = Suc n \<Longrightarrow> triggerReconfig (rc_engine s) = Returns e \<Longrightarrow>
    reconfig_step s (s\<lparr>rc_engine := e, rc_storing := n\<rparr>)"
| status: "discoStatusCallback statuses (rc_engine s) = Returns e \<Longrightarrow>
    reconfig_step s (s\<lparr>rc_engine := e\<rparr>)"
| endpoints: "reconfig_step s (s\<lparr>rc_engine := endpointsCallback eps geps (rc_engine s)\<rparr>)"
| start: "rc_pc s = RIdle \<Longrightarrow> te_trigger (rc_engine s) \<Longrightarrow>
    reconfig_step s (s\<lparr>rc_engine := (rc_engine s)\<lparr>te_trigger := False\<rparr>, rc_pc := RStarted\<rparr>)"
| load: "rc_pc s = RStarted \<Longrightarrow>
    reconfig_step s (s\<lparr>rc_pc := RLoaded (te_currentConfig (rc_engine s))\<rparr>)"
| finish: "rc_pc s = RLoaded cfg \<Longrightarrow> reconfig_step s (s\<lparr>rc_pc := RIdle, rc_applied := Some cfg\<rparr>)"

inductive reconfig_reachable :: "reconfig_sys \<Rightarrow> bool" where
  init: "reconfig_reachable \<lparr>rc_engine = init_engine key cfg, rc_storing = 0, rc_pc = RIdle, rc_applied = None\<rparr>"
| step: "reconfig_reachable s \<Longrightarrow> reconfig_step s s' \<Longrightarrow> reconfig_reachable s'"

section \<open>Lemmas\<close>

definition reconfig_inv :: "reconfig_sys \<Rightarrow> bool" where
  "reconfig_inv s \<longleftrightarrow>
     0 < rc_storing s \<or> te_trigger (rc_engine s) \<or> rc_pc s = RStarted \<or>
     (rc_pc s = RIdle \<and> rc_applied s = Some (te_currentConfig (rc_engine s))) \<or>
     rc_pc s = RLoaded (te_currentConfig (rc_engine s))"

lemma triggerReconfig_effect: "triggerReconfig e = Returns e' \<Longrightarrow> e' = e\<lparr>te_trigger := True\<rparr>"
  by (auto simp: triggerReconfig_def split: if_splits)

lemma discoStatusCallback_effect:
  "discoStatusCallback statuses e = Returns e' \<Longrightarrow>
     te_currentConfig e' = te_currentConfig e \<and> (te_trigger e \<longrightarrow> te_trigger e')"
  by (auto simp: discoStatusCallback_def hasDiscoStatusUpdate_def Let_def split: if_splits
      dest!: triggerReconfig_effect)

lemma reconfig_inv_step: "reconfig_step s s' \<Longrightarrow> reconfig_inv s \<Longrightarrow> reconfig_inv s'"
proof (induction rule: reconfig_step.induct)
  case (trigger s n e)
  then show ?case
    by (auto simp: reconfig_inv_def dest: triggerReconfig_effect)
next
  case (status statuses s e)
  then show ?case
    by (auto simp: reconfig_inv_def dest: discoStatusCallback_effect)
qed (auto simp: reconfig_inv_def endpointsCallback_def)

lemma reconfig_reachable_inv: "reconfig_reachable s \<Longrightarrow> reconfig_inv s"
proof (induction rule: reconfig_reachable.induct)
  case (init key cfg)
  show ?case by (simp add: reconfig_inv_def init_engine_def)
qed (rule reconfig_inv_step)

lemma parse_all_map: "(\<And>x. x \<in> set xs \<Longrightarrow> f (g x) = Some (h x)) \<Longrightarrow> parse_all f (map g xs) = Some (map h xs)"
  by (induction xs) auto

lemma set_map_filter: "set (List.map_filter f xs) = {y. \<exists>x \<in> set xs. f x = Some y}"
  by (auto simp: List.map_filter_def image_iff) force+

lemma disco_peers_loop:
  "distinct (map fst m) \<Longrightarrow>
   let m' = fold (\<lambda>peer m. case key_Parse (pc_PublicDiscoKey peer) of
           Inl _ \<Rightarrow> m
         | Inr pubKey \<Rightarrow> AList.update pubKey (peer_endpoints gs (pc_Endpoints peer)) m) ps m
   in distinct (map fst m') \<and>
      fst ` set m' = fst ` set m \<union> {k. \<exists>p \<in> set ps. key_Parse (pc_PublicDiscoKey p) = Inr k} \<and>
      (\<forall>(k, eps) \<in> set m'. (k, eps) \<in> set m \<or>
         (\<exists>p \<in> set ps. key_Parse (pc_PublicDiscoKey p) = Inr k \<and> eps = peer_endpoints gs (pc_Endpoints p)))"
proof (induction ps arbitrary: m)
  case (Cons p ps)
  show ?case
  proof (cases "key_Parse (pc_PublicDiscoKey p)")
    case (Inl e)
    with Cons show ?thesis by (auto simp: Let_def)
  next
    case (Inr k)
    let ?m = "AList.update k (peer_endpoints gs (pc_Endpoints p)) m"
    have sub: "set ?m \<subseteq> insert (k, peer_endpoints gs (pc_Endpoints p)) (set m)"
      by (induction m) auto
    have "distinct (map fst ?m)"
      using Cons.prems by (simp add: distinct_update)
    note IH = Cons.IH [OF this, unfolded Let_def]
    show ?thesis
      unfolding Let_def fold_Cons o_apply Inr sum.case
    proof (intro conjI)
      show "distinct (map fst (fold (\<lambda>peer m. case key_Parse (pc_PublicDiscoKey peer) of
           Inl _ \<Rightarrow> m | Inr pubKey \<Rightarrow> AList.update pubKey (peer_endpoints gs (pc_Endpoints peer)) m) ps ?m))"
        using IH by blast
    qed (use IH sub Inr in \<open>auto simp: dom_update\<close>)
  qed
qed (auto simp: Let_def)

lemma disco_peers_spec:
  "distinct (map fst (disco_peers gs ps)) \<and>
   fst ` set (disco_peers gs ps) = {k. \<exists>p \<in> set ps. key_Parse (pc_PublicDiscoKey p) = Inr k} \<and>
   (\<forall>(k, eps) \<in> set (disco_peers gs ps).
      \<exists>p \<in> set ps. key_Parse (pc_PublicDiscoKey p) = Inr k \<and> eps = peer_endpoints gs (pc_Endpoints p))"
  using disco_peers_loop [of "[]" gs ps] by (simp add: Let_def disco_peers_def)

lemma set_peer_endpoints:
  "set (peer_endpoints gs eps) = {ap. \<exists>s \<in> set eps. ParseAddrPort s = Some ap \<and> ap_addr ap \<notin> set gs}"
  by (auto simp: peer_endpoints_def set_map_filter)

text \<open>The text that \<open>json.Marshal\<close> gives the statuses determines them.\<close>

lemma digit_char_inj: "a < 16 \<Longrightarrow> b < 16 \<Longrightarrow> digit_char a = digit_char b \<Longrightarrow> a = b"
  by (auto simp: digit_char_def split: if_splits dest!: arg_cong [where f = "of_char :: _ \<Rightarrow> nat"])

lemma digit_char_0: "digit_char 0 = CHR ''0''"
  by code_simp

lemma of_char_less: "(of_char c :: nat) < 256"
  by (metis of_char_mod_256 mod_less_divisor zero_less_numeral)

lemma json_u_digits:
  "n < 256 \<Longrightarrow> (if n < 16 then ''0'' else []) @ hex_String n = [digit_char (n div 16), digit_char (n mod 16)]"
  by (auto simp: hex_String_def digits_in_rec digit_char_0)

lemma json_char_cases:
  obtains (plain) "json_char c = [c]" "c \<noteq> CHR 0x22" "c \<noteq> CHR 0x5C"
  | (short) d where "json_char c = [CHR 0x5C, d]" "d \<in> {CHR 0x22, CHR 0x5C, CHR ''n'', CHR ''r'', CHR ''t''}"
      "c = (if d = CHR ''n'' then CHR 0x0A else if d = CHR ''r'' then CHR 0x0D
            else if d = CHR ''t'' then CHR 0x09 else d)"
  | (long) "json_char c = [CHR 0x5C, CHR ''u'', CHR ''0'', CHR ''0'',
      digit_char (of_char c div 16), digit_char (of_char c mod 16)]"
proof -
  have n: "(of_char c :: nat) < 256"
    by (rule of_char_less)
  consider "c = CHR 0x22 \<or> c = CHR 0x5C" | "c = CHR 0x0A" | "c = CHR 0x0D" | "c = CHR 0x09"
    | "c \<notin> {CHR 0x22, CHR 0x5C, CHR 0x0A, CHR 0x0D, CHR 0x09}" "(of_char c :: nat) < 32 \<or> c \<in> set ''<>&''"
    | "c \<notin> {CHR 0x22, CHR 0x5C, CHR 0x0A, CHR 0x0D, CHR 0x09}" "\<not> ((of_char c :: nat) < 32 \<or> c \<in> set ''<>&'')"
    by auto
  then show ?thesis
  proof cases
    case 1
    then show ?thesis by (intro short [of c]) (auto simp: json_char_def)
  next
    case 5
    then have "json_char c = [CHR 0x5C, CHR ''u'', CHR ''0'', CHR ''0''] @
        (if (of_char c :: nat) < 16 then ''0'' else []) @ hex_String (of_char c)"
      by (simp add: json_char_def Let_def del: set_simps)
    then show ?thesis
      by (intro long) (simp only: json_u_digits [OF n] append.simps)
  next
    case 6
    then show ?thesis by (intro plain) (auto simp: json_char_def Let_def)
  qed (auto intro: short [of "CHR ''n''"] short [of "CHR ''r''"] short [of "CHR ''t''"] simp: json_char_def)
qed

lemma json_char_inj:
  assumes "json_char c @ s = json_char d @ t"
  shows "c = d \<and> s = t"
proof -
  have long: "c = d" if "digit_char (of_char c div 16) = digit_char (of_char d div 16)"
    "digit_char (of_char c mod 16) = digit_char (of_char d mod 16)"
  proof -
    have "(of_char c :: nat) < 256" "(of_char d :: nat) < 256"
      using of_char_less by simp_all
    then have "(of_char c :: nat) div 16 = of_char d div 16" "(of_char c :: nat) mod 16 = of_char d mod 16"
      using that by (auto intro!: digit_char_inj simp: less_mult_imp_div_less)
    then have "(of_char c :: nat) = of_char d"
      by (metis div_mult_mod_eq)
    then show ?thesis by (simp add: of_char_eq_iff)
  qed
  show ?thesis
    by (cases c rule: json_char_cases; cases d rule: json_char_cases) (use assms long in auto)
qed

lemma json_char_start: "json_char c @ s \<noteq> CHR 0x22 # t"
  by (cases c rule: json_char_cases) auto

lemma json_String_inj: "json_String s @ t = json_String s' @ t' \<Longrightarrow> s = s' \<and> t = t'"
proof -
  have "concat (map json_char s) @ CHR 0x22 # t = concat (map json_char s') @ CHR 0x22 # t' \<Longrightarrow> s = s' \<and> t = t'"
  proof (induction s arbitrary: s')
    case Nil
    then show ?case
      by (cases s') (use json_char_start in \<open>auto simp: eq_commute [of "CHR 0x22 # t"]\<close>)
  next
    case (Cons c s)
    show ?case
    proof (cases s')
      case Nil
      with Cons.prems show ?thesis by (simp add: json_char_start)
    next
      case (Cons c' s'')
      with Cons.prems json_char_inj [of c "concat (map json_char s) @ CHR 0x22 # t" c'] Cons.IH
      show ?thesis by auto
    qed
  qed
  then show "json_String s @ t = json_String s' @ t' \<Longrightarrow> s = s' \<and> t = t'"
    by (simp add: json_String_def)
qed

lemma status_item_inj: "status_item p @ t = status_item p' @ t' \<Longrightarrow> p = p' \<and> t = t'"
proof -
  assume "status_item p @ t = status_item p' @ t'"
  then have "json_String (fst p) @ '','' @ json_String ''Endpoint'' @ '':'' @ json_String (snd p) @ ''}'' @ t
      = json_String (fst p') @ '','' @ json_String ''Endpoint'' @ '':'' @ json_String (snd p') @ ''}'' @ t'"
    by (simp add: status_item_def)
  note fst = json_String_inj [OF this]
  then have "json_String (snd p) @ ''}'' @ t = json_String (snd p') @ ''}'' @ t'"
    by simp
  from json_String_inj [OF this] fst show ?thesis
    by (simp add: prod_eq_iff)
qed

lemma status_items_inj:
  "concat (map (\<lambda>p. '','' @ status_item p) ps) @ '']'' = concat (map (\<lambda>p. '','' @ status_item p) qs) @ '']'' \<Longrightarrow> ps = qs"
proof (induction ps arbitrary: qs)
  case Nil
  then show ?case by (cases qs) auto
next
  case (Cons p ps)
  show ?case
  proof (cases qs)
    case Nil
    with Cons.prems show ?thesis by simp
  next
    case (Cons q qs')
    with Cons.prems have "status_item p @ concat (map (\<lambda>p. '','' @ status_item p) ps) @ '']''
        = status_item q @ concat (map (\<lambda>p. '','' @ status_item p) qs') @ '']''"
      by simp
    from status_item_inj [OF this] Cons.IH [of qs'] Cons show ?thesis by blast
  qed
qed

lemma status_list_inj: "json_list (map status_item ps) = json_list (map status_item qs) \<Longrightarrow> ps = qs"
proof -
  assume eq: "json_list (map status_item ps) = json_list (map status_item qs)"
  show ?thesis
  proof (cases ps)
    case Nil
    with eq show ?thesis by (cases qs) auto
  next
    case p: (Cons p ps')
    show ?thesis
    proof (cases qs)
      case Nil
      with p eq show ?thesis by simp
    next
      case q: (Cons q qs')
      from eq have "status_item p @ concat (map (\<lambda>p. '','' @ status_item p) ps') @ '']''
          = status_item q @ concat (map (\<lambda>p. '','' @ status_item p) qs') @ '']''"
        by (simp add: p q o_def)
      from status_item_inj [OF this] status_items_inj [of ps' qs'] p q show ?thesis by blast
    qed
  qed
qed

text \<open>What of the statuses matters: the key and the text of the active endpoint of each peer.\<close>

definition active_texts :: "(key \<times> peer_status) list \<Rightarrow> (string \<times> string) set" where
  "active_texts statuses =
     (\<lambda>(k, v). (key_String k, addr_port_String (ps_ActiveEndpoint v))) ` set statuses"

lemma status_hash_eq:
  assumes "distinct (map fst st)" "distinct (map fst st')"
  shows "status_hash st = status_hash st' \<longleftrightarrow> active_texts st = active_texts st'"
proof -
  define f where "f = (\<lambda>(k :: key, v :: peer_status). (key_String k, addr_port_String (ps_ActiveEndpoint v)))"
  have hash: "status_hash xs = json_list (map status_item (sort_key fst (map f xs)))" for xs
    by (simp add: status_hash_def f_def)
  have dist: "distinct (map fst (map f xs))" if "distinct (map fst xs)" for xs
    using that by (simp add: distinct_map inj_on_def f_def case_prod_unfold key_String_def EncodeToString_inj)
  have texts: "active_texts xs = set (sort_key fst (map f xs))" for xs
    by (simp add: active_texts_def f_def)
  show ?thesis
  proof
    assume "status_hash st = status_hash st'"
    then have "sort_key fst (map f st) = sort_key fst (map f st')"
      unfolding hash by (rule status_list_inj)
    then show "active_texts st = active_texts st'"
      by (simp only: texts)
  next
    assume "active_texts st = active_texts st'"
    then have "set (map f st) = set (map f st')"
      by (simp add: texts)
    moreover have "distinct (map f st)" "distinct (map f st')"
      using dist [OF assms(1)] dist [OF assms(2)] by (metis distinct_map)+
    ultimately have "mset (map f st) = mset (map f st')"
      by (simp only: set_eq_iff_mset_eq_distinct)
    then have "sort_key fst (map f st) = sort_key fst (map f st')"
      by (rule sort_key_unique) (rule dist [OF assms(1)])
    then show "status_hash st = status_hash st'"
      by (simp only: hash)
  qed
qed

text \<open>
  \<open>settles cfg s s'\<close>: steps lead from \<open>s\<close> to \<open>s'\<close>, where the goroutine is idle, no token
  waits, and \<open>cfg\<close> is both the current configuration and the one applied last.
\<close>

definition settles :: "te_config \<Rightarrow> reconfig_sys \<Rightarrow> reconfig_sys \<Rightarrow> bool" where
  "settles cfg s s' \<longleftrightarrow> reconfig_step\<^sup>*\<^sup>* s s' \<and> rc_pc s' = RIdle \<and> \<not> te_trigger (rc_engine s') \<and>
    te_currentConfig (rc_engine s') = cfg \<and> rc_applied s' = Some cfg"

lemma settles_step: "reconfig_step s s1 \<Longrightarrow> settles cfg s1 s' \<Longrightarrow> settles cfg s s'"
  unfolding settles_def by (meson converse_rtranclp_into_rtranclp)

lemma idle_settles:
  assumes "rc_pc s = RIdle" "te_currentConfig (rc_engine s) = cfg"
    and "te_trigger (rc_engine s) \<or> rc_applied s = Some cfg"
  shows "\<exists>s'. settles cfg s s'"
proof (cases "te_trigger (rc_engine s)")
  case True
  let ?s1 = "s\<lparr>rc_engine := (rc_engine s)\<lparr>te_trigger := False\<rparr>, rc_pc := RStarted\<rparr>"
  let ?s2 = "?s1\<lparr>rc_pc := RLoaded (te_currentConfig (rc_engine ?s1))\<rparr>"
  let ?s3 = "?s2\<lparr>rc_pc := RIdle, rc_applied := Some cfg\<rparr>"
  have "settles cfg ?s3 ?s3"
    using assms by (simp add: settles_def)
  moreover have "reconfig_step ?s2 ?s3"
    by (rule finish) (simp add: assms)
  moreover have "reconfig_step ?s1 ?s2"
    by (rule load) simp
  moreover have "reconfig_step s ?s1"
    using assms(1) True by (rule start)
  ultimately show ?thesis
    by (blast intro: settles_step)
next
  case False
  with assms show ?thesis
    by (auto simp: settles_def)
qed

lemma loaded_settles:
  assumes "rc_pc s = RLoaded c" "te_currentConfig (rc_engine s) = cfg"
    and "te_trigger (rc_engine s) \<or> c = cfg"
  shows "\<exists>s'. settles cfg s s'"
proof -
  let ?s1 = "s\<lparr>rc_pc := RIdle, rc_applied := Some c\<rparr>"
  have "reconfig_step s ?s1"
    using assms(1) by (rule finish)
  moreover have "\<exists>s'. settles cfg ?s1 s'"
    by (rule idle_settles) (use assms in auto)
  ultimately show ?thesis
    by (blast intro: settles_step)
qed

lemma reconfig_settles:
  assumes "reconfig_inv s" "rc_storing s = 0"
  shows "\<exists>s'. settles (te_currentConfig (rc_engine s)) s s'"
proof (cases "rc_pc s")
  case RIdle
  then show ?thesis
    using idle_settles [of s] assms by (auto simp: reconfig_inv_def)
next
  case RStarted
  let ?cfg = "te_currentConfig (rc_engine s)"
  have "reconfig_step s (s\<lparr>rc_pc := RLoaded ?cfg\<rparr>)"
    using RStarted by (rule load)
  moreover obtain s' where "settles ?cfg (s\<lparr>rc_pc := RLoaded ?cfg\<rparr>) s'"
    using loaded_settles [of "s\<lparr>rc_pc := RLoaded ?cfg\<rparr>" ?cfg ?cfg] by auto
  ultimately show ?thesis
    by (blast intro: settles_step)
next
  case (RLoaded c)
  then show ?thesis
    using loaded_settles [of s c] assms by (auto simp: reconfig_inv_def)
qed

section \<open>Properties\<close>


definition example_te_config :: te_config where
  "example_te_config = \<lparr>tc_PrivateKey = ''k'', tc_ListenPort = 51820, tc_STUNEndpoint = [],
     tc_Addresses = [\<lparr>na_IPNet = Some (IPNet (IP4 0x0A000001) 24)\<rparr>],
     tc_Peers = [\<lparr>pc_Endpoints = [''1.2.3.4:5'', ''9.9.9.9:5'', ''junk''], pc_PublicKey = ''p'',
       pc_PublicDiscoKey = key_String (replicate 32 1), pc_Addresses = [], pc_AllowedIPs = [''10.0.0.2/32'']\<rparr>]\<rparr>"


text \<open>
  C18. A status callback triggers a reconfiguration exactly when the active endpoint of some
  peer, as text, or the set of peers is not what it was at the last callback; round-trip times
  and the order in which the peers are listed do not matter, and a triggering callback
  stores what it saw.
\<close>

theorem status_callback_triggers_on_change:
  assumes "distinct (map fst st)" "distinct (map fst st')" "te_latestDiscoStatusHash e = Some (status_hash st)"
    and "\<not> te_closed e"
  shows "discoStatusCallback st' e =
    Returns (if active_texts st' = active_texts st then e
             else e\<lparr>te_latestDiscoStatusHash := Some (status_hash st'), te_trigger := True\<rparr>)"
  using status_hash_eq [OF assms(1,2)] assms(3,4)
  by (auto simp: discoStatusCallback_def hasDiscoStatusUpdate_def Let_def triggerReconfig_def)

theorem status_callback_triggers_on_change_witness:
  "discoStatusCallback [([2], \<lparr>ps_ActiveEndpoint = zero_addr_port, ps_ActiveRTT = 5\<rparr>),
       ([1], \<lparr>ps_ActiveEndpoint = zero_addr_port, ps_ActiveRTT = 7\<rparr>)]
     ((init_engine [] example_te_config)\<lparr>te_latestDiscoStatusHash := Some (status_hash
       [([1], \<lparr>ps_ActiveEndpoint = zero_addr_port, ps_ActiveRTT = 0\<rparr>),
        ([2], \<lparr>ps_ActiveEndpoint = zero_addr_port, ps_ActiveRTT = 0\<rparr>)])\<rparr>) =
   Returns ((init_engine [] example_te_config)\<lparr>te_latestDiscoStatusHash := Some (status_hash
       [([1], \<lparr>ps_ActiveEndpoint = zero_addr_port, ps_ActiveRTT = 0\<rparr>),
        ([2], \<lparr>ps_ActiveEndpoint = zero_addr_port, ps_ActiveRTT = 0\<rparr>)])\<rparr>)"
proof -
  let ?st = "[([1], \<lparr>ps_ActiveEndpoint = zero_addr_port, ps_ActiveRTT = 0\<rparr>),
        ([2], \<lparr>ps_ActiveEndpoint = zero_addr_port, ps_ActiveRTT = 0\<rparr>)] :: (key \<times> peer_status) list"
  let ?st' = "[([2], \<lparr>ps_ActiveEndpoint = zero_addr_port, ps_ActiveRTT = 5\<rparr>),
       ([1], \<lparr>ps_ActiveEndpoint = zero_addr_port, ps_ActiveRTT = 7\<rparr>)] :: (key \<times> peer_status) list"
  have "active_texts ?st' = active_texts ?st"
    by (auto simp: active_texts_def)
  then show ?thesis
    using status_callback_triggers_on_change [of ?st ?st'
        "(init_engine [] example_te_config)\<lparr>te_latestDiscoStatusHash := Some (status_hash ?st)\<rparr>"]
    by (simp add: init_engine_def)
qed




definition example_lib :: lib where
  "example_lib = \<lparr>lib_ParseKey = (\<lambda>s. if s = ''k'' then Some (replicate 32 9) else DecodeString s),
     lib_PublicKey = (\<lambda>k. k), lib_addr_String = (\<lambda>_. [])\<rparr>"


end
