(* ===== verification/IpAlloc.thy ===== *)
theory IpAlloc
  imports Prelude
begin

text \<open>
  The control plane's allocator: \<open>ipaddrutil\<close> (free blocks and the choice of a sub-block) and
  the reconciler of CIDR claims in \<open>cidrclaim_controller.go\<close>. The address library
  (\<open>ipaddress-go\<close>) is the parameter \<open>L\<close> over a type \<open>'b\<close> of blocks; the Kubernetes API is the
  state \<open>cluster\<close> with calls that may fail; label selectors are a parameter.
\<close>

section \<open>ipaddrutil\<close>

text \<open>
  The operations of the library that the code calls. \<open>ia_Merge\<close> is \<open>MergeToPrefixBlocks\<close> on
  a non-empty list, \<open>ia_FirstBlock b n\<close> the first value of the prefix block iterator of \<open>b\<close>
  with prefix length \<open>n\<close>; a prefix length may be absent.
\<close>

record 'b ipaddr_lib =
  ia_GetAddress :: "string \<Rightarrow> 'b option"
  ia_String :: "'b \<Rightarrow> string"
  ia_Subtract :: "'b \<Rightarrow> 'b \<Rightarrow> 'b list"
  ia_Span :: "'b \<Rightarrow> 'b list"
  ia_Merge :: "'b list \<Rightarrow> 'b list"
  ia_GetBitCount :: "'b \<Rightarrow> int"
  ia_GetPrefixLen :: "'b \<Rightarrow> int option"
  ia_FirstBlock :: "'b \<Rightarrow> int \<Rightarrow> 'b option"
  ia_SetPrefixLenZeroed :: "'b \<Rightarrow> int \<Rightarrow> 'b option"

definition FreeBlocks :: "'b ipaddr_lib \<Rightarrow> 'b \<Rightarrow> 'b list \<Rightarrow> 'b list outcome" where
  "FreeBlocks L base used =
     (let freeBlocks = fold (\<lambda>u blocks. concat (map (\<lambda>block. ia_Subtract L block u) blocks)) used [base]
      in if freeBlocks = [] then Returns []
         else let spanned = concat (map (ia_Span L) freeBlocks)
              in if spanned = [] then Panics IndexOutOfRange else Returns (ia_Merge L spanned))"

fun FindSubBlock :: "'b ipaddr_lib \<Rightarrow> 'b list \<Rightarrow> int \<Rightarrow> 'b option outcome" where
  "FindSubBlock L [] sizeBit = Returns None"
| "FindSubBlock L (block # blocks) sizeBit =
     (case ia_GetPrefixLen L block of
        None \<Rightarrow> Panics NilDereference
      | Some len \<Rightarrow>
          (let blockSizeBit = ia_GetBitCount L block - len
           in if blockSizeBit < sizeBit then FindSubBlock L blocks sizeBit
              else Returns (ia_FirstBlock L block (ia_GetBitCount L block - sizeBit))))"

section \<open>Claims and blocks\<close>

datatype claim_state = Unknown | Ready | BindingError

record claim_status =
  cs_ObservedGeneration :: int
  cs_State :: claim_state
  cs_Message :: string
  cs_CIDRBlockName :: string
  cs_CIDR :: string
  cs_SizeBit :: int

record 's cidr_claim =
  cc_Name :: string
  cc_Generation :: int
  cc_Selector :: 's
  cc_SizeBit :: int
  cc_Status :: claim_status

type_synonym labels = "(string \<times> string) list"

record cidr_block =
  cb_Name :: string
  cb_Labels :: labels
  cb_CIDR :: string

text \<open>The claims and blocks of one namespace.\<close>

record 's cluster =
  cl_claims :: "'s cidr_claim list"
  cl_blocks :: "cidr_block list"

definition get_claim :: "string \<Rightarrow> 's cluster \<Rightarrow> 's cidr_claim option" where
  "get_claim name cl = List.find (\<lambda>c. cc_Name c = name) (cl_claims cl)"

section \<open>The reconciler\<close>

fun isReady_block :: "string \<Rightarrow> cidr_block list \<Rightarrow> cidr_block option \<Rightarrow> cidr_block option" where
  "isReady_block name [] block = block"
| "isReady_block name (b # bs) block =
     isReady_block name bs (if cb_Name b = name then Some b else block)"

definition isReady :: "'s cidr_claim \<Rightarrow> (labels \<Rightarrow> bool) \<Rightarrow> cidr_block list \<Rightarrow> bool" where
  "isReady claim selector blocks =
     (if cs_State (cc_Status claim) \<noteq> Ready then False
      else case isReady_block (cs_CIDRBlockName (cc_Status claim)) blocks None of
             None \<Rightarrow> False
           | Some block \<Rightarrow> selector (cb_Labels block))"

text \<open>The addresses in use in a block: those of its claims and, for a single address, the network's own.\<close>

definition used_addrs :: "'b ipaddr_lib \<Rightarrow> 's cidr_claim list \<Rightarrow> 'b list" where
  "used_addrs L claims = List.map_filter (\<lambda>claim. ia_GetAddress L (cs_CIDR (cc_Status claim))) claims"

fun allocate :: "'b ipaddr_lib \<Rightarrow> int \<Rightarrow> cidr_block list \<Rightarrow> (string \<Rightarrow> 's cidr_claim list)
    \<Rightarrow> (string \<times> string) option outcome" where
  "allocate L sizeBit [] usedClaims = Returns None"
| "allocate L sizeBit (block # blocks) usedClaims =
     (case ia_GetAddress L (cb_CIDR block) of
        None \<Rightarrow> allocate L sizeBit blocks usedClaims
      | Some blockSubnet \<Rightarrow>
          (let used = used_addrs L (usedClaims (cb_Name block));
               network = (if sizeBit = 0 then ia_SetPrefixLenZeroed L blockSubnet (ia_GetBitCount L blockSubnet)
                          else None)
           in if sizeBit = 0 \<and> network = None then allocate L sizeBit blocks usedClaims
              else
                let used = (case network of None \<Rightarrow> used | Some addr \<Rightarrow> used @ [addr])
                in bind_outcome (FreeBlocks L blockSubnet used)
                     (\<lambda>free. bind_outcome (FindSubBlock L free sizeBit)
                       (\<lambda>allocated. case allocated of
                          None \<Rightarrow> allocate L sizeBit blocks usedClaims
                        | Some a \<Rightarrow> Returns (Some (cb_Name block, ia_String L a))))))"

text \<open>Which of the API calls of a reconciliation fail.\<close>

record api_failures =
  fail_get :: bool
  fail_list_blocks :: bool
  fail_list_claims :: bool
  fail_patch :: bool

datatype reconcile_result = Done | RequeueAfter duration | Failed

text \<open>\<open>claim_updateStatus\<close> patches the claim that was read; the result of the call is the one given unless it fails.\<close>

definition claim_updateStatus :: "api_failures \<Rightarrow> 's cidr_claim \<Rightarrow> claim_status \<Rightarrow> reconcile_result \<Rightarrow> 's cluster
    \<Rightarrow> 's cluster \<times> reconcile_result" where
  "claim_updateStatus fails claim status res cl =
     (if fail_patch fails then (cl, Failed)
      else (cl\<lparr>cl_claims := map (\<lambda>c. if cc_Name c = cc_Name claim
               then c\<lparr>cc_Status := status\<lparr>cs_ObservedGeneration := cc_Generation claim\<rparr>\<rparr> else c) (cl_claims cl)\<rparr>,
            res))"

text \<open>The claims that were listed, without the claim itself, by the name of their block.\<close>

definition claims_by_block :: "string \<Rightarrow> 's cidr_claim list \<Rightarrow> string \<Rightarrow> 's cidr_claim list" where
  "claims_by_block self claims name =
     filter (\<lambda>c. cs_CIDRBlockName (cc_Status c) \<noteq> [] \<and> cs_CIDRBlockName (cc_Status c) = name)
       (case List.extract (\<lambda>c. cc_Name c = self) claims of None \<Rightarrow> claims | Some (xs, _, ys) \<Rightarrow> xs @ ys)"

definition claim_Reconcile :: "'b ipaddr_lib \<Rightarrow> ('s \<Rightarrow> string + (labels \<Rightarrow> bool)) \<Rightarrow> (cidr_block list \<Rightarrow> cidr_block list)
    \<Rightarrow> api_failures \<Rightarrow> string \<Rightarrow> 's cluster \<Rightarrow> ('s cluster \<times> reconcile_result) outcome" where
  "claim_Reconcile L asSelector shuffle fails name cl =
     (case get_claim name cl of
        None \<Rightarrow> Returns (cl, if fail_get fails then Failed else Done)
      | Some cidrClaim \<Rightarrow>
          if fail_get fails then Returns (cl, Failed)
          else if cc_Generation cidrClaim = cs_ObservedGeneration (cc_Status cidrClaim)
                  \<and> cs_State (cc_Status cidrClaim) = Ready then Returns (cl, Done)
          else
            let status = cc_Status cidrClaim
            in case asSelector (cc_Selector cidrClaim) of
                 Inl err \<Rightarrow> Returns (claim_updateStatus fails cidrClaim
                           (status\<lparr>cs_State := BindingError,
                                   cs_Message := ''selector is invalid: '' @ err\<rparr>) Done cl)
               | Inr selector \<Rightarrow>
                   let cidrBlocks = filter (\<lambda>b. selector (cb_Labels b)) (cl_blocks cl)
                   in if fail_list_blocks fails then Returns (cl, Failed)
                      else if isReady cidrClaim selector cidrBlocks
                      then Returns (claim_updateStatus fails cidrClaim status Done cl)
                      else if fail_list_claims fails then Returns (cl, Failed)
                      else if cidrBlocks = []
                      then Returns (claim_updateStatus fails cidrClaim
                             (status\<lparr>cs_State := BindingError, cs_Message := ''no matching CIDRBlock''\<rparr>)
                             (RequeueAfter (60 * second)) cl)
                      else
                        bind_outcome
                          (allocate L (cc_SizeBit cidrClaim) (shuffle cidrBlocks)
                             (claims_by_block (cc_Name cidrClaim) (cl_claims cl)))
                          (\<lambda>allocated. case allocated of
                             None \<Rightarrow> Returns (claim_updateStatus fails cidrClaim
                                (status\<lparr>cs_State := BindingError, cs_Message := ''no available CIDRBlock''\<rparr>)
                                (RequeueAfter (60 * second)) cl)
                           | Some (block, cidr) \<Rightarrow> Returns (claim_updateStatus fails cidrClaim
                                (status\<lparr>cs_State := Ready, cs_Message := [], cs_CIDR := cidr,
                                        cs_CIDRBlockName := block, cs_SizeBit := cc_SizeBit cidrClaim\<rparr>)
                                Done cl)))"

section \<open>What the address library promises\<close>

text \<open>
  \<open>den b\<close> is the set of addresses of a block. A block has addresses; subtracting, spanning and
  merging change sets of addresses as their names say; merged blocks are prefix blocks; the
  first sub-block lies in the block and has the size asked for; and a block is read back from
  its text.
\<close>

definition prefix_block :: "'b ipaddr_lib \<Rightarrow> ('b \<Rightarrow> nat set) \<Rightarrow> 'b \<Rightarrow> bool" where
  "prefix_block L den b \<longleftrightarrow> (\<exists>p. ia_GetPrefixLen L b = Some p \<and> p \<le> ia_GetBitCount L b \<and>
     card (den b) = 2 ^ nat (ia_GetBitCount L b - p))"

definition ipaddr_laws :: "'b ipaddr_lib \<Rightarrow> ('b \<Rightarrow> nat set) \<Rightarrow> bool" where
  "ipaddr_laws L den \<longleftrightarrow>
     (\<forall>b. den b \<noteq> {}) \<and>
     (\<forall>a b. \<Union> (den ` set (ia_Subtract L a b)) = den a - den b) \<and>
     (\<forall>b. \<Union> (den ` set (ia_Span L b)) = den b) \<and>
     (\<forall>bs. bs \<noteq> [] \<longrightarrow> \<Union> (den ` set (ia_Merge L bs)) = \<Union> (den ` set bs) \<and>
        (\<forall>b \<in> set (ia_Merge L bs). prefix_block L den b)) \<and>
     (\<forall>b p n. ia_GetPrefixLen L b = Some p \<and> p \<le> n \<and> n \<le> ia_GetBitCount L b \<longrightarrow>
        (\<exists>s. ia_FirstBlock L b n = Some s \<and> den s \<subseteq> den b \<and>
             card (den s) = 2 ^ nat (ia_GetBitCount L b - n))) \<and>
     (\<forall>b. \<exists>b'. ia_GetAddress L (ia_String L b) = Some b' \<and> den b' = den b)"

lemma ipaddr_lawsD:
  assumes "ipaddr_laws L den"
  shows "den b \<noteq> {}" "\<Union> (den ` set (ia_Subtract L a b)) = den a - den b"
    "\<Union> (den ` set (ia_Span L b)) = den b"
    "bs \<noteq> [] \<Longrightarrow> \<Union> (den ` set (ia_Merge L bs)) = \<Union> (den ` set bs)"
    "bs \<noteq> [] \<Longrightarrow> b \<in> set (ia_Merge L bs) \<Longrightarrow> prefix_block L den b"
    "ia_GetPrefixLen L b = Some p \<Longrightarrow> p \<le> n \<Longrightarrow> n \<le> ia_GetBitCount L b \<Longrightarrow>
       \<exists>s. ia_FirstBlock L b n = Some s \<and> den s \<subseteq> den b \<and> card (den s) = 2 ^ nat (ia_GetBitCount L b - n)"
    "\<exists>b'. ia_GetAddress L (ia_String L b) = Some b' \<and> den b' = den b"
  using assms unfolding ipaddr_laws_def by metis+

lemma den_concat: "\<Union> (den ` set (concat (map f blocks))) = (\<Union>block \<in> set blocks. \<Union> (den ` set (f block)))"
  by auto

lemma subtract_all:
  assumes "ipaddr_laws L den"
  shows "\<Union> (den ` set (fold (\<lambda>u blocks. concat (map (\<lambda>block. ia_Subtract L block u) blocks)) used blocks))
    = \<Union> (den ` set blocks) - \<Union> (den ` set used)"
proof (induction used arbitrary: blocks)
  case (Cons u used)
  have "\<Union> (den ` set (concat (map (\<lambda>block. ia_Subtract L block u) blocks))) = \<Union> (den ` set blocks) - den u"
    unfolding den_concat ipaddr_lawsD(2) [OF assms] by auto
  then show ?case
    unfolding fold_Cons o_apply Cons.IH by auto
qed simp

lemma FreeBlocks_correct:
  assumes laws: "ipaddr_laws L den"
  shows "\<exists>free. FreeBlocks L base used = Returns free \<and>
    \<Union> (den ` set free) = den base - \<Union> (den ` set used) \<and> (\<forall>b \<in> set free. prefix_block L den b)"
proof -
  define blocks where "blocks = fold (\<lambda>u blocks. concat (map (\<lambda>block. ia_Subtract L block u) blocks)) used [base]"
  have den: "\<Union> (den ` set blocks) = den base - \<Union> (den ` set used)"
    unfolding blocks_def subtract_all [OF laws] by simp
  show ?thesis
  proof (cases "blocks = []")
    case True
    then show ?thesis
      using den by (auto simp: FreeBlocks_def blocks_def [symmetric])
  next
    case False
    let ?spanned = "concat (map (ia_Span L) blocks)"
    have span: "\<Union> (den ` set ?spanned) = \<Union> (den ` set blocks)"
      unfolding den_concat ipaddr_lawsD(3) [OF laws] ..
    have "?spanned \<noteq> []"
    proof
      assume "?spanned = []"
      then have "\<Union> (den ` set blocks) = {}"
        using span by simp
      then show False
        using False ipaddr_lawsD(1) [OF laws] by (cases blocks) auto
    qed
    from ipaddr_lawsD(4,5) [OF laws this] have "\<Union> (den ` set (ia_Merge L ?spanned)) = den base - \<Union> (den ` set used)"
      "\<forall>b \<in> set (ia_Merge L ?spanned). prefix_block L den b"
      unfolding span den by blast+
    moreover have "FreeBlocks L base used = Returns (ia_Merge L ?spanned)"
      using False \<open>?spanned \<noteq> []\<close> unfolding FreeBlocks_def blocks_def [symmetric] Let_def by simp
    ultimately show ?thesis by blast
  qed
qed

lemma FindSubBlock_correct:
  assumes laws: "ipaddr_laws L den" and "\<forall>b \<in> set free. prefix_block L den b" and "0 \<le> sizeBit"
  shows "\<exists>r. FindSubBlock L free sizeBit = Returns r \<and>
    (\<forall>s. r = Some s \<longrightarrow> (\<exists>b \<in> set free. den s \<subseteq> den b) \<and> card (den s) = 2 ^ nat sizeBit) \<and>
    (r = None \<longrightarrow> (\<forall>b \<in> set free. card (den b) < 2 ^ nat sizeBit))"
  using assms(2)
proof (induction free)
  case (Cons b free)
  then obtain p where p: "ia_GetPrefixLen L b = Some p" "p \<le> ia_GetBitCount L b"
    "card (den b) = 2 ^ nat (ia_GetBitCount L b - p)"
    by (auto simp: prefix_block_def)
  show ?case
  proof (cases "ia_GetBitCount L b - p < sizeBit")
    case True
    then have "nat (ia_GetBitCount L b - p) < nat sizeBit"
      using p(2) by simp
    then have "card (den b) < 2 ^ nat sizeBit"
      using p(3) by simp
    with True Cons p show ?thesis by auto
  next
    case False
    then have "p \<le> ia_GetBitCount L b - sizeBit" by simp
    moreover have "ia_GetBitCount L b - sizeBit \<le> ia_GetBitCount L b"
      using assms(3) by simp
    ultimately obtain s where "ia_FirstBlock L b (ia_GetBitCount L b - sizeBit) = Some s" "den s \<subseteq> den b"
      "card (den s) = 2 ^ nat sizeBit"
      using ipaddr_lawsD(6) [OF laws p(1)] by fastforce
    with False p show ?thesis by auto
  qed
qed simp

section \<open>Allocation\<close>

text \<open>What an allocation must be: inside its block, of the size asked for, apart from the blocks in use.\<close>

definition fits :: "'b ipaddr_lib \<Rightarrow> ('b \<Rightarrow> nat set) \<Rightarrow> int \<Rightarrow> 's cidr_claim list \<Rightarrow> string \<Rightarrow> 'b \<Rightarrow> bool" where
  "fits L den sizeBit claims cidr subnet \<longleftrightarrow>
     (\<exists>a. ia_GetAddress L cidr = Some a \<and> den a \<subseteq> den subnet \<and> card (den a) = 2 ^ nat sizeBit \<and>
        (\<forall>c \<in> set claims. \<forall>u. ia_GetAddress L (cs_CIDR (cc_Status c)) = Some u \<longrightarrow> den a \<inter> den u = {}) \<and>
        (sizeBit = 0 \<longrightarrow> (\<exists>net. ia_SetPrefixLenZeroed L subnet (ia_GetBitCount L subnet) = Some net \<and>
           den a \<inter> den net = {})))"

lemma used_addrs_set:
  "u \<in> set (used_addrs L claims) \<longleftrightarrow> (\<exists>c \<in> set claims. ia_GetAddress L (cs_CIDR (cc_Status c)) = Some u)"
  by (induction claims) (auto simp: used_addrs_def List.map_filter_simps split: option.splits)

lemma allocate_in_block:
  assumes laws: "ipaddr_laws L den" and size: "0 \<le> sizeBit"
  shows "\<exists>free r. FreeBlocks L subnet used = Returns free \<and> FindSubBlock L free sizeBit = Returns r \<and>
    (\<forall>s. r = Some s \<longrightarrow> den s \<subseteq> den subnet \<and> (\<forall>u \<in> set used. den s \<inter> den u = {}) \<and>
       card (den s) = 2 ^ nat sizeBit)"
proof -
  obtain free where free: "FreeBlocks L subnet used = Returns free"
    "\<Union> (den ` set free) = den subnet - \<Union> (den ` set used)" "\<forall>b \<in> set free. prefix_block L den b"
    using FreeBlocks_correct [OF laws] by metis
  obtain r where r: "FindSubBlock L free sizeBit = Returns r"
    "\<forall>s. r = Some s \<longrightarrow> (\<exists>b \<in> set free. den s \<subseteq> den b) \<and> card (den s) = 2 ^ nat sizeBit"
    using FindSubBlock_correct [OF laws free(3) size] by blast
  have "\<forall>s. r = Some s \<longrightarrow> den s \<subseteq> den subnet \<and> (\<forall>u \<in> set used. den s \<inter> den u = {}) \<and>
      card (den s) = 2 ^ nat sizeBit"
  proof (intro allI impI)
    fix s assume s: "r = Some s"
    from r(2) s obtain b where "b \<in> set free" "den s \<subseteq> den b" and card: "card (den s) = 2 ^ nat sizeBit" by blast
    then have "den s \<subseteq> \<Union> (den ` set free)" by blast
    then show "den s \<subseteq> den subnet \<and> (\<forall>u \<in> set used. den s \<inter> den u = {}) \<and> card (den s) = 2 ^ nat sizeBit"
      unfolding free(2) using card by auto
  qed
  with free(1) r(1) show ?thesis by (intro exI conjI) assumption+
qed

lemma allocate_correct:
  assumes laws: "ipaddr_laws L den" and size: "0 \<le> sizeBit"
  shows "\<exists>r. allocate L sizeBit blocks usedClaims = Returns r \<and>
    (\<forall>name cidr. r = Some (name, cidr) \<longrightarrow>
       (\<exists>block \<in> set blocks. \<exists>subnet. cb_Name block = name \<and> ia_GetAddress L (cb_CIDR block) = Some subnet \<and>
          fits L den sizeBit (usedClaims name) cidr subnet))"
proof (induction blocks)
  case (Cons block blocks)
  show ?case
  proof (cases "ia_GetAddress L (cb_CIDR block)")
    case None
    with Cons.IH show ?thesis by auto
  next
    case (Some subnet)
    define net where "net = (if sizeBit = 0 then ia_SetPrefixLenZeroed L subnet (ia_GetBitCount L subnet) else None)"
    define claimed where "claimed = used_addrs L (usedClaims (cb_Name block))"
    define used where "used = (case net of None \<Rightarrow> claimed | Some addr \<Rightarrow> claimed @ [addr])"
    obtain free r where fr: "FreeBlocks L subnet used = Returns free" "FindSubBlock L free sizeBit = Returns r"
      and r: "\<forall>s. r = Some s \<longrightarrow> den s \<subseteq> den subnet \<and> (\<forall>u \<in> set used. den s \<inter> den u = {}) \<and>
        card (den s) = 2 ^ nat sizeBit"
      using allocate_in_block [OF laws size] by blast
    show ?thesis
    proof (cases "sizeBit = 0 \<and> net = None")
      case True
      with Some Cons.IH show ?thesis by (auto simp: Let_def net_def)
    next
      case False
      have step: "allocate L sizeBit (block # blocks) usedClaims = (case r of None \<Rightarrow> allocate L sizeBit blocks usedClaims
          | Some a \<Rightarrow> Returns (Some (cb_Name block, ia_String L a)))"
        unfolding allocate.simps Some option.case Let_def net_def [symmetric] claimed_def [symmetric] used_def [symmetric]
        using False fr by auto
      show ?thesis
      proof (cases r)
        case None
        with step Cons.IH show ?thesis by auto
      next
        case (Some a)
        from r Some have a: "den a \<subseteq> den subnet" "card (den a) = 2 ^ nat sizeBit" "\<forall>u \<in> set used. den a \<inter> den u = {}"
          by auto
        have claimed: "\<forall>u \<in> set claimed. den a \<inter> den u = {}"
          using a(3) unfolding used_def by (auto split: option.splits)
        have net: "\<exists>net. ia_SetPrefixLenZeroed L subnet (ia_GetBitCount L subnet) = Some net \<and> den a \<inter> den net = {}"
          if "sizeBit = 0"
          using a(3) False that unfolding used_def net_def by (auto split: option.splits)
        obtain a' where "ia_GetAddress L (ia_String L a) = Some a'" "den a' = den a"
          using ipaddr_lawsD(7) [OF laws] by blast
        moreover have "den a \<inter> den u = {}"
          if "c \<in> set (usedClaims (cb_Name block))" "ia_GetAddress L (cs_CIDR (cc_Status c)) = Some u" for c u
          using claimed that unfolding claimed_def by (metis used_addrs_set)
        ultimately have "fits L den sizeBit (usedClaims (cb_Name block)) (ia_String L a) subnet"
          unfolding fits_def using a(1,2) net by (intro exI [of _ a'], simp only:) blast
        with step Some \<open>ia_GetAddress L (cb_CIDR block) = Some subnet\<close> show ?thesis
          by auto
      qed
    qed
  qed
qed simp

section \<open>What a reconciliation does\<close>

lemma get_claim_SomeD: "get_claim name cl = Some c \<Longrightarrow> c \<in> set (cl_claims cl) \<and> cc_Name c = name"
  by (auto simp: get_claim_def find_Some_iff in_set_conv_nth)

lemma get_claim_set_status:
  "get_claim name (cl\<lparr>cl_claims := map (\<lambda>c. if cc_Name c = name then c\<lparr>cc_Status := status\<rparr> else c) cs\<rparr>)
    = map_option (cc_Status_update (\<lambda>_. status)) (get_claim name (cl\<lparr>cl_claims := cs\<rparr>))"
  unfolding get_claim_def by (induction cs) auto

text \<open>The claims that are kept apart from a new allocation for \<open>self\<close> in a block.\<close>

lemma claims_by_block_set:
  assumes "distinct (map cc_Name claims)"
  shows "set (claims_by_block self claims name) =
    {c \<in> set claims. cc_Name c \<noteq> self \<and> cs_CIDRBlockName (cc_Status c) = name \<and> name \<noteq> []}"
proof (cases "List.extract (\<lambda>c. cc_Name c = self) claims")
  case None
  then have "\<forall>c \<in> set claims. cc_Name c \<noteq> self"
    by (simp add: extract_None_iff)
  then show ?thesis
    unfolding claims_by_block_def None option.case by auto
next
  case (Some p)
  obtain xs y ys where p: "p = (xs, y, ys)" by (cases p)
  with Some have claims: "claims = xs @ y # ys" "cc_Name y = self"
    by (simp_all add: extract_Some_iff)
  with assms have others: "self \<notin> cc_Name ` set xs" "self \<notin> cc_Name ` set ys"
    by (auto simp: image_iff)
  show ?thesis
    unfolding claims_by_block_def Some p option.case prod.case using claims others by (auto simp: image_iff)
qed

text \<open>The new status of a claim either keeps the allocation or is a fitting new one.\<close>

definition reallocated :: "'b ipaddr_lib \<Rightarrow> ('b \<Rightarrow> nat set) \<Rightarrow> ('s \<Rightarrow> string + (labels \<Rightarrow> bool))
    \<Rightarrow> 's cluster \<Rightarrow> 's cidr_claim \<Rightarrow> claim_status \<Rightarrow> bool" where
  "reallocated L den asSelector cl c status \<longleftrightarrow>
     cs_State status = Ready \<and> cs_SizeBit status = cc_SizeBit c \<and>
     (\<exists>block \<in> set (cl_blocks cl). \<exists>selector subnet. cb_Name block = cs_CIDRBlockName status \<and>
        asSelector (cc_Selector c) = Inr selector \<and> selector (cb_Labels block) \<and>
        ia_GetAddress L (cb_CIDR block) = Some subnet \<and>
        fits L den (cc_SizeBit c) (claims_by_block (cc_Name c) (cl_claims cl) (cs_CIDRBlockName status))
          (cs_CIDR status) subnet)"

definition set_status :: "string \<Rightarrow> claim_status \<Rightarrow> 's cluster \<Rightarrow> 's cluster" where
  "set_status name status cl =
     cl\<lparr>cl_claims := map (\<lambda>c. if cc_Name c = name then c\<lparr>cc_Status := status\<rparr> else c) (cl_claims cl)\<rparr>"

definition same_allocation :: "claim_status \<Rightarrow> claim_status \<Rightarrow> bool" where
  "same_allocation s t \<longleftrightarrow> cs_CIDR s = cs_CIDR t \<and> cs_CIDRBlockName s = cs_CIDRBlockName t \<and>
     (cs_State s = Ready \<longrightarrow> cs_State t = Ready)"

definition reconcile_effect :: "'b ipaddr_lib \<Rightarrow> ('b \<Rightarrow> nat set) \<Rightarrow> ('s \<Rightarrow> string + (labels \<Rightarrow> bool))
    \<Rightarrow> string \<Rightarrow> 's cluster \<Rightarrow> 's cluster \<Rightarrow> bool" where
  "reconcile_effect L den asSelector name cl cl' \<longleftrightarrow> cl' = cl \<or>
     (\<exists>c status. get_claim name cl = Some c \<and> cl' = set_status name status cl \<and>
        (same_allocation status (cc_Status c) \<or> reallocated L den asSelector cl c status))"

lemma claim_updateStatus_effect:
  assumes "get_claim name cl = Some c" and "same_allocation status (cc_Status c) \<or> reallocated L den asSelector cl c status"
  shows "reconcile_effect L den asSelector name cl (fst (claim_updateStatus fails c status res cl))"
proof (cases "fail_patch fails")
  case False
  then have "fst (claim_updateStatus fails c status res cl) =
      set_status name (status\<lparr>cs_ObservedGeneration := cc_Generation c\<rparr>) cl"
    using get_claim_SomeD [OF assms(1)] by (auto simp: claim_updateStatus_def set_status_def)
  moreover have "same_allocation (status\<lparr>cs_ObservedGeneration := cc_Generation c\<rparr>) (cc_Status c)
      \<or> reallocated L den asSelector cl c (status\<lparr>cs_ObservedGeneration := cc_Generation c\<rparr>)"
    using assms(2) by (auto simp: same_allocation_def reallocated_def)
  ultimately show ?thesis
    using assms(1) unfolding reconcile_effect_def by blast
qed (simp add: claim_updateStatus_def reconcile_effect_def)

definition returns_effect :: "('c \<Rightarrow> bool) \<Rightarrow> ('c \<times> 'r) outcome \<Rightarrow> bool" where
  "returns_effect P x \<longleftrightarrow> (\<exists>y. x = Returns y \<and> P (fst y))"

lemma claim_Reconcile_effect:
  assumes laws: "ipaddr_laws L den" and sizes: "\<forall>c \<in> set (cl_claims cl). 0 \<le> cc_SizeBit c"
    and shuffle: "\<forall>bs. set (shuffle bs) = set bs"
  shows "returns_effect (reconcile_effect L den asSelector name cl) (claim_Reconcile L asSelector shuffle fails name cl)"
proof (cases "get_claim name cl")
  case None
  then show ?thesis by (simp add: claim_Reconcile_def returns_effect_def reconcile_effect_def)
next
  case (Some c)
  note c = get_claim_SomeD [OF Some]
  let ?good = "returns_effect (reconcile_effect L den asSelector name cl)"
  have update: "?good (Returns (claim_updateStatus fails c status res cl))"
    if "same_allocation status (cc_Status c) \<or> reallocated L den asSelector cl c status" for status res
    using claim_updateStatus_effect [OF Some that, of fails res] by (auto simp: returns_effect_def)
  have keep: "?good (Returns (cl, r))" for r by (simp add: reconcile_effect_def returns_effect_def)
  show ?thesis
  proof (cases "asSelector (cc_Selector c)")
    case (Inl err)
    with Some show ?thesis
      unfolding claim_Reconcile_def by (simp add: Let_def keep update same_allocation_def)
  next
    case (Inr selector)
    let ?blocks = "filter (\<lambda>b. selector (cb_Labels b)) (cl_blocks cl)"
    let ?used = "claims_by_block (cc_Name c) (cl_claims cl)"
    have "0 \<le> cc_SizeBit c" using sizes c by blast
    from allocate_correct [OF laws this, of "shuffle ?blocks" ?used]
    obtain r where r: "allocate L (cc_SizeBit c) (shuffle ?blocks) ?used = Returns r"
      and fit: "\<forall>name cidr. r = Some (name, cidr) \<longrightarrow> (\<exists>block \<in> set (shuffle ?blocks). \<exists>subnet.
        cb_Name block = name \<and> ia_GetAddress L (cb_CIDR block) = Some subnet \<and>
        fits L den (cc_SizeBit c) (?used name) cidr subnet)"
      by (elim exE conjE) (rule that)
    have new: "reallocated L den asSelector cl c ((cc_Status c)\<lparr>cs_State := Ready, cs_Message := [], cs_CIDR := cidr,
        cs_CIDRBlockName := name, cs_SizeBit := cc_SizeBit c\<rparr>)" if p: "r = Some (name, cidr)" for name cidr
    proof -
      from fit [rule_format, OF p] obtain block subnet where "block \<in> set (shuffle ?blocks)" "cb_Name block = name"
        "ia_GetAddress L (cb_CIDR block) = Some subnet" "fits L den (cc_SizeBit c) (?used name) cidr subnet"
        by blast
      then show ?thesis
        unfolding reallocated_def using shuffle Inr by auto
    qed
    show ?thesis
    proof (cases r)
      case None
      with r Some Inr show ?thesis
        unfolding claim_Reconcile_def by (simp add: Let_def keep update same_allocation_def)
    next
      case (Some p)
      obtain block cidr where p: "p = (block, cidr)" by (cases p)
      from r Some p new \<open>get_claim name cl = Some c\<close> Inr show ?thesis
        unfolding claim_Reconcile_def by (simp add: Let_def keep update same_allocation_def)
    qed
  qed
qed

section \<open>The claims of a cluster\<close>

text \<open>
  The cluster changes by reconciliations, whose API calls may fail and whose blocks come in any
  order, and by its users: a claim is created without a status, its selector and size change
  (the generation counts them), it is deleted, and the blocks are anything at any time. The
  sizes that users ask for are not negative (the type of the API does not check this).
\<close>

definition no_status :: claim_status where
  "no_status = \<lparr>cs_ObservedGeneration = 0, cs_State = Unknown, cs_Message = [],
     cs_CIDRBlockName = [], cs_CIDR = [], cs_SizeBit = 0\<rparr>"

inductive cluster_step :: "'b ipaddr_lib \<Rightarrow> ('s \<Rightarrow> string + (labels \<Rightarrow> bool)) \<Rightarrow> 's cluster \<Rightarrow> 's cluster \<Rightarrow> bool"
  for L asSelector where
  reconcile: "\<forall>bs. set (shuffle bs) = set bs \<Longrightarrow>
     claim_Reconcile L asSelector shuffle fails name cl = Returns (cl', r) \<Longrightarrow>
     cluster_step L asSelector cl cl'"
| create: "name \<notin> cc_Name ` set (cl_claims cl) \<Longrightarrow> 0 \<le> n \<Longrightarrow>
     cluster_step L asSelector cl (cl\<lparr>cl_claims := cl_claims cl @
       [\<lparr>cc_Name = name, cc_Generation = 1, cc_Selector = sel, cc_SizeBit = n, cc_Status = no_status\<rparr>]\<rparr>)"
| edit: "0 \<le> n \<Longrightarrow> cluster_step L asSelector cl (cl\<lparr>cl_claims := map (\<lambda>c. if cc_Name c = name
       then c\<lparr>cc_Generation := cc_Generation c + 1, cc_Selector := sel, cc_SizeBit := n\<rparr> else c) (cl_claims cl)\<rparr>)"
| delete: "cluster_step L asSelector cl (cl\<lparr>cl_claims := filter (\<lambda>c. cc_Name c \<noteq> name) (cl_claims cl)\<rparr>)"
| blocks: "cluster_step L asSelector cl (cl\<lparr>cl_blocks := bs\<rparr>)"

definition no_claims :: "cidr_block list \<Rightarrow> 's cluster" where
  "no_claims bs = \<lparr>cl_claims = [], cl_blocks = bs\<rparr>"

inductive cluster_reachable :: "'b ipaddr_lib \<Rightarrow> ('s \<Rightarrow> string + (labels \<Rightarrow> bool)) \<Rightarrow> 's cluster \<Rightarrow> bool"
  for L asSelector where
  init: "cluster_reachable L asSelector (no_claims bs)"
| step: "cluster_reachable L asSelector cl \<Longrightarrow> cluster_step L asSelector cl cl' \<Longrightarrow>
     cluster_reachable L asSelector cl'"

definition apart :: "'b ipaddr_lib \<Rightarrow> ('b \<Rightarrow> nat set) \<Rightarrow> claim_status \<Rightarrow> claim_status \<Rightarrow> bool" where
  "apart L den s t \<longleftrightarrow> (cs_CIDRBlockName s = cs_CIDRBlockName t \<and> cs_CIDRBlockName s \<noteq> [] \<longrightarrow>
     (\<forall>a b. ia_GetAddress L (cs_CIDR s) = Some a \<and> ia_GetAddress L (cs_CIDR t) = Some b \<longrightarrow> den a \<inter> den b = {}))"

definition claims_inv :: "'b ipaddr_lib \<Rightarrow> ('b \<Rightarrow> nat set) \<Rightarrow> 's cluster \<Rightarrow> bool" where
  "claims_inv L den cl \<longleftrightarrow> distinct (map cc_Name (cl_claims cl)) \<and>
     (\<forall>c \<in> set (cl_claims cl). 0 \<le> cc_SizeBit c) \<and>
     (\<forall>c \<in> set (cl_claims cl). \<forall>d \<in> set (cl_claims cl). cc_Name c \<noteq> cc_Name d \<longrightarrow>
        apart L den (cc_Status c) (cc_Status d))"

lemma apart_sym: "apart L den s t \<Longrightarrow> apart L den t s"
  unfolding apart_def by (metis inf_commute)

lemma apart_same: "same_allocation s s' \<Longrightarrow> apart L den s t \<longleftrightarrow> apart L den s' t"
  by (simp add: apart_def same_allocation_def)

lemma apart_no_status [simp]: "apart L den no_status t" "apart L den t no_status"
  by (auto simp: apart_def no_status_def)

lemma reallocated_apart:
  assumes inv: "claims_inv L den cl" and new: "reallocated L den asSelector cl c status"
    and d: "d \<in> set (cl_claims cl)" "cc_Name d \<noteq> cc_Name c"
  shows "apart L den status (cc_Status d)"
  unfolding apart_def
proof (intro impI allI; elim conjE)
  fix a b
  assume same: "cs_CIDRBlockName status = cs_CIDRBlockName (cc_Status d)" "cs_CIDRBlockName status \<noteq> []"
    and a: "ia_GetAddress L (cs_CIDR status) = Some a" and b: "ia_GetAddress L (cs_CIDR (cc_Status d)) = Some b"
  from inv have "distinct (map cc_Name (cl_claims cl))"
    by (simp add: claims_inv_def)
  from claims_by_block_set [OF this, of "cc_Name c" "cs_CIDRBlockName status"] d same
  have "d \<in> set (claims_by_block (cc_Name c) (cl_claims cl) (cs_CIDRBlockName status))" by simp
  moreover from new obtain subnet where
    "fits L den (cc_SizeBit c) (claims_by_block (cc_Name c) (cl_claims cl) (cs_CIDRBlockName status)) (cs_CIDR status) subnet"
    unfolding reallocated_def by blast
  ultimately show "den a \<inter> den b = {}"
    using a b unfolding fits_def by (metis option.inject)
qed

lemma effect_keeps_claims_inv:
  assumes inv: "claims_inv L den cl" and "reconcile_effect L den asSelector name cl cl'"
  shows "claims_inv L den cl'"
proof (cases "cl' = cl")
  case False
  with assms(2) obtain c status where c: "get_claim name cl = Some c" and cl': "cl' = set_status name status cl"
    and "same_allocation status (cc_Status c) \<or> reallocated L den asSelector cl c status"
    unfolding reconcile_effect_def by blast
  then have new: "apart L den status (cc_Status d)" if "d \<in> set (cl_claims cl)" "cc_Name d \<noteq> name" for d
    using that get_claim_SomeD [OF c] reallocated_apart [OF inv] inv apart_same
    unfolding claims_inv_def by metis
  show ?thesis
    using inv new unfolding cl' claims_inv_def set_status_def
    by (auto simp: comp_def if_distrib [of cc_Name] cong: if_cong intro: apart_sym)
qed (use inv in simp)

lemma cluster_step_claims_inv:
  assumes laws: "ipaddr_laws L den" and "cluster_step L asSelector cl cl'" and inv: "claims_inv L den cl"
  shows "claims_inv L den cl'"
  using assms(2)
proof cases
  case (reconcile shuffle fails name r)
  from inv have sizes: "\<forall>c \<in> set (cl_claims cl). 0 \<le> cc_SizeBit c"
    by (simp add: claims_inv_def)
  from claim_Reconcile_effect [OF laws sizes reconcile(1), where asSelector = asSelector and fails = fails and name = name] reconcile(2)
  show ?thesis using inv by (auto simp: returns_effect_def intro: effect_keeps_claims_inv)
next
  case (create name n sel)
  then show ?thesis using inv by (auto simp: claims_inv_def)
next
  case (edit n name sel)
  then show ?thesis using inv
    by (auto simp: claims_inv_def comp_def if_distrib [of cc_Name] cong: if_cong)
next
  case (delete name)
  then show ?thesis using inv by (auto simp: claims_inv_def distinct_map_filter)
next
  case (blocks bs)
  then show ?thesis using inv by (simp add: claims_inv_def)
qed

lemma reachable_claims_inv:
  assumes "ipaddr_laws L den" "cluster_reachable L asSelector cl"
  shows "claims_inv L den cl"
  using assms(2)
proof induction
  case (init bs)
  then show ?case by (simp add: claims_inv_def no_claims_def)
next
  case (step cl cl')
  then show ?case using cluster_step_claims_inv [OF assms(1)] by blast
qed

section \<open>An example library\<close>

text \<open>Ranges of naturals, a start and the number of further addresses; only single addresses are prefix blocks.\<close>

definition range_lib :: "(nat \<times> nat) ipaddr_lib" where
  "range_lib = \<lparr>
     ia_GetAddress = (\<lambda>s. if CHR ''/'' \<in> set s
        then Some (length (takeWhile (\<lambda>c. c \<noteq> CHR ''/'') s), length (dropWhile (\<lambda>c. c \<noteq> CHR ''/'') s) - 1) else None),
     ia_String = (\<lambda>(a, l). replicate a CHR ''.'' @ CHR ''/'' # replicate l CHR ''.''),
     ia_Subtract = (\<lambda>(a, l) (b, m). map (\<lambda>x. (x, 0)) (filter (\<lambda>x. \<not> (b \<le> x \<and> x \<le> b + m)) [a ..< Suc (a + l)])),
     ia_Span = (\<lambda>(a, l). map (\<lambda>x. (x, 0)) [a ..< Suc (a + l)]),
     ia_Merge = (\<lambda>bs. concat (map (\<lambda>(a, l). map (\<lambda>x. (x, 0)) [a ..< Suc (a + l)]) bs)),
     ia_GetBitCount = (\<lambda>_. 2),
     ia_GetPrefixLen = (\<lambda>(a, l). if l = 0 then Some 2 else None),
     ia_FirstBlock = (\<lambda>b _. Some b),
     ia_SetPrefixLenZeroed = (\<lambda>(a, l) _. Some (a, 0))\<rparr>"

definition range_den :: "nat \<times> nat \<Rightarrow> nat set" where
  "range_den b = {fst b .. fst b + snd b}"

lemma range_singles: "\<Union> (range_den ` set (map (\<lambda>x. (x, 0)) xs)) = set xs"
  by (auto simp: range_den_def)

lemma range_merge: "\<Union> (range_den ` set (ia_Merge range_lib bs)) = \<Union> (range_den ` set bs)"
proof -
  have "\<Union> (range_den ` set (ia_Merge range_lib bs)) = (\<Union>b \<in> set bs. set [fst b ..< Suc (fst b + snd b)])"
    unfolding range_lib_def by (auto simp: range_den_def split_beta)
  then show ?thesis by (auto simp: range_den_def)
qed

lemma range_laws: "ipaddr_laws range_lib range_den"
  unfolding ipaddr_laws_def
proof (intro conjI)
  show "\<forall>b. range_den b \<noteq> {}" by (simp add: range_den_def)
  show "\<forall>a b. \<Union> (range_den ` set (ia_Subtract range_lib a b)) = range_den a - range_den b"
    by (auto simp: range_lib_def range_den_def)
  show "\<forall>b. \<Union> (range_den ` set (ia_Span range_lib b)) = range_den b"
    unfolding range_lib_def ipaddr_lib.simps split_beta range_singles by (auto simp: range_den_def)
  show "\<forall>bs. bs \<noteq> [] \<longrightarrow> \<Union> (range_den ` set (ia_Merge range_lib bs)) = \<Union> (range_den ` set bs) \<and>
      (\<forall>b \<in> set (ia_Merge range_lib bs). prefix_block range_lib range_den b)"
    by (simp add: range_merge) (auto simp: range_lib_def range_den_def prefix_block_def)
  show "\<forall>b p n. ia_GetPrefixLen range_lib b = Some p \<and> p \<le> n \<and> n \<le> ia_GetBitCount range_lib b \<longrightarrow>
      (\<exists>s. ia_FirstBlock range_lib b n = Some s \<and> range_den s \<subseteq> range_den b \<and>
        card (range_den s) = 2 ^ nat (ia_GetBitCount range_lib b - n))"
    by (auto simp: range_lib_def range_den_def split: if_splits)
  show "\<forall>b. \<exists>b'. ia_GetAddress range_lib (ia_String range_lib b) = Some b' \<and> range_den b' = range_den b"
    by (auto simp: range_lib_def range_den_def takeWhile_append dropWhile_append)
qed

definition any_selector :: "unit \<Rightarrow> string + (labels \<Rightarrow> bool)" where
  "any_selector _ = Inr (\<lambda>_. True)"

definition example_claim :: "string \<Rightarrow> claim_status \<Rightarrow> unit cidr_claim" where
  "example_claim name status = \<lparr>cc_Name = name, cc_Generation = 1, cc_Selector = (), cc_SizeBit = 0, cc_Status = status\<rparr>"

definition no_failures :: api_failures where
  "no_failures = \<lparr>fail_get = False, fail_list_blocks = False, fail_list_claims = False, fail_patch = False\<rparr>"

definition example_blocks :: "cidr_block list" where
  "example_blocks = [\<lparr>cb_Name = ''b'', cb_Labels = [], cb_CIDR = ''/...''\<rparr>]"

definition ready_at :: "string \<Rightarrow> claim_status" where
  "ready_at cidr = \<lparr>cs_ObservedGeneration = 1, cs_State = Ready, cs_Message = [], cs_CIDRBlockName = ''b'',
     cs_CIDR = cidr, cs_SizeBit = 0\<rparr>"

definition example_cluster :: "claim_status list \<Rightarrow> unit cluster" where
  "example_cluster ss = \<lparr>cl_claims = map2 example_claim [''x'', ''y''] ss, cl_blocks = example_blocks\<rparr>"

lemmas example_cluster_defs = example_cluster_def example_claim_def example_blocks_def no_status_def ready_at_def
  no_failures_def any_selector_def

lemma example_reconcile:
  "claim_Reconcile range_lib any_selector id no_failures ''x'' (example_cluster [no_status, no_status])
     = Returns (example_cluster [ready_at ''./'', no_status], Done)"
  "claim_Reconcile range_lib any_selector id no_failures ''y'' (example_cluster [ready_at ''./'', no_status])
     = Returns (example_cluster [ready_at ''./'', ready_at ''../''], Done)"
  by code_simp+

section \<open>Properties\<close>

text \<open>
  C5. No two claims that name the same block hold a common address, in every cluster that
  reconciliations (with any failing calls) and changes by users can reach.
\<close>
theorem claims_never_overlap:
  assumes "ipaddr_laws L den" "cluster_reachable L asSelector cl"
    and "c \<in> set (cl_claims cl)" "d \<in> set (cl_claims cl)" "cc_Name c \<noteq> cc_Name d"
    and "cs_CIDRBlockName (cc_Status c) = cs_CIDRBlockName (cc_Status d)" "cs_CIDRBlockName (cc_Status c) \<noteq> []"
    and "ia_GetAddress L (cs_CIDR (cc_Status c)) = Some a" "ia_GetAddress L (cs_CIDR (cc_Status d)) = Some b"
  shows "den a \<inter> den b = {}"
proof -
  from reachable_claims_inv [OF assms(1,2)] assms(3-5) have "apart L den (cc_Status c) (cc_Status d)"
    unfolding claims_inv_def by blast
  with assms(6-9) show ?thesis unfolding apart_def by blast
qed

lemma example_reachable:
  "cluster_reachable range_lib any_selector (example_cluster [ready_at ''./'', ready_at ''../''])"
proof -
  have 0: "cluster_reachable range_lib any_selector (no_claims example_blocks :: unit cluster)"
    by (rule cluster_reachable.init)
  have 1: "cluster_reachable range_lib any_selector
      (\<lparr>cl_claims = [example_claim ''x'' no_status], cl_blocks = example_blocks\<rparr> :: unit cluster)"
    using cluster_reachable.step [OF 0 cluster_step.create [where name = "''x''" and n = 0 and sel = "()"]]
    by (simp add: no_claims_def example_claim_def)
  have 2: "cluster_reachable range_lib any_selector (example_cluster [no_status, no_status])"
    using cluster_reachable.step [OF 1 cluster_step.create [where name = "''y''" and n = 0 and sel = "()"]]
    by (simp add: example_claim_def example_cluster_def)
  have id: "\<forall>bs :: cidr_block list. set (id bs) = set bs" by simp
  from cluster_reachable.step [OF 2 cluster_step.reconcile [OF id example_reconcile(1)]]
  show ?thesis
    by (rule cluster_reachable.step [OF _ cluster_step.reconcile [OF id example_reconcile(2)]])
qed

theorem claims_never_overlap_witness: "range_den (1, 0) \<inter> range_den (2, 0) = {}"
  by (rule claims_never_overlap [OF range_laws example_reachable,
        of "example_claim ''x'' (ready_at ''./'')" "example_claim ''y'' (ready_at ''../'')"])
    (simp_all add: example_cluster_defs range_lib_def)



text \<open>
  A reconciliation settles a claim: after one that ends without a failure and leaves the
  claim ready, every later reconciliation of the claim leaves the cluster as it is, whatever
  the order of the blocks and whichever calls fail, and asks for no retry.
\<close>
lemma ready_claim_is_settled:
  assumes "claim_Reconcile L asSelector shuffle fails name cl = Returns (cl', Done)"
    and "get_claim name cl' = Some c'" "cs_State (cc_Status c') = Ready"
  shows "claim_Reconcile L' asSelector' shuffle' fails' name cl' = Returns (cl', if fail_get fails' then Failed else Done)"
proof -
  have "cs_ObservedGeneration (cc_Status c') = cc_Generation c'"
  proof (cases "get_claim name cl")
    case None
    with assms show ?thesis by (auto simp: claim_Reconcile_def split: if_splits)
  next
    case (Some c)
    note c = get_claim_SomeD [OF Some] and c' = get_claim_SomeD [OF assms(2)]
    have observed: ?thesis if "claim_updateStatus fails c status Done cl = (cl', Done)" for status
    proof -
      from that have "cl' = set_status name (status\<lparr>cs_ObservedGeneration := cc_Generation c\<rparr>) cl"
        using c by (auto simp: claim_updateStatus_def set_status_def split: if_splits)
      moreover have "get_claim name (set_status name (status\<lparr>cs_ObservedGeneration := cc_Generation c\<rparr>) cl) =
          Some (c\<lparr>cc_Status := status\<lparr>cs_ObservedGeneration := cc_Generation c\<rparr>\<rparr>)"
        using Some unfolding set_status_def get_claim_set_status by (simp add: get_claim_def)
      ultimately show ?thesis using assms(2) by auto
    qed
    have requeue: "claim_updateStatus fails c status (RequeueAfter d) cl \<noteq> (cl', Done)" for status d
      by (simp add: claim_updateStatus_def)
    show ?thesis
      using assms(1,2) Some observed requeue unfolding claim_Reconcile_def
      by (auto simp: Let_def bind_outcome_eq_Returns split: if_splits sum.splits option.splits prod.splits)
  qed
  then show ?thesis
    using assms(2,3) by (simp add: claim_Reconcile_def)
qed

text \<open>A ready claim that is resized keeps its CIDR; only the generation is recorded.\<close>

lemma resized_claim_keeps_size:
  "claim_Reconcile range_lib any_selector id no_failures ''x''
     \<lparr>cl_claims = [(example_claim ''x'' (ready_at ''./''))\<lparr>cc_Generation := 2, cc_SizeBit := 1\<rparr>], cl_blocks = example_blocks\<rparr>
   = Returns (\<lparr>cl_claims = [(example_claim ''x'' ((ready_at ''./'')\<lparr>cs_ObservedGeneration := 2\<rparr>))
       \<lparr>cc_Generation := 2, cc_SizeBit := 1\<rparr>], cl_blocks = example_blocks\<rparr>, Done)"
  by code_simp

end
