(* ===== verification/PacketFilter.thy ===== *)
theory PacketFilter
  imports Prelude
begin

text \<open>
  The socket filter of the raw receiver, \<open>generateInstructions\<close> in \<open>rawsockrecv/bpf.go\<close>, with the
  instructions of classic BPF that it uses and the machine that executes them; and the
  reference classifier of Ethernet frames that the filter implements.
\<close>

section \<open>The machine\<close>

text \<open>
  A load out of the packet's bounds ends the program and drops the packet (it returns 0). Jumps go
  forward only, so a program runs on its own tail; running past the end is \<open>None\<close> (the kernel
  refuses such programs).
\<close>

type_synonym reg = "32 word"

datatype bpf_reg = RegA | RegX
datatype jump_test = JumpEqual | JumpBitsSet

datatype instr =
    LoadAbsolute nat nat
  | LoadIndirect nat nat
  | LoadMemShift nat
  | LoadConstant bpf_reg reg
  | ALUOpAddX
  | TAX
  | Jump nat
  | JumpIf jump_test reg nat nat
  | RetConstant nat

definition be_nat :: "byte list \<Rightarrow> nat" where
  "be_nat bs = foldl (\<lambda>n b. n * 256 + unat b) 0 bs"

definition load :: "byte list \<Rightarrow> nat \<Rightarrow> nat \<Rightarrow> reg option" where
  "load pkt off n =
     (if off + n \<le> length pkt then Some (of_nat (be_nat (take n (drop off pkt)))) else None)"

fun jump_holds :: "jump_test \<Rightarrow> reg \<Rightarrow> reg \<Rightarrow> bool" where
  "jump_holds JumpEqual a k \<longleftrightarrow> a = k"
| "jump_holds JumpBitsSet a k \<longleftrightarrow> and a k \<noteq> 0"

function (sequential) exec :: "instr list \<Rightarrow> byte list \<Rightarrow> reg \<Rightarrow> reg \<Rightarrow> nat option" where
  "exec [] pkt a x = None"
| "exec (LoadAbsolute off n # is) pkt a x =
     (case load pkt off n of None \<Rightarrow> Some 0 | Some v \<Rightarrow> exec is pkt v x)"
| "exec (LoadIndirect off n # is) pkt a x =
     (case load pkt (unat x + off) n of None \<Rightarrow> Some 0 | Some v \<Rightarrow> exec is pkt v x)"
| "exec (LoadMemShift off # is) pkt a x =
     (case load pkt off 1 of None \<Rightarrow> Some 0 | Some v \<Rightarrow> exec is pkt a (4 * (and v 0xF)))"
| "exec (LoadConstant RegA k # is) pkt a x = exec is pkt k x"
| "exec (LoadConstant RegX k # is) pkt a x = exec is pkt a k"
| "exec (ALUOpAddX # is) pkt a x = exec is pkt (a + x) x"
| "exec (TAX # is) pkt a x = exec is pkt a a"
| "exec (Jump n # is) pkt a x = exec (drop n is) pkt a x"
| "exec (JumpIf t k m n # is) pkt a x = exec (drop (if jump_holds t a k then m else n) is) pkt a x"
| "exec (RetConstant n # is) pkt a x = Some n"
  by pat_completeness auto
termination by (relation "measure (\<lambda>(is, _). length is)") auto

section \<open>The filter\<close>

definition generateInstructions :: "int \<Rightarrow> instr list" where
  "generateInstructions port =
    [LoadAbsolute 12 2,
     JumpIf JumpEqual 0x86dd 0 4,
     LoadAbsolute 20 1,
     JumpIf JumpEqual 0x11 0 18,
     LoadConstant RegX (14 + 40),
     Jump 9,
     JumpIf JumpEqual 0x800 0 15,
     LoadAbsolute 23 1,
     JumpIf JumpEqual 0x11 0 13,
     LoadAbsolute 20 2,
     JumpIf JumpBitsSet 0x1fff 11 0,
     LoadMemShift 14,
     LoadConstant RegA 14,
     ALUOpAddX,
     TAX,
     LoadIndirect 2 2,
     JumpIf JumpEqual (of_int port) 0 5,
     LoadIndirect 8 1,
     JumpIf JumpBitsSet 128 2 0,
     LoadIndirect 12 4,
     JumpIf JumpEqual 0x2112a442 0 1,
     RetConstant (2 ^ 18),
     RetConstant 0]"

section \<open>The reference classifier\<close>

text \<open>
  A UDP segment that is carried by IPv6 without extension headers, or by an IPv4 packet that is
  not a later fragment, is found after the Ethernet header; its payload is wanted when it is a
  disco packet or when it has the cookie of STUN.
\<close>

definition udp_segment :: "byte list \<Rightarrow> byte list option" where
  "udp_segment frame =
     (let ip = drop 14 frame
      in if take 2 (drop 12 frame) = [0x86, 0xdd]
         then (if 6 < length ip \<and> ip ! 6 = 17 then Some (drop 40 ip) else None)
         else if take 2 (drop 12 frame) = [0x08, 0x00]
         then (if 9 < length ip \<and> ip ! 9 = 17 \<and> (unat (ip ! 6) * 256 + unat (ip ! 7)) mod 2 ^ 13 = 0
               then Some (drop (4 * (unat (ip ! 0) mod 16)) ip) else None)
         else None)"

definition wanted_payload :: "byte list \<Rightarrow> bool" where
  "wanted_payload p \<longleftrightarrow> p \<noteq> [] \<and> (bit (p ! 0) 7 \<or> take 4 (drop 4 p) = [0x21, 0x12, 0xa4, 0x42])"

definition hijacked :: "int \<Rightarrow> byte list \<Rightarrow> bool" where
  "hijacked port frame =
     (case udp_segment frame of
        None \<Rightarrow> False
      | Some udp \<Rightarrow> 8 < length udp \<and> int (be_nat (take 2 (drop 2 udp))) = port \<and> wanted_payload (drop 8 udp))"

section \<open>Loads\<close>

lemma be_nat_simps [simp]: "be_nat [] = 0" "be_nat (bs @ [b]) = be_nat bs * 256 + unat b"
  by (simp_all add: be_nat_def)

lemma byte_bound: "unat (b :: byte) < 256"
  using unsigned_less [of b, where ?'a = nat] by simp

lemma be_nat_less: "be_nat bs < 256 ^ length bs"
proof (induction bs rule: rev_induct)
  case (snoc b bs)
  then show ?case using byte_bound [of b] by simp
qed simp

lemma shift_byte_inject: "b < 256 \<Longrightarrow> c < 256 \<Longrightarrow> (n :: nat) * 256 + b = m * 256 + c \<longleftrightarrow> n = m \<and> b = c"
  by (cases n m rule: linorder_cases) auto

lemma be_nat_inject: "length bs = length cs \<Longrightarrow> be_nat bs = be_nat cs \<longleftrightarrow> bs = cs"
proof (induction bs arbitrary: cs rule: rev_induct)
  case (snoc b bs)
  from snoc.prems obtain c cs' where cs: "cs = cs' @ [c]" "length cs' = length bs"
    by (cases cs rule: rev_cases) auto
  have "be_nat bs * 256 + unat b = be_nat cs' * 256 + unat c \<longleftrightarrow> be_nat bs = be_nat cs' \<and> unat b = unat c"
    by (rule shift_byte_inject) (rule byte_bound)+
  also have "\<dots> \<longleftrightarrow> bs = cs' \<and> b = c"
    using snoc.IH [of cs'] cs(2) by (simp add: word_eq_iff_unsigned [where ?'a = nat])
  finally show ?case unfolding cs(1) by simp
qed simp

lemma of_nat_reg: "n < 2 ^ 32 \<Longrightarrow> unat (of_nat n :: reg) = n"
  by (simp add: unsigned_of_nat take_bit_nat_eq_self)

lemma be_nat_reg:
  assumes "length bs \<le> 4"
  shows "unat (of_nat (be_nat bs) :: reg) = be_nat bs"
proof (rule of_nat_reg)
  have "(256 :: nat) ^ length bs \<le> 256 ^ 4"
    using assms by (intro power_increasing) auto
  with be_nat_less [of bs] show "be_nat bs < 2 ^ 32" by simp
qed

text \<open>A loaded value is compared with the value of as many given bytes.\<close>

lemma load_equal:
  assumes "off + length ks \<le> length pkt" "length ks \<le> 4"
  shows "(of_nat (be_nat (take (length ks) (drop off pkt))) :: reg) = of_nat (be_nat ks) \<longleftrightarrow>
    take (length ks) (drop off pkt) = ks"
proof -
  have len: "length (take (length ks) (drop off pkt)) = length ks"
    using assms(1) by simp
  have "(of_nat (be_nat (take (length ks) (drop off pkt))) :: reg) = of_nat (be_nat ks) \<longleftrightarrow>
      be_nat (take (length ks) (drop off pkt)) = be_nat ks"
    using be_nat_reg [of "take (length ks) (drop off pkt)"] be_nat_reg [of ks] len assms(2) by metis
  then show ?thesis using be_nat_inject [OF len] by simp
qed

lemma load_None [simp]: "load pkt off n = None \<longleftrightarrow> length pkt < off + n"
  by (auto simp: load_def)

section \<open>The filter implements the classifier\<close>

text \<open>The program from its load of the destination port on, with X at the UDP header.\<close>

definition match_udp :: "int \<Rightarrow> instr list" where
  "match_udp port = drop 15 (generateInstructions port)"

lemma generateInstructions_split:
  "generateInstructions port =
    [LoadAbsolute 12 2, JumpIf JumpEqual 0x86dd 0 4, LoadAbsolute 20 1, JumpIf JumpEqual 0x11 0 18,
     LoadConstant RegX (14 + 40), Jump 9, JumpIf JumpEqual 0x800 0 15, LoadAbsolute 23 1,
     JumpIf JumpEqual 0x11 0 13, LoadAbsolute 20 2, JumpIf JumpBitsSet 0x1fff 11 0, LoadMemShift 14,
     LoadConstant RegA 14, ALUOpAddX, TAX] @ match_udp port"
  by (simp add: generateInstructions_def match_udp_def)

lemmas match_udp = match_udp_def [unfolded generateInstructions_def, simplified]

lemma be_nat_1: "be_nat [b] = unat b"
  by (simp add: be_nat_def)

lemma take_1: "i < length xs \<Longrightarrow> take 1 (drop i xs) = [xs ! i]"
  by (simp add: Cons_nth_drop_Suc [symmetric])

lemma load_1: "off < length pkt \<Longrightarrow> load pkt off 1 = Some (ucast (pkt ! off))"
  using take_1 [of off pkt] by (simp add: load_def be_nat_1 Suc_le_eq)

lemma load_1': "off < length pkt \<Longrightarrow> load pkt off (Suc 0) = Some (ucast (pkt ! off))"
  using load_1 by simp

lemma load_out [simp]: "length pkt < off + n \<Longrightarrow> load pkt off n = None"
  by simp

lemma load_const:
  assumes "off + length ks \<le> length pkt" "length ks = n" "n \<le> 4" "of_nat (be_nat ks) = k"
  shows "\<exists>v. load pkt off n = Some v \<and> (v = k \<longleftrightarrow> take n (drop off pkt) = ks)"
  using load_equal [of off ks pkt] assms by (auto simp: load_def)

definition match_payload :: "int \<Rightarrow> instr list" where
  "match_payload port = drop 17 (generateInstructions port)"

lemmas match_payload = match_payload_def [unfolded generateInstructions_def, simplified]

lemma bit_7: "and (ucast (b :: byte)) 128 = (0 :: reg) \<longleftrightarrow> \<not> bit b 7"
proof -
  have "bit (ucast b :: reg) 7 \<longleftrightarrow> and (ucast b) (2 ^ 7) \<noteq> (0 :: reg)"
    using and_exp_eq_0_iff_not_bit [of "ucast b :: reg" 7] by auto
  then show ?thesis by (simp add: bit_simps)
qed

lemma cookie: "of_nat (be_nat [0x21, 0x12, 0xa4, 0x42]) = (0x2112a442 :: reg)"
  by (simp add: be_nat_def)

lemma exec_match_payload:
  "exec (match_payload port) pkt a x =
    Some (if 8 + unat x < length pkt \<and> wanted_payload (drop (unat x + 8) pkt) then 2 ^ 18 else 0)"
proof (cases "unat x + 8 < length pkt")
  case False
  then show ?thesis by (simp add: match_payload)
next
  case True
  then have first: "load pkt (unat x + 8) 1 = Some (ucast (pkt ! (unat x + 8)))"
    by (rule load_1)
  note first = first [unfolded One_nat_def]
  show ?thesis
  proof (cases "unat x + 12 + 4 \<le> length pkt")
    case False
    then have "length (take 4 (drop 4 (drop (unat x + 8) pkt))) \<noteq> length [0x21, 0x12, 0xa4, 0x42 :: byte]"
      by simp
    then have "take 4 (drop 4 (drop (unat x + 8) pkt)) \<noteq> [0x21, 0x12, 0xa4, 0x42]"
      by metis
    with False show ?thesis
      using True first by (simp add: match_payload bit_7 wanted_payload_def)
  next
    case len: True
    obtain v where "load pkt (unat x + 12) 4 = Some v"
      "v = 0x2112a442 \<longleftrightarrow> take 4 (drop (unat x + 12) pkt) = [0x21, 0x12, 0xa4, 0x42]"
      using load_const [OF _ _ _ cookie, of "unat x + 12" pkt 4] len by auto
    with True first show ?thesis
      by (simp add: match_payload bit_7 wanted_payload_def add_ac)
  qed
qed

lemma exec_match_udp:
  assumes "0 \<le> port" "port < 2 ^ 16"
  defines "udp x pkt \<equiv> drop (unat x) pkt"
  shows "exec (match_udp port) pkt a x =
    Some (if 8 < length (udp x pkt) \<and> int (be_nat (take 2 (drop 2 (udp x pkt)))) = port \<and>
      wanted_payload (drop 8 (udp x pkt)) then 2 ^ 18 else 0)"
proof (cases "unat x + 2 + 2 \<le> length pkt")
  case False
  then show ?thesis by (auto simp: match_udp udp_def)
next
  case True
  let ?n = "be_nat (take 2 (drop (unat x + 2) pkt))"
  have "?n < 2 ^ 32"
    using be_nat_less [of "take 2 (drop (unat x + 2) pkt)"] True by simp
  then have port: "(of_nat ?n :: reg) = of_int port \<longleftrightarrow> int ?n = port"
    using assms by (simp add: word_eq_iff_unsigned [where ?'a = int] unsigned_of_nat unsigned_of_int take_bit_int_eq_self of_nat_take_bit)
  have code: "match_udp port = LoadIndirect 2 2 # JumpIf JumpEqual (of_int port) 0 5 # match_payload port"
    by (simp add: match_udp match_payload)
  have stop: "exec (drop 5 (match_payload port)) pkt b x = Some 0" for b
    by (simp add: match_payload)
  from True have load: "load pkt (unat x + 2) 2 = Some (of_nat ?n)"
    by (simp add: load_def)
  show ?thesis
    unfolding code exec.simps load option.case jump_holds.simps port
    using stop by (auto simp: exec_match_payload udp_def add.commute)
qed

lemma load_known:
  assumes "off + n \<le> length pkt" "n = length ks" "length ks \<le> 4"
  shows "load pkt off n = Some (of_nat (be_nat (take n (drop off pkt))))"
    and "(of_nat (be_nat (take n (drop off pkt))) :: reg) = of_nat (be_nat ks) \<longleftrightarrow> take n (drop off pkt) = ks"
  using assms load_equal [of off ks pkt] by (simp_all add: load_def)

lemma ethertypes:
  "of_nat (be_nat [0x86, 0xdd]) = (0x86dd :: reg)" "of_nat (be_nat [0x08, 0x00]) = (0x800 :: reg)"
  by (simp_all add: be_nat_def)

lemma unat_ucast_byte [simp]: "unat (ucast (b :: byte) :: reg) = unat b"
proof -
  have "unat b < 2 ^ 32" using byte_bound [of b] by simp
  then show ?thesis by (simp add: unsigned_ucast_eq take_bit_nat_eq_self)
qed

lemma byte_equal: "(ucast (b :: byte) :: reg) = 17 \<longleftrightarrow> b = 17"
  by (simp add: word_eq_iff_unsigned [where ?'a = nat])

lemma unat_take_bit: "unat (take_bit n (w :: reg)) = unat w mod 2 ^ n" if "n \<le> 32"
proof -
  have "unat (take_bit n w) = take_bit n (unat w)"
    using that by (simp only: unsigned_take_bit_eq)
  then show ?thesis by (simp only: take_bit_eq_mod)
qed

lemma fragment_bits: "and (w :: reg) 0x1fff = 0 \<longleftrightarrow> unat w mod 2 ^ 13 = 0"
proof -
  have "(0x1fff :: reg) = mask 13" by (simp add: mask_eq_exp_minus_1)
  then have "and w 0x1fff = take_bit 13 w" by (simp add: take_bit_eq_mask)
  moreover have "take_bit 13 w = 0 \<longleftrightarrow> unat (take_bit 13 w) = 0"
    by (simp only: word_eq_iff_unsigned [where ?'a = nat] unsigned_0)
  ultimately show ?thesis
    by (simp only: unat_take_bit)
qed

lemma header_length: "unat (14 + 4 * and (ucast (b :: byte)) 0xF :: reg) = 14 + 4 * (unat b mod 16)"
proof -
  have "(0xF :: reg) = mask 4" by (simp add: mask_eq_exp_minus_1)
  then have "and (ucast b) 0xF = take_bit 4 (ucast b :: reg)" by (simp add: take_bit_eq_mask)
  also have "\<dots> = of_nat (unat b mod 16)"
    by (rule word_eq_iff_unsigned [where ?'a = nat, THEN iffD2])
      (simp only: unat_take_bit unat_ucast_byte, simp add: of_nat_reg)
  finally have "(14 + 4 * and (ucast b) 0xF :: reg) = of_nat (14 + 4 * (unat b mod 16))"
    by simp
  moreover have "14 + 4 * (unat b mod 16) < 2 ^ 32" by simp
  ultimately show ?thesis using of_nat_reg by metis
qed

lemma take_2: "Suc i < length xs \<Longrightarrow> take 2 (drop i xs) = [xs ! i, xs ! Suc i]"
  by (simp add: numeral_2_eq_2 Cons_nth_drop_Suc [symmetric])

lemma be_nat_2: "be_nat [a, b] = unat a * 256 + unat b"
  by (simp add: be_nat_def)

text \<open>The part of the program for an IPv4 packet, and what follows on any other packet.\<close>

definition match_ip4 :: "int \<Rightarrow> instr list" where
  "match_ip4 port = drop 6 (generateInstructions port)"

lemma match_ip4:
  "match_ip4 port = JumpIf JumpEqual 0x800 0 15 # LoadAbsolute 23 1 # JumpIf JumpEqual 0x11 0 13 #
    LoadAbsolute 20 2 # JumpIf JumpBitsSet 0x1fff 11 0 # LoadMemShift 14 # LoadConstant RegA 14 #
    ALUOpAddX # TAX # match_udp port"
  by (simp add: match_ip4_def match_udp_def generateInstructions_def)

lemma reject: "exec (drop n (match_udp port)) pkt a x = Some 0" if "n = 7"
  using that by (simp add: match_udp)

lemma exec_match_ip4:
  assumes port: "0 \<le> port" "port < 2 ^ 16" and a: "a = 0x800 \<longleftrightarrow> take 2 (drop 12 pkt) = [0x08, 0x00]"
    and no6: "take 2 (drop 12 pkt) \<noteq> [0x86, 0xdd]"
  shows "exec (match_ip4 port) pkt a x = Some (if hijacked port pkt then 2 ^ 18 else 0)"
proof -
  have out: "exec (drop 15 (LoadAbsolute 23 1 # JumpIf JumpEqual 0x11 0 13 #
    LoadAbsolute 20 2 # JumpIf JumpBitsSet 0x1fff 11 0 # LoadMemShift 14 # LoadConstant RegA 14 #
    ALUOpAddX # TAX # match_udp port)) pkt b x = Some 0"
    "exec (drop 13 (LoadAbsolute 20 2 # JumpIf JumpBitsSet 0x1fff 11 0 # LoadMemShift 14 # LoadConstant RegA 14 #
    ALUOpAddX # TAX # match_udp port)) pkt b x = Some 0"
    "exec (drop 11 (LoadMemShift 14 # LoadConstant RegA 14 # ALUOpAddX # TAX # match_udp port)) pkt b x = Some 0"
    for b by (simp_all add: reject)
  show ?thesis
  proof (cases "take 2 (drop 12 pkt) = [0x08, 0x00] \<and> 23 < length pkt \<and> pkt ! 23 = 17")
    case False
    have "\<not> hijacked port pkt"
      using False no6 by (auto simp: hijacked_def udp_segment_def Let_def split: if_splits)
    moreover have "exec (match_ip4 port) pkt a x = Some 0"
    proof (cases "a = 0x800 \<and> 23 < length pkt")
      case True
      with False a have "pkt ! 23 \<noteq> 17" by simp
      with True show ?thesis
        unfolding match_ip4 by (simp add: load_1 [unfolded One_nat_def] byte_equal out reject)
    qed (auto simp: match_ip4 reject)
    ultimately show ?thesis by simp
  next
    case True
    let ?off = "unat (pkt ! 20) * 256 + unat (pkt ! 21)"
    have two: "load pkt 20 2 = Some (of_nat ?off)"
      using True take_2 [of 20 pkt] by (simp add: load_def be_nat_2)
    have "?off < 2 ^ 32"
      using byte_bound [of "pkt ! 20"] byte_bound [of "pkt ! 21"] by simp
    then have frag: "and (of_nat ?off :: reg) 0x1fff = 0 \<longleftrightarrow> ?off mod 2 ^ 13 = 0"
      using of_nat_reg by (simp only: fragment_bits)
    have code: "exec (match_ip4 port) pkt a x = (if ?off mod 2 ^ 13 = 0
        then exec (match_udp port) pkt (14 + 4 * and (ucast (pkt ! 14)) 0xF) (14 + 4 * and (ucast (pkt ! 14)) 0xF)
        else Some 0)"
      using True a two frag unfolding match_ip4
      by (simp add: load_1 [unfolded One_nat_def] byte_equal reject)
    have "udp_segment pkt = (if ?off mod 2 ^ 13 = 0 then Some (drop (14 + 4 * (unat (pkt ! 14) mod 16)) pkt) else None)"
      using True no6 by (auto simp: udp_segment_def Let_def add.commute)
    then show ?thesis
      unfolding code exec_match_udp [OF port] header_length hijacked_def by simp
  qed
qed

lemma exec_generateInstructions:
  assumes "0 \<le> port" "port < 2 ^ 16"
  shows "exec (generateInstructions port) frame a x = Some (if hijacked port frame then 2 ^ 18 else 0)"
proof (cases "14 \<le> length frame")
  case False
  then show ?thesis
    by (auto simp: generateInstructions_split hijacked_def udp_segment_def Let_def)
next
  case True
  let ?type = "of_nat (be_nat (take 2 (drop 12 frame))) :: reg"
  let ?tail = "JumpIf JumpEqual 0x86dd 0 4 # LoadAbsolute 20 1 # JumpIf JumpEqual 0x11 0 18 #
    LoadConstant RegX (14 + 40) # Jump 9 # match_ip4 port"
  have load: "load frame 12 2 = Some ?type"
    using True by (simp add: load_def)
  have type6: "?type = 0x86dd \<longleftrightarrow> take 2 (drop 12 frame) = [0x86, 0xdd]"
    and type4: "?type = 0x800 \<longleftrightarrow> take 2 (drop 12 frame) = [0x08, 0x00]"
    using load_known(2) [of 12 2 frame "[0x86, 0xdd]"] load_known(2) [of 12 2 frame "[0x08, 0x00]"] True
    unfolding ethertypes by simp_all
  have "generateInstructions port = LoadAbsolute 12 2 # ?tail"
    by (simp add: generateInstructions_split match_ip4)
  then have rest: "exec (generateInstructions port) frame a x = exec ?tail frame ?type x"
    by (simp only: exec.simps(2) load option.case)
  show ?thesis
  proof (cases "take 2 (drop 12 frame) = [0x86, 0xdd]")
    case False
    with type6 have "exec (generateInstructions port) frame a x = exec (match_ip4 port) frame ?type x"
      unfolding rest by simp
    then show ?thesis
      using exec_match_ip4 [OF assms type4 False] by simp
  next
    case six: True
    show ?thesis
    proof (cases "20 < length frame \<and> frame ! 20 = 17")
      case False
      have "\<not> hijacked port frame"
        using six False by (auto simp: hijacked_def udp_segment_def Let_def)
      moreover have "exec (generateInstructions port) frame a x = Some 0"
        unfolding rest using six type6 False
        by (cases "20 < length frame") (simp_all add: load_1 [unfolded One_nat_def] byte_equal match_ip4 reject)
      ultimately show ?thesis by simp
    next
      case udp: True
      have "exec (generateInstructions port) frame a x = exec (match_udp port) frame 17 54"
        unfolding rest using six type6 udp
        by (simp add: load_1 [unfolded One_nat_def] byte_equal match_ip4)
      moreover have "udp_segment frame = Some (drop 54 frame)"
        using six udp by (auto simp: udp_segment_def Let_def)
      ultimately show ?thesis
        by (simp add: exec_match_udp [OF assms] hijacked_def)
    qed
  qed
qed

section \<open>Property\<close>

text \<open>
  C6. The socket filter is the classifier: on every frame, the program that
  \<open>generateInstructions\<close> yields for a UDP port ends with one of its two returns, and it accepts
  the frame exactly when the frame carries, over IPv6 or as the first fragment of an IPv4 packet
  with any header length, a UDP segment for the port whose payload is a disco packet or has
  the cookie of STUN.
\<close>
theorem filter_is_classifier:
  assumes "0 \<le> port" "port < 2 ^ 16"
  shows "exec (generateInstructions port) frame a x = Some (if hijacked port frame then 2 ^ 18 else 0)"
  by (rule exec_generateInstructions [OF assms])

text \<open>A frame with an IPv4 header of 24 bytes and the payload \<open>[0x81]\<close>.\<close>

definition example_frame :: "byte list" where
  "example_frame = [0, 0, 0, 0, 0, 0, 0, 0, 0, 0, 0, 0, 0x08, 0x00,
     0x46, 0, 0, 0, 0, 0, 0, 0, 0, 17, 0, 0, 0, 0, 0, 0, 0, 0, 0, 0, 0, 0, 0, 0,
     0, 7, 0xca, 0x6c, 0, 0, 0, 0, 0x81]"

theorem filter_is_classifier_witness: "exec (generateInstructions 51820) example_frame 0 0 = Some (2 ^ 18)"
proof -
  have "hijacked 51820 example_frame" by (simp add: hijacked_def udp_segment_def wanted_payload_def be_nat_def example_frame_def Let_def)
  then show ?thesis
    using filter_is_classifier [of 51820 example_frame 0 0] by simp
qed

end
