(* ===== verification/Receivers.thy ===== *)
theory Receivers
  imports PacketFilter Containers "HOL-Library.Sublist"
begin

text \<open>
  \<open>pkg/hijack\<close>: the two receivers of hijacked datagrams (a raw socket, and XDP programs with
  one receiver per interface behind a controller) and the connection over them. The layer
  parser of gopacket is the parameter \<open>D\<close>; the interface addresses that the system
  returns are arguments of the operations that ask for them.
\<close>

section \<open>Layers and messages\<close>

text \<open>
  The parser decodes a frame into layers that it reuses from frame to frame: it returns their
  new contents and, unless it fails, the types of the layers it decoded.
\<close>

datatype layer = LayerTypeEthernet | LayerTypeIPv4 | LayerTypeIPv6 | LayerTypeUDP | LayerTypePayload

record frame_layers =
  ip4_SrcIP :: "byte list"
  ip4_DstIP :: "byte list"
  ip6_SrcIP :: "byte list"
  ip6_DstIP :: "byte list"
  udp_SrcPort :: u16
  payload_bytes :: "byte list"

type_synonym decoder = "byte list \<Rightarrow> frame_layers \<Rightarrow> frame_layers \<times> layer list option"

definition AddrFromSlice :: "byte list \<Rightarrow> ip_addr" where
  "AddrFromSlice bs =
     (if length bs = 4 then IP4 (of_nat (be_nat bs))
      else if length bs = 16 then IP6 (of_nat (be_nat bs)) [] else InvalidIP)"

text \<open>The payload of a message is an array of 2048 bytes, of which \<open>msg_len\<close> count.\<close>

record message =
  msg_src :: addr_port
  msg_payload :: "byte list"
  msg_len :: nat

definition copy_to :: "byte list \<Rightarrow> byte list \<Rightarrow> byte list" where
  "copy_to dst src = take (length dst) src @ drop (length src) dst"

definition new_message :: message where
  "new_message = \<lparr>msg_src = zero_addr_port, msg_payload = replicate 2048 0, msg_len = 0\<rparr>"

text \<open>A send on a buffered channel that gives up when the buffer is full.\<close>

definition offer :: "nat \<Rightarrow> 'a option \<Rightarrow> 'a list \<Rightarrow> 'a list" where
  "offer cap x q = (case x of None \<Rightarrow> q | Some m \<Rightarrow> if length q < cap then q @ [m] else q)"

section \<open>The loop body of both receivers\<close>

text \<open>
  The source and destination of a decoded frame, \<open>None\<close> where neither version of IP was
  decoded; and the message for it, written over a pooled one.
\<close>

definition frame_addrs :: "layer list \<Rightarrow> frame_layers \<Rightarrow> (ip_addr \<times> ip_addr) option" where
  "frame_addrs decoded l =
     (if LayerTypeIPv4 \<in> set decoded then Some (AddrFromSlice (ip4_SrcIP l), AddrFromSlice (ip4_DstIP l))
      else if LayerTypeIPv6 \<in> set decoded then Some (AddrFromSlice (ip6_SrcIP l), AddrFromSlice (ip6_DstIP l))
      else None)"

definition fill_message :: "message \<Rightarrow> ip_addr \<Rightarrow> frame_layers \<Rightarrow> message" where
  "fill_message pooled srcIP l =
     pooled\<lparr>msg_src := AddrPort srcIP (udp_SrcPort l),
            msg_payload := copy_to (msg_payload pooled) (payload_bytes l),
            msg_len := length (payload_bytes l)\<rparr>"

definition frame_message :: "decoder \<Rightarrow> (ip_addr \<Rightarrow> bool) \<Rightarrow> message \<Rightarrow> byte list \<Rightarrow> frame_layers
    \<Rightarrow> frame_layers \<times> message option" where
  "frame_message D check pooled frame layers =
     (case D frame layers of
        (l, None) \<Rightarrow> (l, None)
      | (l, Some decoded) \<Rightarrow>
          (case frame_addrs decoded l of
             None \<Rightarrow> (l, None)
           | Some (srcIP, dstIP) \<Rightarrow> (l, if check dstIP then Some (fill_message pooled srcIP l) else None)))"

datatype recv_result = RecvClosed | Received nat addr_port "byte list"

text \<open>
  \<open>Recv\<close> waits for the channel or for the receiver to be closed; where both are ready, Go picks
  either, which is the argument \<open>pick\<close>. \<open>None\<close> means that the call still waits.
\<close>

definition Recv :: "bool \<Rightarrow> bool \<Rightarrow> byte list \<Rightarrow> message list \<Rightarrow> (recv_result \<times> message list) option" where
  "Recv closed pick b ch =
     (if closed \<and> (pick \<or> ch = []) then Some (RecvClosed, ch)
      else case ch of
             [] \<Rightarrow> None
           | msg # ch' \<Rightarrow> Some (Received (msg_len msg) (msg_src msg)
                              (copy_to b (take (msg_len msg) (msg_payload msg))), ch'))"

section \<open>The raw socket\<close>

record raw_receiver =
  rr_layers :: frame_layers
  rr_ch :: "message list"
  rr_addrs :: "ip_addr list"
  rr_closed :: bool

definition raw_run :: "decoder \<Rightarrow> message \<times> byte list \<Rightarrow> raw_receiver \<Rightarrow> raw_receiver" where
  "raw_run D = (\<lambda>(pooled, frame) r.
     if 2048 < length frame then r
     else case frame_message D (\<lambda>a. set_Contains a (rr_addrs r)) pooled frame (rr_layers r) of
            (l, msg) \<Rightarrow> r\<lparr>rr_layers := l, rr_ch := offer 10 msg (rr_ch r)\<rparr>)"

definition raw_Recv :: "bool \<Rightarrow> byte list \<Rightarrow> raw_receiver \<Rightarrow> (recv_result \<times> raw_receiver) option" where
  "raw_Recv pick b r = map_option (\<lambda>(res, ch). (res, r\<lparr>rr_ch := ch\<rparr>)) (Recv (rr_closed r) pick b (rr_ch r))"

text \<open>The addresses of the interfaces, \<open>None\<close> where the system call fails; the result is whether it worked.\<close>

definition interface_addrs :: "byte list list \<Rightarrow> ip_addr list" where
  "interface_addrs netAddrs = FromSlice (slice_Map (\<lambda>ip. unmap (AddrFromSlice ip)) netAddrs)"

definition raw_Refresh :: "byte list list option \<Rightarrow> raw_receiver \<Rightarrow> raw_receiver \<times> bool" where
  "raw_Refresh netAddrs r =
     (case netAddrs of None \<Rightarrow> (r, False) | Some ips \<Rightarrow> (r\<lparr>rr_addrs := interface_addrs ips\<rparr>, True))"

text \<open>A second \<open>Close\<close> panics inside and recovers.\<close>

definition raw_Close :: "raw_receiver \<Rightarrow> raw_receiver" where
  "raw_Close r = r\<lparr>rr_closed := True\<rparr>"

section \<open>XDP\<close>

record xdp_receiver =
  xr_layers :: frame_layers
  xr_ch :: "message list"
  xr_closed :: bool

text \<open>A record of the ring buffer: the length, little endian, and 2048 bytes of packet.\<close>

definition read_event :: "byte list \<Rightarrow> (nat \<times> byte list) option" where
  "read_event raw =
     (if length raw < 4 + 2048 then None else Some (be_nat (rev (take 4 raw)), take 2048 (drop 4 raw)))"

definition xdp_run :: "decoder \<Rightarrow> (ip_addr \<Rightarrow> bool) \<Rightarrow> message \<times> byte list \<Rightarrow> xdp_receiver \<Rightarrow> xdp_receiver" where
  "xdp_run D addressFilter = (\<lambda>(pooled, raw) r.
     case read_event raw of
       None \<Rightarrow> r
     | Some (len, packet) \<Rightarrow>
         if 2048 < len then r
         else case frame_message D addressFilter pooled (take len packet) (xr_layers r) of
                (l, msg) \<Rightarrow> r\<lparr>xr_layers := l, xr_ch := offer 10 msg (xr_ch r)\<rparr>)"

definition xdp_Recv :: "bool \<Rightarrow> byte list \<Rightarrow> xdp_receiver \<Rightarrow> (recv_result \<times> xdp_receiver) option" where
  "xdp_Recv pick b r = map_option (\<lambda>(res, ch). (res, r\<lparr>xr_ch := ch\<rparr>)) (Recv (xr_closed r) pick b (xr_ch r))"

definition xdp_Close :: "xdp_receiver \<Rightarrow> xdp_receiver" where
  "xdp_Close r = r\<lparr>xr_closed := True\<rparr>"

text \<open>One goroutine per interface: \<open>Run\<close> starts it unless one with the key is running.\<close>

definition sf_Run :: "string \<Rightarrow> (string, unit) syncmap \<Rightarrow> (string, unit) syncmap \<times> bool" where
  "sf_Run key running = (case sm_LoadOrStore key () running of (running', _, loaded) \<Rightarrow> (running', \<not> loaded))"

definition sf_exit :: "string \<Rightarrow> (string, unit) syncmap \<Rightarrow> (string, unit) syncmap" where
  "sf_exit key running = sm_Delete key running"

record xdp_controller =
  xc_ch :: "message list"
  xc_addrs :: "ip_addr list"
  xc_closed :: bool
  xc_group :: "(string, unit) syncmap"

text \<open>The goroutine of an interface hands on what its receiver returned in a buffer of 2048 bytes.\<close>

definition xc_forward :: "message \<Rightarrow> nat \<times> addr_port \<times> byte list \<Rightarrow> xdp_controller \<Rightarrow> xdp_controller" where
  "xc_forward pooled = (\<lambda>(len, addrPort, buf) c.
     let msg = pooled\<lparr>msg_payload := copy_to (msg_payload pooled) (take len buf), msg_src := addrPort, msg_len := len\<rparr>
     in c\<lparr>xc_ch := offer 10 (Some msg) (xc_ch c)\<rparr>)"

definition xc_Recv :: "bool \<Rightarrow> byte list \<Rightarrow> xdp_controller \<Rightarrow> (recv_result \<times> xdp_controller) option" where
  "xc_Recv pick b c = map_option (\<lambda>(res, ch). (res, c\<lparr>xc_ch := ch\<rparr>)) (Recv (xc_closed c) pick b (xc_ch c))"

text \<open>
  \<open>Refresh\<close>: the addresses and then the interfaces of the system; the result has the interfaces
  whose goroutine it starts and whether it worked.
\<close>

definition xc_Refresh :: "byte list list option \<Rightarrow> string list option \<Rightarrow> xdp_controller
    \<Rightarrow> xdp_controller \<times> string list \<times> bool" where
  "xc_Refresh netAddrs ifaces c =
     (case netAddrs of
        None \<Rightarrow> (c, [], False)
      | Some ips \<Rightarrow>
          let c = c\<lparr>xc_addrs := interface_addrs ips\<rparr>
          in case ifaces of
               None \<Rightarrow> (c, [], False)
             | Some names \<Rightarrow>
                 (case fold (\<lambda>name (running, started).
                     case sf_Run name running of (running', start) \<Rightarrow> (running', if start then started @ [name] else started))
                   names (xc_group c, []) of
                    (running, started) \<Rightarrow> (c\<lparr>xc_group := running\<rparr>, started, True)))"

definition xc_Close :: "xdp_controller \<Rightarrow> xdp_controller" where
  "xc_Close c = c\<lparr>xc_closed := True\<rparr>"

section \<open>The connection\<close>

text \<open>
  \<open>hijack.Conn\<close> reads from the receiver that it was built with and adds the errors of both parts
  of \<open>Refresh\<close> to the log only. \<open>None\<close> is a failed read.
\<close>

definition conn_ReadFrom :: "recv_result \<Rightarrow> (nat \<times> addr_port \<times> byte list) option" where
  "conn_ReadFrom res = (case res of RecvClosed \<Rightarrow> None | Received n addr b \<Rightarrow> Some (n, addr, b))"

section \<open>Bounded queues of datagrams\<close>

text \<open>
  What a client of a receiver relies on: a queue of at most \<open>cap\<close> datagrams to which an arriving
  frame adds at most the one datagram it carries, from which a read takes the oldest, and
  which nothing else touches.
\<close>

type_synonym datagram = "addr_port \<times> byte list"

datatype ('f, 'o) rx_event = Arrives 'f | Reads bool "byte list" | Changes 'o

definition delivered_by :: "recv_result \<Rightarrow> datagram list" where
  "delivered_by res = (case res of RecvClosed \<Rightarrow> [] | Received n a b \<Rightarrow> [(a, take n b)])"

text \<open>The run of a receiver: the final state, the datagrams that arrived and those that were delivered.\<close>

fun rx_run :: "('f \<Rightarrow> 's \<Rightarrow> 's) \<Rightarrow> ('f \<Rightarrow> 's \<Rightarrow> datagram option) \<Rightarrow> (bool \<Rightarrow> byte list \<Rightarrow> 's \<Rightarrow> (recv_result \<times> 's) option)
    \<Rightarrow> ('o \<Rightarrow> 's \<Rightarrow> 's) \<Rightarrow> ('f, 'o) rx_event list \<Rightarrow> 's \<Rightarrow> 's \<times> datagram list \<times> datagram list" where
  "rx_run arrive accept recv change [] s = (s, [], [])"
| "rx_run arrive accept recv change (e # es) s =
     (case e of
        Arrives f \<Rightarrow>
          (case rx_run arrive accept recv change es (arrive f s) of
             (s', arrived, ds) \<Rightarrow> (s', (case accept f s of None \<Rightarrow> arrived | Some d \<Rightarrow> d # arrived), ds))
      | Reads pick b \<Rightarrow>
          (case recv pick b s of
             None \<Rightarrow> rx_run arrive accept recv change es s
           | Some (res, s1) \<Rightarrow>
               (case rx_run arrive accept recv change es s1 of (s', arrived, ds) \<Rightarrow> (s', arrived, delivered_by res @ ds)))
      | Changes x \<Rightarrow> rx_run arrive accept recv change es (change x s))"

locale bounded_receiver =
  fixes cap :: nat
    and queue :: "'s \<Rightarrow> datagram list"
    and invar :: "'s \<Rightarrow> bool"
    and wf_frame :: "'f \<Rightarrow> bool"
    and arrive :: "'f \<Rightarrow> 's \<Rightarrow> 's"
    and accept :: "'f \<Rightarrow> 's \<Rightarrow> datagram option"
    and recv :: "bool \<Rightarrow> byte list \<Rightarrow> 's \<Rightarrow> (recv_result \<times> 's) option"
    and change :: "'o \<Rightarrow> 's \<Rightarrow> 's"
  assumes arrive: "invar s \<Longrightarrow> wf_frame f \<Longrightarrow>
      invar (arrive f s) \<and> queue (arrive f s) = offer cap (accept f s) (queue s)"
    and recv: "invar s \<Longrightarrow> recv pick b s = Some (res, s') \<Longrightarrow>
      invar s' \<and> (res = RecvClosed \<and> queue s' = queue s \<or>
        (\<exists>a p. length p \<le> 2048 \<and> queue s = (a, p) # queue s' \<and> res = Received (length p) a (copy_to b p)))"
    and change: "invar s \<Longrightarrow> invar (change x s) \<and> queue (change x s) = queue s"
begin

definition wf_event :: "('f, 'o) rx_event \<Rightarrow> bool" where
  "wf_event e = (case e of Arrives f \<Rightarrow> wf_frame f | Reads pick b \<Rightarrow> 2048 \<le> length b | Changes x \<Rightarrow> True)"

lemma delivers_head:
  assumes "length p \<le> length b"
  shows "delivered_by (Received (length p) a (copy_to b p)) = [(a, p)]"
  using assms by (simp add: delivered_by_def copy_to_def)

lemma offer_subseq: "subseq (offer cap x q) (q @ (case x of None \<Rightarrow> [] | Some d \<Rightarrow> [d]))"
  by (auto simp: offer_def split: option.splits)

lemma offer_length: "length q \<le> cap \<Longrightarrow> length (offer cap x q) \<le> cap"
  by (auto simp: offer_def split: option.splits)

lemma offer_extends:
  assumes "subseq xs (offer cap x q @ as)"
  shows "subseq xs (q @ (case x of None \<Rightarrow> as | Some d \<Rightarrow> d # as))"
proof -
  have "subseq (offer cap x q @ as) ((q @ (case x of None \<Rightarrow> [] | Some d \<Rightarrow> [d])) @ as)"
    by (rule list_emb_append_mono [OF offer_subseq]) simp
  from subseq_order.trans [OF assms this] show ?thesis
    by (simp split: option.splits)
qed

text \<open>
  What was delivered, and then what waits, is what waited before and arrived since, in this
  order, without the datagrams that found the queue full.
\<close>

theorem run_delivers_in_order:
  assumes "\<forall>e \<in> set es. wf_event e" "invar s" "length (queue s) \<le> cap"
    and "rx_run arrive accept recv change es s = (s', arrived, delivered)"
  shows "subseq (delivered @ queue s') (queue s @ arrived) \<and> length (queue s') \<le> cap \<and> invar s'"
  using assms
proof (induction es arbitrary: s s' arrived delivered)
  case (Cons e es)
  from Cons.prems(1) have e: "wf_event e" and es: "\<forall>e \<in> set es. wf_event e" by simp_all
  show ?case
  proof (cases e)
    case (Arrives f)
    obtain s1 as1 ds1 where r: "rx_run arrive accept recv change es (arrive f s) = (s1, as1, ds1)"
      by (metis prod_cases3)
    from e Arrives have "wf_frame f" by (simp add: wf_event_def)
    note step = arrive [OF Cons.prems(2) this]
    have len: "length (queue (arrive f s)) \<le> cap"
      using step Cons.prems(3) by (simp add: offer_length)
    have "(s1, (case accept f s of None \<Rightarrow> as1 | Some d \<Rightarrow> d # as1), ds1) = (s', arrived, delivered)"
      using Cons.prems(4) unfolding Arrives rx_run.simps rx_event.case r prod.case .
    then show ?thesis
      using Cons.IH [OF es conjunct1 [OF step] len r] step by (auto intro: offer_extends)
  next
    case (Reads pick b)
    show ?thesis
    proof (cases "recv pick b s")
      case None
      have "rx_run arrive accept recv change es s = (s', arrived, delivered)"
        using Cons.prems(4) unfolding Reads rx_run.simps rx_event.case None option.case .
      with Cons.IH [OF es Cons.prems(2,3)] show ?thesis .
    next
      case (Some p)
      obtain res s1 where p: "recv pick b s = Some (res, s1)"
        using Some by (cases p) simp
      obtain s2 as2 ds2 where r: "rx_run arrive accept recv change es s1 = (s2, as2, ds2)"
        by (metis prod_cases3)
      note step = recv [OF Cons.prems(2) p]
      have out: "queue s = delivered_by res @ queue s1"
        using step e Reads delivers_head by (auto simp: wf_event_def delivered_by_def [of RecvClosed])
      with Cons.prems(3) have "length (queue s1) \<le> cap" by simp
      from Cons.IH [OF es conjunct1 [OF step] this r]
      show ?thesis
        using Cons.prems(4) r Reads p out by (auto intro: list_emb_append_mono)
    qed
  next
    case (Changes x)
    have "rx_run arrive accept recv change es (change x s) = (s', arrived, delivered)"
      using Cons.prems(4) unfolding Changes rx_run.simps rx_event.case .
    with Cons.IH [OF es, of "change x s"] change [OF Cons.prems(2), of x] Cons.prems(3) show ?thesis
      by (simp only:)
  qed
qed simp

end

section \<open>Both receivers are bounded receivers\<close>

definition full_array :: "message \<Rightarrow> bool" where
  "full_array m \<longleftrightarrow> length (msg_payload m) = 2048"

definition message_ok :: "message \<Rightarrow> bool" where
  "message_ok m \<longleftrightarrow> full_array m \<and> msg_len m \<le> 2048"

definition datagram_of :: "message \<Rightarrow> datagram" where
  "datagram_of m = (msg_src m, take (msg_len m) (msg_payload m))"

text \<open>The parser hands out payloads that lie in the frame, or the one it had before.\<close>

definition decoder_laws :: "decoder \<Rightarrow> bool" where
  "decoder_laws D \<longleftrightarrow> (\<forall>frame l. length (payload_bytes (fst (D frame l))) \<le> max (length frame) (length (payload_bytes l)))"

text \<open>The reference: what a frame carries for the node.\<close>

definition carried :: "decoder \<Rightarrow> (ip_addr \<Rightarrow> bool) \<Rightarrow> byte list \<Rightarrow> frame_layers \<Rightarrow> datagram option" where
  "carried D own frame layers =
     (case D frame layers of
        (l, None) \<Rightarrow> None
      | (l, Some decoded) \<Rightarrow>
          (case frame_addrs decoded l of
             None \<Rightarrow> None
           | Some (srcIP, dstIP) \<Rightarrow> if own dstIP then Some (AddrPort srcIP (udp_SrcPort l), payload_bytes l) else None))"

lemma copy_to_take: "length src \<le> length dst \<Longrightarrow> take (length src) (copy_to dst src) = src"
  by (simp add: copy_to_def)

lemma length_copy_to [simp]: "length (copy_to dst src) = length dst"
  by (simp add: copy_to_def)

lemma fill_message_ok:
  assumes "full_array pooled" "length (payload_bytes l) \<le> 2048"
  shows "message_ok (fill_message pooled srcIP l)"
    and "datagram_of (fill_message pooled srcIP l) = (AddrPort srcIP (udp_SrcPort l), payload_bytes l)"
  using assms by (simp_all add: message_ok_def full_array_def fill_message_def datagram_of_def copy_to_take)

lemma frame_message_carried:
  assumes laws: "decoder_laws D" and "full_array pooled" "length frame \<le> 2048" "length (payload_bytes layers) \<le> 2048"
  shows "case frame_message D own pooled frame layers of (l, msg) \<Rightarrow>
    length (payload_bytes l) \<le> 2048 \<and> map_option datagram_of msg = carried D own frame layers \<and>
    (\<forall>m. msg = Some m \<longrightarrow> message_ok m)"
proof -
  obtain l decoded where D: "D frame layers = (l, decoded)" by (cases "D frame layers")
  have len: "length (payload_bytes l) \<le> 2048"
  proof -
    have "length (payload_bytes (fst (D frame layers))) \<le> max (length frame) (length (payload_bytes layers))"
      using laws unfolding decoder_laws_def by blast
    with D assms(3,4) show ?thesis by simp
  qed
  note fill = fill_message_ok [OF assms(2) len]
  show ?thesis
  proof (cases decoded)
    case None
    with D len show ?thesis by (simp add: frame_message_def carried_def)
  next
    case (Some types)
    with D len fill show ?thesis
      by (cases "frame_addrs types l") (simp_all add: frame_message_def carried_def split_beta)
  qed
qed

lemma map_offer: "map f (offer cap x q) = offer cap (map_option f x) (map f q)"
  by (simp add: offer_def split: option.split)

lemma offer_all: "\<forall>m \<in> set q. P m \<Longrightarrow> \<forall>m. x = Some m \<longrightarrow> P m \<Longrightarrow> \<forall>m \<in> set (offer cap x q). P m"
  by (auto simp: offer_def split: option.splits if_splits)

lemma Recv_head:
  assumes "\<forall>m \<in> set ch. message_ok m" "Recv closed pick b ch = Some (res, ch')"
  shows "res = RecvClosed \<and> ch' = ch \<or>
    (\<exists>a p. length p \<le> 2048 \<and> map datagram_of ch = (a, p) # map datagram_of ch' \<and>
       res = Received (length p) a (copy_to b p))"
    and "\<forall>m \<in> set ch'. message_ok m"
  using assms
  by (auto simp: Recv_def datagram_of_def message_ok_def full_array_def min_def split: if_splits list.splits)

definition raw_invar :: "raw_receiver \<Rightarrow> bool" where
  "raw_invar r \<longleftrightarrow> (\<forall>m \<in> set (rr_ch r). message_ok m) \<and> length (payload_bytes (rr_layers r)) \<le> 2048"

definition raw_carried :: "decoder \<Rightarrow> message \<times> byte list \<Rightarrow> raw_receiver \<Rightarrow> datagram option" where
  "raw_carried D = (\<lambda>(pooled, frame) r.
     if 2048 < length frame then None else carried D (\<lambda>a. set_Contains a (rr_addrs r)) frame (rr_layers r))"

datatype raw_change = RawRefresh "byte list list option" | RawClose

fun apply_raw :: "raw_change \<Rightarrow> raw_receiver \<Rightarrow> raw_receiver" where
  "apply_raw (RawRefresh netAddrs) r = fst (raw_Refresh netAddrs r)"
| "apply_raw RawClose r = raw_Close r"

lemma raw_run_arrive:
  assumes "decoder_laws D" "raw_invar r" "full_array (fst f)"
  shows "raw_invar (raw_run D f r) \<and>
    map datagram_of (rr_ch (raw_run D f r)) = offer 10 (raw_carried D f r) (map datagram_of (rr_ch r))"
proof (cases f)
  case (Pair pooled frame)
  show ?thesis
  proof (cases "2048 < length frame")
    case True
    with assms Pair show ?thesis by (simp add: raw_run_def raw_carried_def offer_def)
  next
    case False
    let ?own = "\<lambda>a. set_Contains a (rr_addrs r)"
    obtain l msg where r: "frame_message D ?own pooled frame (rr_layers r) = (l, msg)"
      by (cases "frame_message D ?own pooled frame (rr_layers r)")
    have ok: "length (payload_bytes l) \<le> 2048" "map_option datagram_of msg = carried D ?own frame (rr_layers r)"
      "\<forall>m. msg = Some m \<longrightarrow> message_ok m"
      using frame_message_carried [OF assms(1), of pooled frame "rr_layers r" ?own] assms(2,3) Pair False r
      by (simp_all add: raw_invar_def)
    have "raw_run D f r = r\<lparr>rr_layers := l, rr_ch := offer 10 msg (rr_ch r)\<rparr>"
      "raw_carried D f r = carried D (\<lambda>a. set_Contains a (rr_addrs r)) frame (rr_layers r)"
      using False r Pair by (simp_all add: raw_run_def raw_carried_def)
    moreover have "\<forall>m \<in> set (offer 10 msg (rr_ch r)). message_ok m"
      using assms(2) ok(3) unfolding raw_invar_def by (intro offer_all) simp_all
    ultimately show ?thesis
      using ok(1,2) by (simp add: raw_invar_def map_offer)
  qed
qed

interpretation raw: bounded_receiver 10 "\<lambda>r. map datagram_of (rr_ch r)" raw_invar "\<lambda>f. full_array (fst f) \<and> decoder_laws D"
  "raw_run D" "raw_carried D" raw_Recv apply_raw for D
proof
  show "raw_invar (raw_run D f s) \<and>
      map datagram_of (rr_ch (raw_run D f s)) = offer 10 (raw_carried D f s) (map datagram_of (rr_ch s))"
    if "raw_invar s" "full_array (fst f) \<and> decoder_laws D" for s f
    using raw_run_arrive that by blast
  show "raw_invar s' \<and> (res = RecvClosed \<and> map datagram_of (rr_ch s') = map datagram_of (rr_ch s) \<or>
      (\<exists>a p. length p \<le> 2048 \<and> map datagram_of (rr_ch s) = (a, p) # map datagram_of (rr_ch s') \<and>
        res = Received (length p) a (copy_to b p)))"
    if "raw_invar s" "raw_Recv pick b s = Some (res, s')" for s pick b res s'
  proof -
    from that(2) obtain ch where ch: "Recv (rr_closed s) pick b (rr_ch s) = Some (res, ch)" "s' = s\<lparr>rr_ch := ch\<rparr>"
      by (auto simp: raw_Recv_def)
    from Recv_head [OF _ ch(1)] that(1) show ?thesis
      unfolding ch(2) raw_invar_def by auto
  qed
  show "raw_invar (apply_raw x s) \<and> map datagram_of (rr_ch (apply_raw x s)) = map datagram_of (rr_ch s)"
    if "raw_invar s" for s x
    using that by (cases x) (auto simp: raw_invar_def raw_Refresh_def raw_Close_def split: option.split)
qed

text \<open>An XDP receiver with a fixed address filter; nothing but its end changes it otherwise.\<close>

definition xdp_invar :: "xdp_receiver \<Rightarrow> bool" where
  "xdp_invar r \<longleftrightarrow> (\<forall>m \<in> set (xr_ch r). message_ok m) \<and> length (payload_bytes (xr_layers r)) \<le> 2048"

definition xdp_carried :: "decoder \<Rightarrow> (ip_addr \<Rightarrow> bool) \<Rightarrow> message \<times> byte list \<Rightarrow> xdp_receiver \<Rightarrow> datagram option" where
  "xdp_carried D own = (\<lambda>(pooled, raw) r.
     case read_event raw of
       None \<Rightarrow> None
     | Some (len, packet) \<Rightarrow> if 2048 < len then None else carried D own (take len packet) (xr_layers r))"

lemma xdp_run_arrive:
  assumes "decoder_laws D" "xdp_invar r" "full_array (fst f)"
  shows "xdp_invar (xdp_run D own f r) \<and>
    map datagram_of (xr_ch (xdp_run D own f r)) = offer 10 (xdp_carried D own f r) (map datagram_of (xr_ch r))"
proof (cases f)
  case (Pair pooled raw)
  show ?thesis
  proof (cases "\<exists>len packet. read_event raw = Some (len, packet) \<and> len \<le> 2048")
    case False
    with assms Pair show ?thesis
      by (cases "read_event raw") (auto simp: xdp_run_def xdp_carried_def offer_def)
  next
    case True
    then obtain len packet where e: "read_event raw = Some (len, packet)" "len \<le> 2048" by blast
    obtain l msg where r: "frame_message D own pooled (take len packet) (xr_layers r) = (l, msg)"
      by (cases "frame_message D own pooled (take len packet) (xr_layers r)")
    have ok: "length (payload_bytes l) \<le> 2048"
      "map_option datagram_of msg = carried D own (take len packet) (xr_layers r)"
      "\<forall>m. msg = Some m \<longrightarrow> message_ok m"
      using frame_message_carried [OF assms(1), of pooled "take len packet" "xr_layers r" own] assms(2,3) Pair e r
      by (simp_all add: xdp_invar_def)
    have "xdp_run D own f r = r\<lparr>xr_layers := l, xr_ch := offer 10 msg (xr_ch r)\<rparr>"
      "xdp_carried D own f r = carried D own (take len packet) (xr_layers r)"
      using e r Pair by (simp_all add: xdp_run_def xdp_carried_def)
    moreover have "\<forall>m \<in> set (offer 10 msg (xr_ch r)). message_ok m"
      using assms(2) ok(3) unfolding xdp_invar_def by (intro offer_all) simp_all
    ultimately show ?thesis
      using ok(1,2) by (simp add: xdp_invar_def map_offer)
  qed
qed

interpretation xdp: bounded_receiver 10 "\<lambda>r. map datagram_of (xr_ch r)" xdp_invar "\<lambda>f. full_array (fst f) \<and> decoder_laws D"
  "xdp_run D own" "xdp_carried D own" xdp_Recv "\<lambda>(_ :: unit). xdp_Close" for D own
proof
  show "xdp_invar (xdp_run D own f s) \<and>
      map datagram_of (xr_ch (xdp_run D own f s)) = offer 10 (xdp_carried D own f s) (map datagram_of (xr_ch s))"
    if "xdp_invar s" "full_array (fst f) \<and> decoder_laws D" for s f
    using xdp_run_arrive that by blast
  show "xdp_invar s' \<and> (res = RecvClosed \<and> map datagram_of (xr_ch s') = map datagram_of (xr_ch s) \<or>
      (\<exists>a p. length p \<le> 2048 \<and> map datagram_of (xr_ch s) = (a, p) # map datagram_of (xr_ch s') \<and>
        res = Received (length p) a (copy_to b p)))"
    if "xdp_invar s" "xdp_Recv pick b s = Some (res, s')" for s pick b res s'
  proof -
    from that(2) obtain ch where ch: "Recv (xr_closed s) pick b (xr_ch s) = Some (res, ch)" "s' = s\<lparr>xr_ch := ch\<rparr>"
      by (auto simp: xdp_Recv_def)
    from Recv_head [OF _ ch(1)] that(1) show ?thesis
      unfolding ch(2) xdp_invar_def by auto
  qed
qed (simp add: xdp_invar_def xdp_Close_def)

text \<open>The controller, whose arriving frames are what the receivers of the interfaces returned.\<close>

definition xc_invar :: "xdp_controller \<Rightarrow> bool" where
  "xc_invar c \<longleftrightarrow> (\<forall>m \<in> set (xc_ch c). message_ok m)"

definition xc_frame :: "message \<times> nat \<times> addr_port \<times> byte list \<Rightarrow> bool" where
  "xc_frame f \<longleftrightarrow> full_array (fst f) \<and> fst (snd f) \<le> length (snd (snd (snd f))) \<and> length (snd (snd (snd f))) = 2048"

datatype xc_change = XcRefresh "byte list list option" "string list option" | XcExit string | XcClose

fun apply_xc :: "xc_change \<Rightarrow> xdp_controller \<Rightarrow> xdp_controller" where
  "apply_xc (XcRefresh netAddrs ifaces) c = fst (xc_Refresh netAddrs ifaces c)"
| "apply_xc (XcExit name) c = c\<lparr>xc_group := sf_exit name (xc_group c)\<rparr>"
| "apply_xc XcClose c = xc_Close c"

lemma xc_Refresh_ch: "xc_ch (fst (xc_Refresh netAddrs ifaces c)) = xc_ch c"
  by (simp add: xc_Refresh_def Let_def split: option.split prod.split)

definition xc_received :: "message \<times> nat \<times> addr_port \<times> byte list \<Rightarrow> xdp_controller \<Rightarrow> datagram option" where
  "xc_received = (\<lambda>(pooled, len, addr, buf) c. Some (addr, take len buf))"

interpretation xc: bounded_receiver 10 "\<lambda>c. map datagram_of (xc_ch c)" xc_invar xc_frame
  "\<lambda>f. xc_forward (fst f) (snd f)" xc_received xc_Recv apply_xc
proof
  fix s :: xdp_controller and f :: "message \<times> nat \<times> addr_port \<times> byte list"
  assume s: "xc_invar s" and f: "xc_frame f"
  obtain pooled len addr buf where p: "f = (pooled, len, addr, buf)" by (cases f)
  define m where "m = pooled\<lparr>msg_payload := copy_to (msg_payload pooled) (take len buf), msg_src := addr, msg_len := len\<rparr>"
  have m: "message_ok m" "datagram_of m = (addr, take len buf)"
    using f copy_to_take [of "take len buf" "msg_payload pooled"]
    by (simp_all add: p xc_frame_def message_ok_def full_array_def m_def datagram_of_def)
  have "xc_forward pooled (len, addr, buf) s = s\<lparr>xc_ch := offer 10 (Some m) (xc_ch s)\<rparr>"
    by (simp add: xc_forward_def m_def)
  moreover have "\<forall>x \<in> set (offer 10 (Some m) (xc_ch s)). message_ok x"
    using s m(1) unfolding xc_invar_def by (intro offer_all) simp_all
  ultimately show "xc_invar (xc_forward (fst f) (snd f) s) \<and>
      map datagram_of (xc_ch (xc_forward (fst f) (snd f) s)) = offer 10 (xc_received f s) (map datagram_of (xc_ch s))"
    using m(2) by (simp add: p xc_received_def xc_invar_def map_offer)
next
  show "xc_invar s' \<and> (res = RecvClosed \<and> map datagram_of (xc_ch s') = map datagram_of (xc_ch s) \<or>
      (\<exists>a p. length p \<le> 2048 \<and> map datagram_of (xc_ch s) = (a, p) # map datagram_of (xc_ch s') \<and>
        res = Received (length p) a (copy_to b p)))"
    if "xc_invar s" "xc_Recv pick b s = Some (res, s')" for s pick b res s'
  proof -
    from that(2) obtain ch where ch: "Recv (xc_closed s) pick b (xc_ch s) = Some (res, ch)" "s' = s\<lparr>xc_ch := ch\<rparr>"
      by (auto simp: xc_Recv_def)
    from Recv_head [OF _ ch(1)] that(1) show ?thesis
      unfolding ch(2) xc_invar_def by auto
  qed
  show "xc_invar (apply_xc x s) \<and> map datagram_of (xc_ch (apply_xc x s)) = map datagram_of (xc_ch s)"
    if "xc_invar s" for s x
    using that by (cases x) (simp_all add: xc_invar_def xc_Refresh_ch xc_Close_def)
qed

section \<open>Property\<close>


definition example_decoder :: decoder where
  "example_decoder frame l =
     (if length frame < 8 then (l, None)
      else (l\<lparr>ip4_SrcIP := take 4 frame, ip4_DstIP := take 4 (drop 4 frame), payload_bytes := drop 8 frame\<rparr>,
            Some [LayerTypeIPv4]))"

definition example_receiver :: "message list \<Rightarrow> frame_layers \<Rightarrow> raw_receiver" where
  "example_receiver ch l = \<lparr>rr_layers = l, rr_ch = ch, rr_addrs = [IP4 9], rr_closed = False\<rparr>"

definition no_layers :: frame_layers where
  "no_layers = \<lparr>ip4_SrcIP = [], ip4_DstIP = [], ip6_SrcIP = [], ip6_DstIP = [], udp_SrcPort = 7, payload_bytes = []\<rparr>"

lemma example_run:
  "rx_run (raw_run example_decoder) (raw_carried example_decoder) raw_Recv apply_raw
     [Arrives (new_message, [0, 0, 0, 5, 0, 0, 0, 8, 1]), Arrives (new_message, [0, 0, 0, 5, 0, 0, 0, 9, 1, 2]),
      Reads False (replicate 2048 0)] (example_receiver [] no_layers)
   = (example_receiver [] (no_layers\<lparr>ip4_SrcIP := [0, 0, 0, 5], ip4_DstIP := [0, 0, 0, 9], payload_bytes := [1, 2]\<rparr>),
      [(AddrPort (IP4 5) 7, [1, 2])], [(AddrPort (IP4 5) 7, [1, 2])])"
  by (simp add: raw_run_def raw_carried_def carried_def frame_message_def frame_addrs_def example_decoder_def
      example_receiver_def no_layers_def AddrFromSlice_def be_nat_def set_Contains_def fill_message_def new_message_def
      offer_def raw_Recv_def Recv_def copy_to_def delivered_by_def)


end
