(* ===== verification/Sender.thy ===== *)
theory Sender
  imports PacketFilter
begin

text \<open>
  \<open>rawsocksend.Sender\<close>: datagrams written to raw sockets with their own IP and UDP headers. The
  router and the serialisation of gopacket are parameters, as is the system call.
\<close>

section \<open>The sender\<close>

text \<open>The layers that are serialised; the fields that the code leaves to gopacket are not listed.\<close>

record ip4_layer =
  l4_DontFragment :: bool
  l4_SrcIP :: "byte list"
  l4_DstIP :: "byte list"
  l4_Protocol :: byte
  l4_TTL :: byte

record ip6_layer =
  l6_SrcIP :: "byte list"
  l6_DstIP :: "byte list"
  l6_NextHeader :: byte
  l6_HopLimit :: byte

record udp_layer =
  ul_SrcPort :: u16
  ul_DstPort :: u16

text \<open>\<open>AsSlice\<close> of an address, big endian.\<close>

fun be_bytes :: "nat \<Rightarrow> nat \<Rightarrow> byte list" where
  "be_bytes 0 n = []"
| "be_bytes (Suc k) n = be_bytes k (n div 256) @ [of_nat n]"

fun AsSlice :: "ip_addr \<Rightarrow> byte list" where
  "AsSlice InvalidIP = []"
| "AsSlice (IP4 w) = be_bytes 4 (unat w)"
| "AsSlice (IP6 w _) = be_bytes 16 (unat w)"

text \<open>
  The surroundings of one call: the source that the router picks for a destination, the bytes of
  the layers, and whether \<open>sendto\<close> accepts them.
\<close>

record send_env =
  se_Route :: "byte list \<Rightarrow> byte list option"
  se_Serialize4 :: "ip4_layer \<Rightarrow> udp_layer \<Rightarrow> byte list \<Rightarrow> byte list option"
  se_Serialize6 :: "ip6_layer \<Rightarrow> udp_layer \<Rightarrow> byte list \<Rightarrow> byte list option"
  se_Sendto :: "byte list \<Rightarrow> bool"

datatype sent = Sent4 "byte list" "byte list" u16 | Sent6 "byte list" "byte list"
datatype send_error = RouteFailed | SerializeFailed | SendtoFailed

definition sendIPv4 :: "send_env \<Rightarrow> u16 \<Rightarrow> addr_port \<Rightarrow> byte list \<Rightarrow> send_error + sent" where
  "sendIPv4 E srcPort dst payload =
     (case se_Route E (AsSlice (ap_addr dst)) of
        None \<Rightarrow> Inl RouteFailed
      | Some src \<Rightarrow>
          (case se_Serialize4 E \<lparr>l4_DontFragment = True, l4_SrcIP = src, l4_DstIP = AsSlice (ap_addr dst),
                                 l4_Protocol = 17, l4_TTL = 128\<rparr>
                  \<lparr>ul_SrcPort = srcPort, ul_DstPort = ap_port dst\<rparr> payload of
             None \<Rightarrow> Inl SerializeFailed
           | Some buf \<Rightarrow>
               if se_Sendto E buf then Inr (Sent4 buf (AsSlice (ap_addr dst)) (ap_port dst)) else Inl SendtoFailed))"

definition sendIPv6 :: "send_env \<Rightarrow> u16 \<Rightarrow> addr_port \<Rightarrow> byte list \<Rightarrow> (send_error + sent) outcome" where
  "sendIPv6 E srcPort dst payload =
     (case se_Route E (AsSlice (ap_addr dst)) of
        None \<Rightarrow> Returns (Inl RouteFailed)
      | Some src \<Rightarrow>
          (case se_Serialize6 E \<lparr>l6_SrcIP = src, l6_DstIP = AsSlice (ap_addr dst), l6_NextHeader = 17, l6_HopLimit = 128\<rparr>
                  \<lparr>ul_SrcPort = srcPort, ul_DstPort = ap_port dst\<rparr> payload of
             None \<Rightarrow> Returns (Inl SerializeFailed)
           | Some buf \<Rightarrow>
               if ap_addr dst = InvalidIP then Panics ZeroAddr
               else Returns (if se_Sendto E buf then Inr (Sent6 buf (AsSlice (ap_addr dst))) else Inl SendtoFailed)))"

definition Send :: "send_env \<Rightarrow> u16 \<Rightarrow> byte list \<Rightarrow> addr_port \<Rightarrow> (send_error + sent) outcome" where
  "Send E srcPort payload dst =
     (let dst = AddrPort (unmap (ap_addr dst)) (ap_port dst)
      in if is_4 (ap_addr dst) then Returns (sendIPv4 E srcPort dst payload) else sendIPv6 E srcPort dst payload)"

text \<open>
  \<open>Refresh\<close> asks five times for a router, whatever the earlier answers (\<open>new i\<close> is the answer of the
  i-th attempt); the sender takes the last one.
\<close>

fun refresh_loop :: "(nat \<Rightarrow> 'r option) \<Rightarrow> nat list \<Rightarrow> 'r option \<times> bool \<Rightarrow> 'r option \<times> bool" where
  "refresh_loop new [] res = res"
| "refresh_loop new (i # is) res = refresh_loop new is (new i, new i = None)"

definition sender_Refresh :: "(nat \<Rightarrow> 'r option) \<Rightarrow> 'r option \<Rightarrow> 'r option \<times> bool" where
  "sender_Refresh new router =
     (case refresh_loop new [0 ..< 5] (None, False) of
        (router', err) \<Rightarrow> if err then (router, False) else (router', True))"

text \<open>The connection writes to the sender and always returns the length of the payload.\<close>

definition conn_WriteTo :: "send_env \<Rightarrow> u16 \<Rightarrow> byte list \<Rightarrow> addr_port \<Rightarrow> (nat \<times> send_error option) outcome" where
  "conn_WriteTo E srcPort p addr =
     bind_outcome (Send E srcPort p addr)
       (\<lambda>res. Returns (length p, case res of Inl e \<Rightarrow> Some e | Inr _ \<Rightarrow> None))"

section \<open>The formats of IP and UDP\<close>

text \<open>
  Where gopacket puts the fields: the layout of IPv4 (RFC 791, a header of 20 bytes, the flag \<open>DF\<close>
  and offset zero), IPv6 (RFC 8200) and UDP (RFC 768).
\<close>

definition serialize_laws :: "send_env \<Rightarrow> bool" where
  "serialize_laws E \<longleftrightarrow>
     (\<forall>ip udp p bs. se_Serialize4 E ip udp p = Some bs \<longrightarrow>
        length bs = 28 + length p \<and> drop 28 bs = p \<and> bs ! 0 = 0x45 \<and> bs ! 9 = l4_Protocol ip \<and>
        bs ! 6 = (if l4_DontFragment ip then 0x40 else 0) \<and> bs ! 7 = 0 \<and>
        take 2 (drop 22 bs) = be_bytes 2 (unat (ul_DstPort udp))) \<and>
     (\<forall>ip udp p bs. se_Serialize6 E ip udp p = Some bs \<longrightarrow>
        length bs = 48 + length p \<and> drop 48 bs = p \<and> bs ! 6 = l6_NextHeader ip \<and>
        take 2 (drop 42 bs) = be_bytes 2 (unat (ul_DstPort udp)))"

text \<open>The frame on the wire: two addresses and the type of the network layer.\<close>

fun frame_of :: "byte list \<Rightarrow> sent \<Rightarrow> byte list" where
  "frame_of macs (Sent4 buf _ _) = macs @ [0x08, 0x00] @ buf"
| "frame_of macs (Sent6 buf _) = macs @ [0x86, 0xdd] @ buf"

lemma be_nat_bytes: "n < 256 ^ k \<Longrightarrow> be_nat (be_bytes k n) = n"
proof (induction k arbitrary: n)
  case (Suc k)
  have "n div 256 < 256 ^ k"
    using Suc.prems by (simp add: less_mult_imp_div_less mult.commute)
  moreover have "unat (of_nat n :: byte) = n mod 256"
    by (simp add: unsigned_of_nat take_bit_eq_mod)
  ultimately show ?case
    using Suc.IH by simp
qed simp

lemma port_bytes: "int (be_nat (be_bytes 2 (unat (p :: u16)))) = uint p"
proof -
  have "unat p < 256 ^ 2"
    using unsigned_less [of p, where ?'a = nat] by simp
  then show ?thesis by (simp add: be_nat_bytes)
qed

lemma hijacked_frame4:
  assumes laws: "serialize_laws E" and macs: "length macs = 12" and payload: "wanted_payload p"
    and "sendIPv4 E srcPort dst p = Inr s"
  shows "hijacked (uint (ap_port dst)) (frame_of macs s)"
proof -
  from assms(4) obtain src buf where buf: "se_Serialize4 E \<lparr>l4_DontFragment = True, l4_SrcIP = src,
      l4_DstIP = AsSlice (ap_addr dst), l4_Protocol = 17, l4_TTL = 128\<rparr>
      \<lparr>ul_SrcPort = srcPort, ul_DstPort = ap_port dst\<rparr> p = Some buf"
    and s: "s = Sent4 buf (AsSlice (ap_addr dst)) (ap_port dst)"
    by (auto simp: sendIPv4_def split: option.splits if_splits)
  have b: "length buf = 28 + length p" "drop 28 buf = p" "buf ! 0 = 0x45" "buf ! 9 = 17" "buf ! 6 = 0x40" "buf ! 7 = 0"
    "take 2 (drop 22 buf) = be_bytes 2 (unat (ap_port dst))"
    using laws buf unfolding serialize_laws_def by fastforce+
  have "p \<noteq> []" using payload by (simp add: wanted_payload_def)
  have seg: "udp_segment (frame_of macs s) = Some (drop 20 buf)"
    using b macs unfolding s by (simp add: udp_segment_def Let_def)
  show ?thesis
    unfolding hijacked_def seg option.case
    using b \<open>p \<noteq> []\<close> payload port_bytes [of "ap_port dst"] by simp
qed

lemma hijacked_frame6:
  assumes laws: "serialize_laws E" and macs: "length macs = 12" and payload: "wanted_payload p"
    and "sendIPv6 E srcPort dst p = Returns (Inr s)"
  shows "hijacked (uint (ap_port dst)) (frame_of macs s)"
proof -
  from assms(4) obtain src buf where buf: "se_Serialize6 E \<lparr>l6_SrcIP = src, l6_DstIP = AsSlice (ap_addr dst),
      l6_NextHeader = 17, l6_HopLimit = 128\<rparr> \<lparr>ul_SrcPort = srcPort, ul_DstPort = ap_port dst\<rparr> p = Some buf"
    and s: "s = Sent6 buf (AsSlice (ap_addr dst))"
    by (auto simp: sendIPv6_def split: option.splits if_splits)
  have b: "length buf = 48 + length p" "drop 48 buf = p" "buf ! 6 = 17"
    "take 2 (drop 42 buf) = be_bytes 2 (unat (ap_port dst))"
    using laws buf unfolding serialize_laws_def by fastforce+
  have "p \<noteq> []" using payload by (simp add: wanted_payload_def)
  have seg: "udp_segment (frame_of macs s) = Some (drop 40 buf)"
    using b macs unfolding s by (simp add: udp_segment_def Let_def)
  show ?thesis
    unfolding hijacked_def seg option.case
    using b \<open>p \<noteq> []\<close> payload port_bytes [of "ap_port dst"] by simp
qed

section \<open>Property\<close>

text \<open>
  C23. What a node sends to a peer, the peer's socket filter accepts: every datagram with a disco
  or STUN payload that \<open>Send\<close> puts on the wire, over either version of IP and also for an
  IPv4-mapped destination, passes the filter program for the destination port.
\<close>
theorem sent_datagrams_are_hijacked:
  assumes "serialize_laws E" "length macs = 12" "wanted_payload payload"
    and "Send E srcPort payload dst = Returns (Inr s)"
  shows "exec (generateInstructions (uint (ap_port dst))) (frame_of macs s) a x = Some (2 ^ 18)"
proof -
  have "hijacked (uint (ap_port dst)) (frame_of macs s)"
    using assms hijacked_frame4 [of E macs payload srcPort _ s] hijacked_frame6 [of E macs payload srcPort _ s]
    by (fastforce simp: Send_def Let_def split: if_splits)
  moreover have "0 \<le> uint (ap_port dst)" "uint (ap_port dst) < 2 ^ 16"
    using unsigned_less [of "ap_port dst", where ?'a = int] by simp_all
  ultimately show ?thesis
    using exec_generateInstructions by simp
qed

definition example_env :: send_env where
  "example_env = \<lparr>se_Route = (\<lambda>_. Some [10, 0, 0, 1]),
     se_Serialize4 = (\<lambda>ip udp p. Some ([0x45, 0, 0, 0, 0, 0, if l4_DontFragment ip then 0x40 else 0, 0, l4_TTL ip, l4_Protocol ip]
        @ replicate 10 0 @ [0, 0] @ be_bytes 2 (unat (ul_DstPort udp)) @ [0, 0, 0, 0] @ p)),
     se_Serialize6 = (\<lambda>ip udp p. Some ([0x60, 0, 0, 0, 0, 0, l6_NextHeader ip, l6_HopLimit ip]
        @ replicate 32 0 @ [0, 0] @ be_bytes 2 (unat (ul_DstPort udp)) @ [0, 0, 0, 0] @ p)),
     se_Sendto = (\<lambda>_. True)\<rparr>"

lemma length_be_bytes [simp]: "length (be_bytes k n) = k"
  by (induction k arbitrary: n) auto

lemma example_env_laws: "serialize_laws example_env"
  by (auto simp: serialize_laws_def example_env_def)

theorem sent_datagrams_are_hijacked_witness:
  "\<exists>s. Send example_env 51820 [0x80, 1] (AddrPort (IP6 0xFFFF0A000002 []) 443) = Returns (Inr s) \<and>
     exec (generateInstructions (uint (443 :: u16))) (frame_of (replicate 12 0) s) 0 0 = Some (2 ^ 18)"
proof -
  have "\<exists>s. Send example_env 51820 [0x80, 1] (AddrPort (IP6 0xFFFF0A000002 []) 443) = Returns (Inr s)"
    by (auto simp: Send_def sendIPv4_def sendIPv6_def example_env_def Let_def split: option.split)
  then obtain s where s: "Send example_env 51820 [0x80, 1] (AddrPort (IP6 0xFFFF0A000002 []) 443) = Returns (Inr s)"
    by blast
  have "wanted_payload [0x80, 1]" by (simp add: wanted_payload_def)
  from sent_datagrams_are_hijacked [OF example_env_laws _ this s, of "replicate 12 0" 0 0] s
  show ?thesis by auto
qed

end
