(* ===== verification/SplitConn.thy ===== *)
theory SplitConn
  imports Receivers NetText
begin

text \<open>
  \<open>pkg/splitconn\<close>: one packet connection split among children by filters, where whichever child
  reads fetches the next packet for all of them; and what the program puts on top of it:
  the split into disco and STUN, \<open>pkg/stun\<close> and the collector of \<open>pkg/endpoints\<close>.
\<close>

section \<open>The bundler\<close>

type_synonym filter = "datagram \<Rightarrow> bool"

text \<open>
  The loop over the children: the first whose filter accepts the packet gets it, if its queue of 5
  has room.
\<close>

fun dispatch :: "filter list \<Rightarrow> datagram \<Rightarrow> datagram list list \<Rightarrow> datagram list list" where
  "dispatch (f # fs) p (q # qs) = (if f p then offer 5 (Some p) q # qs else q # dispatch fs p qs)"
| "dispatch fs p qs = qs"

text \<open>
  A call of \<open>ReadFrom\<close> looks into the queue of its child (\<open>Looking\<close>); where it is empty it goes on to
  the single flight (\<open>Joining\<close>), which it starts or joins (\<open>Waiting\<close>); when the flight ends, all
  that wait look again, or return the error of the connection. A call is a child's number
  and where it is; the log has what the connection returned, and what which child returned.
\<close>

datatype read_pc = Looking | Joining | Waiting | Returned

record split_sys =
  sp_queues :: "datagram list list"
  sp_flight :: bool
  sp_calls :: "(nat \<times> read_pc) list"
  sp_arrived :: "datagram list"
  sp_returned :: "(nat \<times> datagram) list"

definition wake :: "read_pc \<Rightarrow> (nat \<times> read_pc) list \<Rightarrow> (nat \<times> read_pc) list" where
  "wake pc = map (\<lambda>(i, c). (i, if c = Waiting then pc else c))"

inductive split_step :: "filter list \<Rightarrow> split_sys \<Rightarrow> split_sys \<Rightarrow> bool" for fs where
  call: "i < length fs \<Longrightarrow> split_step fs s (s\<lparr>sp_calls := sp_calls s @ [(i, Looking)]\<rparr>)"
| take: "k < length (sp_calls s) \<Longrightarrow> sp_calls s ! k = (i, Looking) \<Longrightarrow> sp_queues s ! i = p # q \<Longrightarrow>
    split_step fs s (s\<lparr>sp_queues := (sp_queues s)[i := q], sp_calls := (sp_calls s)[k := (i, Returned)],
      sp_returned := sp_returned s @ [(i, p)]\<rparr>)"
| empty: "k < length (sp_calls s) \<Longrightarrow> sp_calls s ! k = (i, Looking) \<Longrightarrow> sp_queues s ! i = [] \<Longrightarrow>
    split_step fs s (s\<lparr>sp_calls := (sp_calls s)[k := (i, Joining)]\<rparr>)"
| join: "k < length (sp_calls s) \<Longrightarrow> sp_calls s ! k = (i, Joining) \<Longrightarrow>
    split_step fs s (s\<lparr>sp_flight := True, sp_calls := (sp_calls s)[k := (i, Waiting)]\<rparr>)"
| arrive: "sp_flight s \<Longrightarrow>
    split_step fs s (s\<lparr>sp_queues := dispatch fs p (sp_queues s), sp_flight := False,
      sp_calls := wake Looking (sp_calls s), sp_arrived := sp_arrived s @ [p]\<rparr>)"
| fail: "sp_flight s \<Longrightarrow>
    split_step fs s (s\<lparr>sp_flight := False, sp_calls := wake Returned (sp_calls s)\<rparr>)"

inductive split_reachable :: "filter list \<Rightarrow> split_sys \<Rightarrow> bool" for fs where
  init: "split_reachable fs \<lparr>sp_queues = replicate (length fs) [], sp_flight = False, sp_calls = [],
    sp_arrived = [], sp_returned = []\<rparr>"
| step: "split_reachable fs s \<Longrightarrow> split_step fs s s' \<Longrightarrow> split_reachable fs s'"

section \<open>Routing\<close>

text \<open>The child that a packet is for: the first whose filter accepts it.\<close>

definition is_for :: "filter list \<Rightarrow> nat \<Rightarrow> datagram \<Rightarrow> bool" where
  "is_for fs i p \<longleftrightarrow> i < length fs \<and> (fs ! i) p \<and> (\<forall>j < i. \<not> (fs ! j) p)"

definition returned_by :: "nat \<Rightarrow> split_sys \<Rightarrow> datagram list" where
  "returned_by i s = map snd (filter (\<lambda>(j, p). j = i) (sp_returned s))"

definition split_inv :: "filter list \<Rightarrow> split_sys \<Rightarrow> bool" where
  "split_inv fs s \<longleftrightarrow> length (sp_queues s) = length fs \<and> (\<forall>(i, pc) \<in> set (sp_calls s). i < length fs) \<and>
     (\<forall>i < length fs. subseq (returned_by i s @ sp_queues s ! i) (filter (is_for fs i) (sp_arrived s)) \<and>
        length (sp_queues s ! i) \<le> 5)"

lemma length_dispatch [simp]: "length (dispatch fs p qs) = length qs"
  by (induction fs p qs rule: dispatch.induct) auto

lemma is_for_Cons [simp]:
  "is_for (f # fs) 0 p \<longleftrightarrow> f p" "is_for (f # fs) (Suc i) p \<longleftrightarrow> \<not> f p \<and> is_for fs i p"
  by (auto simp: is_for_def less_Suc_eq_0_disj)

lemma dispatch_nth:
  "length qs = length fs \<Longrightarrow> i < length fs \<Longrightarrow>
     dispatch fs p qs ! i = offer 5 (if is_for fs i p then Some p else None) (qs ! i)"
proof (induction fs p qs arbitrary: i rule: dispatch.induct)
  case (1 f fs p q qs)
  then show ?case by (cases i) (auto simp: offer_def)
qed auto

lemma wake_children: "\<forall>(i, pc) \<in> set cs. i < n \<Longrightarrow> \<forall>(i, pc) \<in> set (wake x cs). i < n"
  by (auto simp: wake_def)

lemma call_child:
  "\<forall>(i, pc) \<in> set cs. i < n \<Longrightarrow> k < length cs \<Longrightarrow> cs ! k = (i, pc) \<Longrightarrow> i < n"
  by (metis (no_types, lifting) case_prodD nth_mem)

lemma update_children:
  "\<forall>(i, pc) \<in> set cs. i < n \<Longrightarrow> i < n \<Longrightarrow> \<forall>(i, pc) \<in> set (cs[k := (i, pc')]). i < n"
  using set_update_subset_insert [of cs k "(i, pc')"] by auto

lemma returned_by_append:
  "returned_by i (s\<lparr>sp_returned := sp_returned s @ [(j, p)]\<rparr>) = returned_by i s @ (if j = i then [p] else [])"
  by (simp add: returned_by_def)

lemma dispatch_inv:
  assumes "split_inv fs s" "i < length fs"
  shows "subseq (returned_by i s @ dispatch fs p (sp_queues s) ! i) (filter (is_for fs i) (sp_arrived s @ [p])) \<and>
    length (dispatch fs p (sp_queues s) ! i) \<le> 5"
proof -
  let ?x = "if is_for fs i p then Some p else None"
  from assms have q: "dispatch fs p (sp_queues s) ! i = offer 5 ?x (sp_queues s ! i)"
    by (simp add: dispatch_nth split_inv_def)
  have old: "subseq (returned_by i s @ sp_queues s ! i) (filter (is_for fs i) (sp_arrived s))" "length (sp_queues s ! i) \<le> 5"
    using assms by (simp_all add: split_inv_def)
  have "subseq (returned_by i s @ offer 5 ?x (sp_queues s ! i))
      ((returned_by i s @ sp_queues s ! i) @ (case ?x of None \<Rightarrow> [] | Some d \<Rightarrow> [d]))"
    by (auto simp: offer_def split: option.split)
  also have "subseq \<dots> (filter (is_for fs i) (sp_arrived s) @ (case ?x of None \<Rightarrow> [] | Some d \<Rightarrow> [d]))"
    by (rule list_emb_append_mono [OF old(1)]) simp
  finally show ?thesis
    unfolding q using old(2) by (auto simp: offer_def)
qed

lemma split_step_inv:
  assumes "split_step fs s s'" "split_inv fs s"
  shows "split_inv fs s'"
  using assms
proof (induction rule: split_step.induct)
  case (call i s)
  then show ?case by (auto simp: split_inv_def returned_by_def)
next
  case (take k s i p q)
  have i: "i < length fs"
    using take call_child [of "sp_calls s" "length fs" k i Looking] by (simp add: split_inv_def)
  have "returned_by j s' @ (sp_queues s)[i := q] ! j = returned_by j s @ sp_queues s ! j"
    if "sp_returned s' = sp_returned s @ [(i, p)]" "j < length fs" for j and s' :: split_sys
    using that take i by (auto simp: returned_by_def split_inv_def nth_list_update)
  moreover have "length ((sp_queues s)[i := q] ! j) \<le> 5" if "j < length fs" for j
    using that take i by (auto simp: split_inv_def nth_list_update dest: spec [of _ i])
  ultimately show ?case
    using take i update_children [of "sp_calls s" "length fs" i k Returned] by (simp add: split_inv_def)
next
  case (empty k s i)
  then show ?case
    using call_child [of "sp_calls s" "length fs" k i Looking] update_children [of "sp_calls s" "length fs" i k Joining]
    by (simp add: split_inv_def returned_by_def)
next
  case (join k s i)
  then show ?case
    using call_child [of "sp_calls s" "length fs" k i Joining] update_children [of "sp_calls s" "length fs" i k Waiting]
    by (simp add: split_inv_def returned_by_def)
next
  case (arrive s p)
  from arrive dispatch_inv [OF arrive(2)] wake_children [of "sp_calls s" "length fs" Looking] show ?case
    by (simp add: split_inv_def returned_by_def)
next
  case (fail s)
  with wake_children [of "sp_calls s" "length fs" Returned] show ?case
    by (simp add: split_inv_def returned_by_def)
qed

lemma split_reachable_inv: "split_reachable fs s \<Longrightarrow> split_inv fs s"
proof (induction rule: split_reachable.induct)
  case init
  show ?case by (simp add: split_inv_def returned_by_def)
next
  case (step s s')
  then show ?case using split_step_inv by blast
qed

section \<open>STUN\<close>

text \<open>
  \<open>Read\<close> of the STUN client's connection over the results of the reads below it (\<open>None\<close> is an
  error): everything from another address is skipped. The outer \<open>None\<close> means that it still reads.
\<close>

fun stun_Read :: "addr_port \<Rightarrow> datagram option list \<Rightarrow> byte list option option" where
  "stun_Read addrPort [] = None"
| "stun_Read addrPort (None # rs) = Some None"
| "stun_Read addrPort (Some (addr, b) # rs) = (if addr \<noteq> addrPort then stun_Read addrPort rs else Some (Some b))"

text \<open>\<open>strings.Cut\<close> at the first colon, \<open>To4\<close> of a \<open>net.IP\<close>.\<close>

definition Cut :: "char \<Rightarrow> string \<Rightarrow> string \<times> string" where
  "Cut d s = (takeWhile (\<lambda>c. c \<noteq> d) s, tl (dropWhile (\<lambda>c. c \<noteq> d) s))"

definition To4 :: "byte list \<Rightarrow> byte list option" where
  "To4 ip =
     (if length ip = 4 then Some ip
      else if length ip = 16 \<and> take 12 ip = replicate 10 0 @ [0xff, 0xff] then Some (drop 12 ip) else None)"

datatype lookup_error = ParsingPortFailed | LookupFailed | UnknownHost

text \<open>
  The resolver is the argument \<open>LookupIP\<close>; \<open>Intn\<close> picks among the addresses of the family.
\<close>

definition family_addrs :: "bool \<Rightarrow> byte list list \<Rightarrow> byte list list" where
  "family_addrs isV6 ips =
     List.map_filter (\<lambda>i. case To4 i of None \<Rightarrow> if isV6 then Some i else None
                        | Some v4 \<Rightarrow> if isV6 then None else Some v4) ips"

definition lookup :: "(string \<Rightarrow> byte list list option) \<Rightarrow> (nat \<Rightarrow> nat) \<Rightarrow> string \<Rightarrow> bool
    \<Rightarrow> lookup_error + addr_port" where
  "lookup LookupIP Intn endpoint isV6 =
     (case Cut (CHR '':'') endpoint of
        (endpointAddr, endpointPort) \<Rightarrow>
          (case Atoi endpointPort of
             None \<Rightarrow> Inl ParsingPortFailed
           | Some port \<Rightarrow>
               (case LookupIP endpointAddr of
                  None \<Rightarrow> Inl LookupFailed
                | Some ips \<Rightarrow>
                    let filtered = family_addrs isV6 ips
                    in if filtered = [] then Inl UnknownHost
                       else Inr (AddrPort (AddrFromSlice (filtered ! Intn (length filtered))) (of_int port)))))"

section \<open>The collector of endpoints\<close>

text \<open>
  A bundler has the connection under it and the filters of its children, whose numbers are their
  places. A child writes to the connection, and closes it for all.
\<close>

record 'c bundler =
  bu_conn :: 'c
  bu_children :: "filter list"

definition NewBundler :: "'c \<Rightarrow> 'c bundler" where
  "NewBundler conn = \<lparr>bu_conn = conn, bu_children = []\<rparr>"

definition bundler_Add :: "filter \<Rightarrow> 'c bundler \<Rightarrow> 'c bundler \<times> nat" where
  "bundler_Add f b = (b\<lparr>bu_children := bu_children b @ [f]\<rparr>, length (bu_children b))"

definition child_WriteTo :: "(datagram \<Rightarrow> 'c \<Rightarrow> 'c \<times> nat option) \<Rightarrow> byte list \<Rightarrow> addr_port \<Rightarrow> 'c bundler \<Rightarrow> 'c bundler \<times> nat option" where
  "child_WriteTo conn_WriteTo p addr b = (case conn_WriteTo (addr, p) (bu_conn b) of (c, n) \<Rightarrow> (b\<lparr>bu_conn := c\<rparr>, n))"

definition child_Close :: "('c \<Rightarrow> 'c \<times> bool) \<Rightarrow> 'c bundler \<Rightarrow> 'c bundler \<times> bool" where
  "child_Close conn_Close b = (case conn_Close (bu_conn b) of (c, ok) \<Rightarrow> (b\<lparr>bu_conn := c\<rparr>, ok))"

text \<open>The two bundlers of the program: the engine's and, over its second child, the collector's.\<close>

definition two_children :: "'c \<Rightarrow> filter \<Rightarrow> filter \<Rightarrow> 'c bundler \<times> nat \<times> nat" where
  "two_children conn f g =
     (case bundler_Add f (NewBundler conn) of (b, i) \<Rightarrow> case bundler_Add g b of (b, j) \<Rightarrow> (b, i, j))"

definition collector_bundler :: "'c \<Rightarrow> 'c bundler \<times> nat \<times> nat" where
  "collector_bundler conn = two_children conn (\<lambda>(addr, b). is_4 (unmap (ap_addr addr))) (\<lambda>_. True)"

definition engine_bundler :: "'c \<Rightarrow> 'c bundler \<times> nat \<times> nat" where
  "engine_bundler conn = two_children conn (\<lambda>(addr, b). b \<noteq> [] \<and> bit (b ! 0) 7) (\<lambda>_. True)"

definition collector_filters :: "filter list" where
  "collector_filters = bu_children (fst (collector_bundler ()))"

definition engine_filters :: "filter list" where
  "engine_filters = bu_children (fst (engine_bundler ()))"

lemma filters_simps:
  "collector_filters = [\<lambda>(addr, b). is_4 (unmap (ap_addr addr)), \<lambda>_. True]"
  "engine_filters = [\<lambda>(addr, b). b \<noteq> [] \<and> bit (b ! 0) 7, \<lambda>_. True]"
  by (simp_all add: collector_filters_def engine_filters_def collector_bundler_def engine_bundler_def two_children_def
      bundler_Add_def NewBundler_def)

record collector =
  co_listenPort :: int
  co_addrV4 :: "addr_port option"
  co_addrV6 :: "addr_port option"

text \<open>
  What \<open>notify\<close> hands to the callback: the endpoints and those seen from outside. Where the
  interfaces cannot be listed it goes on without them.
\<close>

definition collector_notify :: "byte list list option \<Rightarrow> collector \<Rightarrow> addr_port list \<times> addr_port list" where
  "collector_notify netAddrs c =
     (let addrs = (case netAddrs of None \<Rightarrow> [] | Some ips \<Rightarrow> ips);
          addrPorts = map (\<lambda>ip. AddrPort (unmap (AddrFromSlice ip)) (of_int (co_listenPort c))) addrs;
          stun = (case co_addrV4 c of None \<Rightarrow> [] | Some ap \<Rightarrow> [ap]) @ (case co_addrV6 c of None \<Rightarrow> [] | Some ap \<Rightarrow> [ap])
      in (addrPorts @ stun, stun))"

definition notifyV4 :: "byte list list option \<Rightarrow> addr_port \<Rightarrow> collector \<Rightarrow> collector \<times> addr_port list \<times> addr_port list" where
  "notifyV4 netAddrs v4 c = (let c = c\<lparr>co_addrV4 := Some v4\<rparr> in (c, collector_notify netAddrs c))"

definition notifyV6 :: "byte list list option \<Rightarrow> addr_port \<Rightarrow> collector \<Rightarrow> collector \<times> addr_port list \<times> addr_port list" where
  "notifyV6 netAddrs v6 c = (let c = c\<lparr>co_addrV6 := Some v6\<rparr> in (c, collector_notify netAddrs c))"

lemma be_nat_append: "be_nat (xs @ ys) = be_nat xs * 256 ^ length ys + be_nat ys"
  by (induction ys rule: rev_induct) (simp_all add: algebra_simps flip: append_assoc)

lemma AddrFromSlice_To4:
  assumes "To4 ip = Some v4"
  shows "is_4 (AddrFromSlice v4)"
  using assms by (auto simp: To4_def AddrFromSlice_def split: if_splits)

lemma be_nat_zeros [simp]: "be_nat (replicate n 0) = 0"
  by (induction n) (simp_all add: be_nat_def)

lemma mapped_prefix:
  assumes "length ip = 16"
  shows "is_4in6 (of_nat (be_nat ip)) \<longleftrightarrow> take 12 ip = replicate 10 0 @ [0xff, 0xff]"
proof -
  let ?p = "take 12 ip" and ?w = "of_nat (be_nat ip) :: 128 word"
  have split: "be_nat ip = be_nat ?p * 2 ^ 32 + be_nat (drop 12 ip)"
    using be_nat_append [of ?p "drop 12 ip"] assms by simp
  have low: "be_nat (drop 12 ip) < 2 ^ 32"
    using be_nat_less [of "drop 12 ip"] assms by simp
  have "be_nat ip < 2 ^ 128"
    using be_nat_less [of ip] assms by simp
  then have w: "unat ?w = be_nat ip" "take_bit 128 (be_nat ip) = be_nat ip"
    by (simp_all add: unsigned_of_nat take_bit_nat_eq_self)
  have "unat (drop_bit 32 ?w) = drop_bit 32 (take_bit 128 (unat ?w))"
    by (simp add: unsigned_drop_bit_eq del: drop_bit_of_nat)
  then have "unat (drop_bit 32 ?w) = be_nat ip div 2 ^ 32"
    unfolding w by (simp only: drop_bit_eq_div)
  also have "\<dots> = be_nat ?p"
    unfolding split using low by simp
  finally have "drop_bit 32 ?w = 0xFFFF \<longleftrightarrow> be_nat ?p = 0xFFFF"
    by (simp add: word_eq_iff_unsigned [where ?'a = nat])
  also have "\<dots> \<longleftrightarrow> be_nat ?p = be_nat (replicate 10 0 @ [0xff, 0xff])"
    by (simp only: be_nat_append be_nat_zeros be_nat_2) simp
  also have "\<dots> \<longleftrightarrow> ?p = replicate 10 0 @ [0xff, 0xff]"
    using assms by (intro be_nat_inject) simp
  finally show ?thesis unfolding is_4in6_def .
qed

lemma AddrFromSlice_not_To4:
  assumes "length ip = 16" "To4 ip = None"
  shows "\<not> is_4 (unmap (AddrFromSlice ip))"
  using assms mapped_prefix [OF assms(1)] by (auto simp: To4_def AddrFromSlice_def split: if_splits)

definition resolver_laws :: "(string \<Rightarrow> byte list list option) \<Rightarrow> (nat \<Rightarrow> nat) \<Rightarrow> bool" where
  "resolver_laws LookupIP Intn \<longleftrightarrow> (\<forall>n > 0. Intn n < n) \<and>
     (\<forall>host ips. LookupIP host = Some ips \<longrightarrow> (\<forall>ip \<in> set ips. length ip = 4 \<or> length ip = 16))"

lemma lookup_family:
  assumes laws: "resolver_laws LookupIP Intn" and "lookup LookupIP Intn endpoint isV6 = Inr ap"
  shows "is_4 (unmap (ap_addr ap)) \<longleftrightarrow> \<not> isV6"
proof -
  from assms(2) obtain host ips port where ips: "LookupIP host = Some ips" "family_addrs isV6 ips \<noteq> []"
    and ap: "ap = AddrPort (AddrFromSlice (family_addrs isV6 ips ! Intn (length (family_addrs isV6 ips)))) (of_int port)"
    by (auto simp: lookup_def Let_def split: prod.splits option.splits if_splits)
  let ?ip = "family_addrs isV6 ips ! Intn (length (family_addrs isV6 ips))"
  from laws ips(2) have "?ip \<in> set (family_addrs isV6 ips)"
    by (simp add: resolver_laws_def)
  then obtain i where i: "i \<in> set ips"
    "(case To4 i of None \<Rightarrow> if isV6 then Some i else None | Some v4 \<Rightarrow> if isV6 then None else Some v4) = Some ?ip"
    by (auto simp: family_addrs_def List.map_filter_def image_iff)
  show ?thesis
  proof (cases "To4 i")
    case None
    with i have "isV6" "?ip = i" by (auto split: if_splits)
    moreover have "length i = 4 \<or> length i = 16"
      using laws ips(1) i(1) unfolding resolver_laws_def by blast
    then have "length i = 16"
      using None by (auto simp: To4_def)
    ultimately show ?thesis
      using None AddrFromSlice_not_To4 [of i] ap by simp
  next
    case (Some v4)
    with i have "\<not> isV6" "?ip = v4" by (auto split: if_splits)
    with AddrFromSlice_To4 [OF Some] ap show ?thesis
      by (cases "AddrFromSlice v4") auto
  qed
qed

section \<open>Properties\<close>


lemma example_split:
  "split_reachable [\<lambda>(a, b). b = [1], \<lambda>_. True]
     \<lparr>sp_queues = [[(zero_addr_port, [1])], []], sp_flight = False, sp_calls = [(1, Looking)],
       sp_arrived = [(zero_addr_port, [1])], sp_returned = []\<rparr>" (is "split_reachable ?fs _")
proof -
  have 0: "split_reachable ?fs \<lparr>sp_queues = [[], []], sp_flight = False, sp_calls = [], sp_arrived = [], sp_returned = []\<rparr>"
    using split_reachable.init [of ?fs] by (simp add: numeral_2_eq_2)
  have 1: "split_reachable ?fs \<lparr>sp_queues = [[], []], sp_flight = False, sp_calls = [(1, Looking)], sp_arrived = [], sp_returned = []\<rparr>"
    using split_reachable.step [OF 0 split_step.call [of 1]] by simp
  have 2: "split_reachable ?fs \<lparr>sp_queues = [[], []], sp_flight = False, sp_calls = [(1, Joining)], sp_arrived = [], sp_returned = []\<rparr>"
    using split_reachable.step [OF 1 split_step.empty [of 0 _ 1]] by simp
  have 3: "split_reachable ?fs \<lparr>sp_queues = [[], []], sp_flight = True, sp_calls = [(1, Waiting)], sp_arrived = [], sp_returned = []\<rparr>"
    using split_reachable.step [OF 2 split_step.join [of 0 _ 1]] by simp
  show ?thesis
    using split_reachable.step [OF 3 split_step.arrive [where p = "(zero_addr_port, [1])"]]
    by (simp add: offer_def wake_def)
qed


text \<open>
  C39. The answers of the STUN servers reach the client that asked: if the lookup of a server for
  a version of IP gives an address, then a STUN message (a first byte below 128) from there
  goes, by the engine's split, to the collector's side and, by the collector's split, to the
  client of this version, whose connection returns it and skips everything from other
  addresses before it.
\<close>
theorem stun_answers_reach_their_client:
  assumes "resolver_laws LookupIP Intn" "lookup LookupIP Intn endpoint isV6 = Inr server"
    and "msg \<noteq> []" "\<not> bit (msg ! 0) 7" "\<forall>r \<in> set others. \<exists>a b. r = Some (a, b) \<and> a \<noteq> server"
  shows "is_for engine_filters 1 (server, msg) \<and>
    is_for collector_filters (if isV6 then 1 else 0) (server, msg) \<and>
    stun_Read server (others @ Some (server, msg) # rest) = Some (Some msg)"
proof (intro conjI)
  show "is_for engine_filters 1 (server, msg)"
    using assms(4) by (simp add: is_for_def filters_simps)
  show "is_for collector_filters (if isV6 then 1 else 0) (server, msg)"
    using lookup_family [OF assms(1,2)] by (simp add: is_for_def filters_simps)
  show "stun_Read server (others @ Some (server, msg) # rest) = Some (Some msg)"
    using assms(5) by (induction others) auto
qed

definition example_resolver :: "string \<Rightarrow> byte list list option" where
  "example_resolver host = Some [[1, 1, 1, 1, 1, 1, 1, 1, 1, 1, 1, 1, 1, 1, 1, 1],
     [0, 0, 0, 0, 0, 0, 0, 0, 0, 0, 0xff, 0xff, 10, 0, 0, 1]]"

lemma ten_zeros: "replicate 10 (0 :: byte) = [0, 0, 0, 0, 0, 0, 0, 0, 0, 0]"
  by (simp add: numeral_eq_Suc)

lemma example_lookup: "lookup example_resolver (\<lambda>n. 0) ''s:3478'' False = Inr (AddrPort (IP4 0x0A000001) 3478)"
proof -
  have cut: "Cut (CHR '':'') ''s:3478'' = (''s'', ''3478'')"
    by (simp add: Cut_def)
  have port: "Atoi ''3478'' = Some 3478"
    by code_simp
  have ips: "family_addrs False [[1, 1, 1, 1, 1, 1, 1, 1, 1, 1, 1, 1, 1, 1, 1, 1],
     [0, 0, 0, 0, 0, 0, 0, 0, 0, 0, 0xff, 0xff, 10, 0, 0, 1]] = [[10, 0, 0, 1]]"
    by (simp add: family_addrs_def List.map_filter_simps To4_def ten_zeros)
  have addr: "AddrFromSlice [10, 0, 0, 1] = IP4 0x0A000001"
    by (simp add: AddrFromSlice_def be_nat_def)
  show ?thesis
    by (simp add: lookup_def cut port example_resolver_def ips addr)
qed

theorem stun_answers_reach_their_client_witness:
  "is_for engine_filters 1 (AddrPort (IP4 0x0A000001) 3478, [0, 1]) \<and>
    is_for collector_filters (if False then 1 else 0) (AddrPort (IP4 0x0A000001) 3478, [0, 1]) \<and>
    stun_Read (AddrPort (IP4 0x0A000001) 3478)
      ([Some (AddrPort (IP4 1) 1, [])] @ Some (AddrPort (IP4 0x0A000001) 3478, [0, 1]) # []) = Some (Some [0, 1])"
proof (rule stun_answers_reach_their_client)
  show "resolver_laws example_resolver (\<lambda>n. 0)"
    by (simp add: resolver_laws_def example_resolver_def)
  show "lookup example_resolver (\<lambda>n. 0) ''s:3478'' False = Inr (AddrPort (IP4 0x0A000001) 3478)"
    by (rule example_lookup)
qed simp_all

end
