(* ===== verification/Alarm.thy ===== *)
theory Alarm
  imports Containers TetraEngine
begin

text \<open>
  \<open>pkg/alarm\<close> and \<open>pkg/monitor\<close>, and the goroutine of \<open>tetrad/main.go\<close> that triggers the engine: an
  alarm with its subscribers, the ticker and the combinator, the loop of the monitor, and the
  path from a message of the kernel to a new STUN request and a reconfiguration.
\<close>

section \<open>The alarm\<close>

text \<open>
  A subscriber is an object with a channel for one token; \<open>al_subs\<close> holds the objects that exist,
  \<open>al_m\<close> the references to those that are registered.
\<close>

record subscriber =
  sb_ch :: bool
  sb_closed :: bool

record alarm =
  al_m :: "(int, int) syncmap"
  al_subs :: "(int, subscriber) syncmap"
  al_counter :: int

definition new_alarm :: alarm where
  "new_alarm = \<lparr>al_m = [], al_subs = [], al_counter = 0\<rparr>"

definition wake :: "int \<Rightarrow> alarm \<Rightarrow> alarm outcome" where
  "wake s a =
     (case sm_Load s (al_subs a) of
        None \<Rightarrow> Panics NilDereference
      | Some sub \<Rightarrow>
          if sb_closed sub then Panics SendOnClosedChannel
          else Returns (a\<lparr>al_subs := sm_Store s (sub\<lparr>sb_ch := True\<rparr>) (al_subs a)\<rparr>))"

fun wake_each :: "(int, int) syncmap \<Rightarrow> alarm \<Rightarrow> alarm outcome" where
  "wake_each [] a = Returns a"
| "wake_each ((key, value) # m) a = bind_outcome (wake value a) (wake_each m)"

definition WakeUpAll :: "alarm \<Rightarrow> alarm outcome" where
  "WakeUpAll a = wake_each (al_m a) a"

definition Subscribe :: "alarm \<Rightarrow> alarm \<times> int" where
  "Subscribe a =
     (let i = al_counter a + 1
      in (a\<lparr>al_counter := i, al_subs := sm_Store i \<lparr>sb_ch = False, sb_closed = False\<rparr> (al_subs a),
            al_m := sm_Store i i (al_m a)\<rparr>, i))"

text \<open>The two parts of \<open>Close\<close>: other goroutines can run between them.\<close>

definition sub_delete :: "int \<Rightarrow> alarm \<Rightarrow> alarm" where
  "sub_delete s a = a\<lparr>al_m := sm_Delete s (al_m a)\<rparr>"

definition sub_close_ch :: "int \<Rightarrow> alarm \<Rightarrow> alarm outcome" where
  "sub_close_ch s a =
     (case sm_Load s (al_subs a) of
        None \<Rightarrow> Panics NilDereference
      | Some sub \<Rightarrow>
          if sb_closed sub then Panics CloseOfClosedChannel
          else Returns (a\<lparr>al_subs := sm_Store s (sub\<lparr>sb_closed := True\<rparr>) (al_subs a)\<rparr>))"

definition sub_Close :: "int \<Rightarrow> alarm \<Rightarrow> alarm outcome" where
  "sub_Close s a = sub_close_ch s (sub_delete s a)"

text \<open>A token waits for the subscriber; receiving takes it.\<close>

definition has_token :: "int \<Rightarrow> alarm \<Rightarrow> bool" where
  "has_token s a = (case sm_Load s (al_subs a) of None \<Rightarrow> False | Some sub \<Rightarrow> sb_ch sub)"

definition take_token :: "int \<Rightarrow> alarm \<Rightarrow> alarm" where
  "take_token s a =
     (case sm_Load s (al_subs a) of
        None \<Rightarrow> a
      | Some sub \<Rightarrow> a\<lparr>al_subs := sm_Store s (sub\<lparr>sb_ch := False\<rparr>) (al_subs a)\<rparr>)"

section \<open>The monitor\<close>

text \<open>
  One round of \<open>run\<close>: \<open>before\<close> and \<open>after\<close> are what \<open>stopped\<close> holds before and after the call
  of \<open>Receive\<close>, which returns the messages or fails.
\<close>

datatype monitor_action = MonitorReturns | MonitorSleeps | MonitorContinues | MonitorWakes

definition monitor_run :: "bool \<Rightarrow> 'm list option \<Rightarrow> bool \<Rightarrow> monitor_action" where
  "monitor_run before msgs after =
     (if before then MonitorReturns
      else case msgs of
             None \<Rightarrow> if after then MonitorReturns else MonitorSleeps
           | Some ms \<Rightarrow> if length ms = 0 then MonitorContinues else MonitorWakes)"

section \<open>STUN requests\<close>

text \<open>The loop of a STUN client asks and then waits for a token or the end.\<close>

datatype stun_pc = StunAsks | StunWaits | StunReturned

record stun_client =
  st_trigger :: bool
  st_closed :: bool
  st_pc :: stun_pc

definition stun_Trigger :: "stun_client \<Rightarrow> stun_client" where
  "stun_Trigger s = s\<lparr>st_trigger := True\<rparr>"

inductive stun_step :: "stun_client \<Rightarrow> stun_client \<Rightarrow> bool" where
  asked: "st_pc s = StunAsks \<Longrightarrow> stun_step s (s\<lparr>st_pc := StunWaits\<rparr>)"
| again: "st_pc s = StunWaits \<Longrightarrow> st_trigger s \<Longrightarrow> stun_step s (s\<lparr>st_trigger := False, st_pc := StunAsks\<rparr>)"
| closed: "st_pc s = StunWaits \<Longrightarrow> st_closed s \<Longrightarrow> stun_step s (s\<lparr>st_pc := StunReturned\<rparr>)"

definition collector_Trigger :: "stun_client \<times> stun_client \<Rightarrow> stun_client \<times> stun_client" where
  "collector_Trigger c = (stun_Trigger (fst c), stun_Trigger (snd c))"

definition te_Trigger :: "(stun_client \<times> stun_client) \<times> tetra_engine \<Rightarrow> ((stun_client \<times> stun_client) \<times> tetra_engine) outcome" where
  "te_Trigger e = bind_outcome (triggerReconfig (snd e)) (\<lambda>e'. Returns (collector_Trigger (fst e), e'))"

section \<open>From the monitor to the engine\<close>

text \<open>
  The goroutines: the monitor, the ticker, the combinator over the ticker and a subscriber of the
  monitor's alarm, and the loop of the daemon. The channels of the ticker and of the combinator
  have no room, so that a send and its receive are one step. \<open>ws_pending\<close> says that the kernel
  reported a change and the engine was not triggered since.
\<close>

datatype mon_pc = MonReceives | MonWakes
datatype tick_pc = TickWaits | TickSends | TickReturned
datatype comb_pc = CombWaits | CombSends | CombReturned
datatype main_pc = MainWaits | MainTriggers | MainReturned

record watch_sys =
  ws_alarm :: alarm
  ws_sub :: int
  ws_mon :: mon_pc
  ws_tick :: tick_pc
  ws_tick_closed :: bool
  ws_comb :: comb_pc
  ws_comb_closed :: bool
  ws_main :: main_pc
  ws_engine :: "(stun_client \<times> stun_client) \<times> tetra_engine"
  ws_pending :: bool

text \<open>The steps that need nothing from outside, and all steps.\<close>

inductive watch_internal :: "watch_sys \<Rightarrow> watch_sys \<Rightarrow> bool" where
  wakes: "ws_mon s = MonWakes \<Longrightarrow> WakeUpAll (ws_alarm s) = Returns a \<Longrightarrow>
    watch_internal s (s\<lparr>ws_alarm := a, ws_mon := MonReceives\<rparr>)"
| from_ticker: "ws_tick s = TickSends \<Longrightarrow> ws_comb s = CombWaits \<Longrightarrow>
    watch_internal s (s\<lparr>ws_tick := TickWaits, ws_comb := CombSends\<rparr>)"
| from_monitor: "ws_comb s = CombWaits \<Longrightarrow> has_token (ws_sub s) (ws_alarm s) \<Longrightarrow>
    watch_internal s (s\<lparr>ws_alarm := take_token (ws_sub s) (ws_alarm s), ws_comb := CombSends\<rparr>)"
| to_main: "ws_comb s = CombSends \<Longrightarrow> ws_main s = MainWaits \<Longrightarrow>
    watch_internal s (s\<lparr>ws_comb := CombWaits, ws_main := MainTriggers\<rparr>)"
| triggers: "ws_main s = MainTriggers \<Longrightarrow> te_Trigger (ws_engine s) = Returns e \<Longrightarrow>
    watch_internal s (s\<lparr>ws_engine := e, ws_main := MainWaits, ws_pending := False\<rparr>)"
| comb_returns: "ws_comb s = CombWaits \<Longrightarrow> ws_comb_closed s \<Longrightarrow> sub_Close (ws_sub s) (ws_alarm s) = Returns a \<Longrightarrow>
    watch_internal s (s\<lparr>ws_alarm := a, ws_tick_closed := True, ws_comb := CombReturned\<rparr>)"
| tick_returns: "ws_tick s = TickWaits \<Longrightarrow> ws_tick_closed s \<Longrightarrow> watch_internal s (s\<lparr>ws_tick := TickReturned\<rparr>)"

inductive watch_step :: "watch_sys \<Rightarrow> watch_sys \<Rightarrow> bool" where
  internal: "watch_internal s s' \<Longrightarrow> watch_step s s'"
| message: "ws_mon s = MonReceives \<Longrightarrow> monitor_run False (Some (msgs :: byte list list)) False = MonitorWakes \<Longrightarrow>
    watch_step s (s\<lparr>ws_mon := MonWakes, ws_pending := True\<rparr>)"
| tick: "ws_tick s = TickWaits \<Longrightarrow> watch_step s (s\<lparr>ws_tick := TickSends\<rparr>)"
| subscribe: "watch_step s (s\<lparr>ws_alarm := fst (Subscribe (ws_alarm s))\<rparr>)"
| shutdown: "ws_main s = MainWaits \<Longrightarrow> watch_step s (s\<lparr>ws_main := MainReturned, ws_comb_closed := True\<rparr>)"
| stun4: "stun_step (fst (fst (ws_engine s))) c \<Longrightarrow>
    watch_step s (s\<lparr>ws_engine := ((c, snd (fst (ws_engine s))), snd (ws_engine s))\<rparr>)"
| stun6: "stun_step (snd (fst (ws_engine s))) c \<Longrightarrow>
    watch_step s (s\<lparr>ws_engine := ((fst (fst (ws_engine s)), c), snd (ws_engine s))\<rparr>)"
| reconfig: "te_closed e = te_closed (snd (ws_engine s)) \<Longrightarrow>
    watch_step s (s\<lparr>ws_engine := (fst (ws_engine s), e)\<rparr>)"

definition new_stun :: stun_client where
  "new_stun = \<lparr>st_trigger = False, st_closed = False, st_pc = StunAsks\<rparr>"

definition new_watch :: "tetra_engine \<Rightarrow> watch_sys" where
  "new_watch e = \<lparr>ws_alarm = fst (Subscribe new_alarm), ws_sub = snd (Subscribe new_alarm), ws_mon = MonReceives,
     ws_tick = TickWaits, ws_tick_closed = False, ws_comb = CombWaits, ws_comb_closed = False, ws_main = MainWaits,
     ws_engine = ((new_stun, new_stun), e), ws_pending = False\<rparr>"

inductive watch_reachable :: "watch_sys \<Rightarrow> bool" where
  init: "\<not> te_closed e \<Longrightarrow> watch_reachable (new_watch e)"
| step: "watch_reachable s \<Longrightarrow> watch_step s s' \<Longrightarrow> watch_reachable s'"

inductive_cases watch_stepE: "watch_step s s'"
inductive_cases watch_internalE: "watch_internal s s'"

section \<open>What an alarm promises\<close>

definition open_sub :: "int \<Rightarrow> alarm \<Rightarrow> bool" where
  "open_sub s a \<longleftrightarrow> (\<exists>sub. sm_Load s (al_subs a) = Some sub \<and> \<not> sb_closed sub)"

definition alarm_ok :: "alarm \<Rightarrow> bool" where
  "alarm_ok a \<longleftrightarrow> sm_ok (al_m a) \<and> (\<forall>(k, v) \<in> set (al_m a). v = k \<and> k \<le> al_counter a \<and> open_sub v a)"

definition registered :: "int \<Rightarrow> alarm \<Rightarrow> bool" where
  "registered s a \<longleftrightarrow> (s, s) \<in> set (al_m a)"

lemma wake_open:
  assumes "open_sub s a"
  shows "\<exists>a'. wake s a = Returns a' \<and> al_m a' = al_m a \<and> al_counter a' = al_counter a \<and>
    (\<forall>i. has_token i a' \<longleftrightarrow> has_token i a \<or> i = s) \<and> (\<forall>i. open_sub i a' \<longleftrightarrow> open_sub i a)"
proof -
  from assms obtain sub where sub: "sm_Load s (al_subs a) = Some sub" "\<not> sb_closed sub"
    by (auto simp: open_sub_def)
  then show ?thesis
    by (auto simp: wake_def has_token_def open_sub_def syncmap.load_store)
qed

lemma wake_each_open:
  assumes "\<forall>(k, v) \<in> set m. open_sub v a"
  shows "\<exists>a'. wake_each m a = Returns a' \<and> al_m a' = al_m a \<and> al_counter a' = al_counter a \<and>
    (\<forall>i. has_token i a' \<longleftrightarrow> has_token i a \<or> i \<in> snd ` set m) \<and> (\<forall>i. open_sub i a' \<longleftrightarrow> open_sub i a)"
  using assms
proof (induction m arbitrary: a)
  case (Cons x m)
  obtain k v where x: "x = (k, v)" by (cases x)
  with Cons.prems have "open_sub v a" by simp
  from wake_open [OF this] obtain b where b: "wake v a = Returns b" "al_m b = al_m a" "al_counter b = al_counter a"
    "\<And>i. has_token i b \<longleftrightarrow> has_token i a \<or> i = v" "\<And>i. open_sub i b \<longleftrightarrow> open_sub i a"
    by blast
  with Cons.prems have "\<forall>(k, v) \<in> set m. open_sub v b" by simp
  from Cons.IH [OF this] obtain c where "wake_each m b = Returns c" "al_m c = al_m b" "al_counter c = al_counter b"
    "\<And>i. has_token i c \<longleftrightarrow> has_token i b \<or> i \<in> snd ` set m" "\<And>i. open_sub i c \<longleftrightarrow> open_sub i b"
    by blast
  with b show ?case by (auto simp: x)
qed simp

lemma WakeUpAll_wakes:
  assumes "alarm_ok a"
  shows "\<exists>a'. WakeUpAll a = Returns a' \<and> alarm_ok a' \<and> al_m a' = al_m a \<and>
    (\<forall>i. has_token i a' \<longleftrightarrow> has_token i a \<or> registered i a) \<and> (\<forall>i. open_sub i a' \<longleftrightarrow> open_sub i a)"
proof -
  from assms have "\<forall>(k, v) \<in> set (al_m a). open_sub v a" by (auto simp: alarm_ok_def)
  from wake_each_open [OF this] obtain a' where a': "WakeUpAll a = Returns a'" "al_m a' = al_m a" "al_counter a' = al_counter a"
    "\<And>i. has_token i a' \<longleftrightarrow> has_token i a \<or> i \<in> snd ` set (al_m a)" "\<And>i. open_sub i a' \<longleftrightarrow> open_sub i a"
    by (auto simp: WakeUpAll_def)
  have "i \<in> snd ` set (al_m a) \<longleftrightarrow> registered i a" for i
    using assms by (force simp: alarm_ok_def registered_def)
  with a' assms show ?thesis by (simp add: alarm_ok_def)
qed

lemma update_new: "k \<notin> fst ` set m \<Longrightarrow> AList.update k v m = m @ [(k, v)]"
  by (induction m) auto

lemma Subscribe_ok:
  assumes "alarm_ok a" "Subscribe a = (a', s)"
  shows "alarm_ok a'" "registered s a'" "i \<noteq> s \<Longrightarrow> registered i a' = registered i a"
    "i \<noteq> s \<Longrightarrow> has_token i a' = has_token i a" "\<not> has_token s a'" "registered i a \<Longrightarrow> i \<noteq> s"
proof -
  have a': "s = al_counter a + 1" "a' = a\<lparr>al_counter := s, al_subs := sm_Store s \<lparr>sb_ch = False, sb_closed = False\<rparr> (al_subs a),
      al_m := sm_Store s s (al_m a)\<rparr>"
    using assms(2) by (auto simp: Subscribe_def Let_def)
  have fresh: "s \<notin> fst ` set (al_m a)"
    using assms(1) by (force simp: alarm_ok_def a'(1))
  then have m: "al_m a' = al_m a @ [(s, s)]"
    by (simp add: a'(2) sm_Store_def update_new)
  show "registered i a \<Longrightarrow> i \<noteq> s"
    using fresh by (force simp: registered_def)
  show "registered s a'" "i \<noteq> s \<Longrightarrow> registered i a' = registered i a"
    by (auto simp: registered_def m)
  show "i \<noteq> s \<Longrightarrow> has_token i a' = has_token i a" "\<not> has_token s a'"
    by (simp_all add: has_token_def a'(2) syncmap.load_store)
  have "open_sub v a' \<longleftrightarrow> v = s \<or> open_sub v a" for v
    by (simp add: open_sub_def a'(2) syncmap.load_store)
  then show "alarm_ok a'"
    using assms(1) fresh by (auto simp: alarm_ok_def sm_ok_def m a'(1)) (auto simp: a')
qed

lemma sub_Close_ok:
  assumes "alarm_ok a" "sub_Close s a = Returns a'"
  shows "alarm_ok a'" "i \<noteq> s \<Longrightarrow> registered i a' = registered i a" "has_token i a' = has_token i a"
proof -
  obtain sub where sub: "sm_Load s (al_subs a) = Some sub" "\<not> sb_closed sub"
    "a' = a\<lparr>al_m := sm_Delete s (al_m a), al_subs := sm_Store s (sub\<lparr>sb_closed := True\<rparr>) (al_subs a)\<rparr>"
    using assms(2) by (auto simp: sub_Close_def sub_close_ch_def sub_delete_def split: option.splits if_splits)
  have m: "set (al_m a') = {p \<in> set (al_m a). fst p \<noteq> s}"
    by (auto simp: sub(3) sm_Delete_def AList.delete_eq)
  show "i \<noteq> s \<Longrightarrow> registered i a' = registered i a"
    by (simp add: registered_def m)
  show "has_token i a' = has_token i a"
    using sub(1) by (auto simp: has_token_def sub(3) syncmap.load_store)
  have "v \<noteq> s \<Longrightarrow> open_sub v a' = open_sub v a" for v
    by (simp add: open_sub_def sub(3) syncmap.load_store)
  moreover have "sm_ok (al_m a')"
    using assms(1) by (simp add: sub(3) alarm_ok_def syncmap.invar_delete)
  moreover have "al_counter a' = al_counter a" by (simp add: sub(3))
  ultimately show "alarm_ok a'"
    using assms(1) by (auto simp: alarm_ok_def m)
qed

lemma take_token_ok:
  "alarm_ok (take_token s a) = alarm_ok a" "registered i (take_token s a) = registered i a"
proof -
  have "open_sub v (take_token s a) = open_sub v a" for v
    by (auto simp: take_token_def open_sub_def syncmap.load_store split: option.splits)
  moreover have "al_m (take_token s a) = al_m a" "al_counter (take_token s a) = al_counter a"
    by (simp_all add: take_token_def split: option.splits)
  ultimately show "alarm_ok (take_token s a) = alarm_ok a" "registered i (take_token s a) = registered i a"
    by (simp_all add: alarm_ok_def registered_def)
qed

text \<open>
  While no \<open>Close\<close> is under way, \<open>WakeUpAll\<close> does not panic. But \<open>Range\<close> calls back with an entry
  that it has read: a subscriber that is closed in between is woken on a closed channel.
\<close>

lemma wake_after_Close: "sub_Close s a = Returns a' \<Longrightarrow> wake s a' = Panics SendOnClosedChannel"
  by (auto simp: sub_Close_def sub_close_ch_def sub_delete_def wake_def syncmap.load_store split: option.splits if_splits)

section \<open>No change is lost\<close>

definition watch_invar :: "watch_sys \<Rightarrow> bool" where
  "watch_invar s \<longleftrightarrow> alarm_ok (ws_alarm s) \<and> \<not> te_closed (snd (ws_engine s)) \<and>
     (ws_main s \<noteq> MainReturned \<longrightarrow> \<not> ws_comb_closed s) \<and> (ws_comb s = CombReturned \<longrightarrow> ws_comb_closed s) \<and>
     (ws_comb s \<noteq> CombReturned \<longrightarrow> registered (ws_sub s) (ws_alarm s)) \<and>
     (ws_pending s \<longrightarrow> ws_mon s = MonWakes \<or> has_token (ws_sub s) (ws_alarm s) \<or> ws_comb s = CombSends \<or>
        ws_main s = MainTriggers \<or> ws_main s = MainReturned)"

lemma new_alarm_ok: "alarm_ok new_alarm"
  by (simp add: new_alarm_def alarm_ok_def sm_ok_def)

lemma watch_invar_init: "\<not> te_closed e \<Longrightarrow> watch_invar (new_watch e)"
  using Subscribe_ok(1,2) [OF new_alarm_ok, of "fst (Subscribe new_alarm)" "snd (Subscribe new_alarm)"]
  by (simp add: watch_invar_def new_watch_def)

lemma watch_invar_internal:
  assumes "watch_internal s s'" "watch_invar s"
  shows "watch_invar s'"
  using assms(1)
proof cases
  case (wakes a)
  from WakeUpAll_wakes [of "ws_alarm s"] assms(2) wakes
  have "alarm_ok a" "al_m a = al_m (ws_alarm s)" "\<And>i. has_token i a \<longleftrightarrow> has_token i (ws_alarm s) \<or> registered i (ws_alarm s)"
    by (auto simp: watch_invar_def)
  with assms(2) wakes show ?thesis
    by (cases "ws_comb s = CombReturned") (auto simp: watch_invar_def registered_def)
next
  case (comb_returns a)
  with sub_Close_ok [of "ws_alarm s" "ws_sub s" a] assms(2) show ?thesis
    by (auto simp: watch_invar_def)
qed (use assms(2) in \<open>auto simp: watch_invar_def take_token_ok te_Trigger_def triggerReconfig_def
  bind_outcome_eq_Returns split: if_splits\<close>)

lemma watch_invar_step:
  assumes "watch_step s s'" "watch_invar s"
  shows "watch_invar s'"
  using assms(1)
proof cases
  case internal
  then show ?thesis using watch_invar_internal assms(2) by blast
next
  case subscribe
  obtain a i where sub: "Subscribe (ws_alarm s) = (a, i)" by (cases "Subscribe (ws_alarm s)")
  from assms(2) have "alarm_ok (ws_alarm s)" by (simp add: watch_invar_def)
  note new = Subscribe_ok [OF this sub]
  have "registered (ws_sub s) (ws_alarm s) \<Longrightarrow> registered (ws_sub s) a \<and> has_token (ws_sub s) a = has_token (ws_sub s) (ws_alarm s)"
    using new by metis
  with subscribe sub new(1) assms(2) show ?thesis
    by (cases "ws_comb s = CombReturned") (auto simp: watch_invar_def)
qed (use assms(2) in \<open>auto simp: watch_invar_def\<close>)

lemma watch_invar_reachable: "watch_reachable s \<Longrightarrow> watch_invar s"
  by (induction rule: watch_reachable.induct) (auto intro: watch_invar_init watch_invar_step)

text \<open>How many steps are left until the engine is triggered.\<close>

definition distance :: "watch_sys \<Rightarrow> nat" where
  "distance s =
     (if ws_main s = MainTriggers then 1 else if ws_comb s = CombSends then 2
      else if has_token (ws_sub s) (ws_alarm s) then 3 else 4)"

lemma distance_decreases:
  assumes "watch_invar s" "ws_pending s" "ws_main s \<noteq> MainReturned"
  shows "\<exists>s'. watch_internal s s' \<and>
    (if ws_pending s' then distance s' < distance s else te_trigger (snd (ws_engine s')) \<and>
       st_trigger (fst (fst (ws_engine s'))) \<and> st_trigger (snd (fst (ws_engine s'))))"
proof -
  consider (trigger) "ws_main s = MainTriggers" | (send) "ws_main s = MainWaits" "ws_comb s = CombSends"
    | (token) "ws_main s = MainWaits" "ws_comb s \<noteq> CombSends" "has_token (ws_sub s) (ws_alarm s)"
    | (wake) "ws_main s = MainWaits" "ws_comb s \<noteq> CombSends" "\<not> has_token (ws_sub s) (ws_alarm s)"
    using assms(3) by (cases "ws_main s") auto
  then show ?thesis
  proof cases
    case trigger
    let ?e = "(collector_Trigger (fst (ws_engine s)), (snd (ws_engine s))\<lparr>te_trigger := True\<rparr>)"
    have "te_Trigger (ws_engine s) = Returns ?e"
      using assms(1) by (simp add: te_Trigger_def triggerReconfig_def watch_invar_def)
    note step = watch_internal.triggers [OF trigger this]
    show ?thesis
      by (intro exI conjI, rule step) (simp add: collector_Trigger_def stun_Trigger_def)
  next
    case send
    note step = watch_internal.to_main [OF send(2,1)]
    show ?thesis
      by (intro exI conjI, rule step) (simp add: send assms(2) distance_def)
  next
    case token
    with assms have "ws_comb s = CombWaits"
      by (cases "ws_comb s") (auto simp: watch_invar_def)
    note step = watch_internal.from_monitor [OF this token(3)]
    show ?thesis
      by (intro exI conjI, rule step) (use token in \<open>simp add: assms(2) distance_def\<close>)
  next
    case wake
    with assms have mon: "ws_mon s = MonWakes" and open_comb: "ws_comb s \<noteq> CombReturned"
      by (auto simp: watch_invar_def)
    from assms(1) have "alarm_ok (ws_alarm s)" by (simp add: watch_invar_def)
    from WakeUpAll_wakes [OF this] obtain a where a: "WakeUpAll (ws_alarm s) = Returns a"
      "\<And>i. has_token i a \<longleftrightarrow> has_token i (ws_alarm s) \<or> registered i (ws_alarm s)" by blast
    with assms(1) open_comb have "has_token (ws_sub s) a" by (simp add: watch_invar_def)
    note token = this and step = watch_internal.wakes [OF mon a(1)]
    show ?thesis
      by (intro exI conjI, rule step) (use wake token in \<open>simp add: assms(2) distance_def\<close>)
  qed
qed

lemma distance_never_grows:
  assumes "watch_step s s'" "watch_invar s" "ws_pending s" "ws_pending s'" "ws_main s' \<noteq> MainReturned"
  shows "distance s' \<le> distance s"
  using assms(1)
proof cases
  case internal
  then show ?thesis
  proof cases
    case (wakes a)
    with assms(2) WakeUpAll_wakes [of "ws_alarm s"] show ?thesis
      by (auto simp: watch_invar_def distance_def)
  next
    case (comb_returns a)
    with assms(2,5) show ?thesis by (simp add: watch_invar_def)
  qed (use assms in \<open>auto simp: distance_def\<close>)
next
  case subscribe
  obtain a i where sub: "Subscribe (ws_alarm s) = (a, i)" by (cases "Subscribe (ws_alarm s)")
  from assms(2) have "alarm_ok (ws_alarm s)" by (simp add: watch_invar_def)
  note new = Subscribe_ok [OF this sub]
  from assms(2,5) subscribe have "registered (ws_sub s) (ws_alarm s)"
    by (auto simp: watch_invar_def)
  then have "has_token (ws_sub s) a = has_token (ws_sub s) (ws_alarm s)"
    using new(4,6) by metis
  with subscribe sub show ?thesis by (simp add: distance_def)
qed (use assms in \<open>auto simp: distance_def\<close>)

section \<open>Property\<close>

text \<open>
  C26. No change of the network is lost: while the daemon runs, whenever the kernel reported a
  change after which the engine was not triggered, a step of the program itself is possible
  that brings the next trigger nearer or is the trigger, which leaves a token for the
  reconfiguration and for both STUN clients; and no other step moves the trigger farther away
  (the distance is at most four steps).
\<close>
theorem network_changes_reach_the_engine:
  assumes "watch_reachable s" "ws_pending s" "ws_main s \<noteq> MainReturned"
  shows "(\<exists>s'. watch_internal s s' \<and>
      (if ws_pending s' then distance s' < distance s else te_trigger (snd (ws_engine s')) \<and>
         st_trigger (fst (fst (ws_engine s'))) \<and> st_trigger (snd (fst (ws_engine s'))))) \<and>
    (\<forall>s'. watch_step s s' \<longrightarrow> ws_pending s' \<longrightarrow> ws_main s' \<noteq> MainReturned \<longrightarrow> distance s' \<le> distance s) \<and>
    0 < distance s \<and> distance s \<le> 4"
  using distance_decreases [OF watch_invar_reachable [OF assms(1)] assms(2,3)]
    distance_never_grows [OF _ watch_invar_reachable [OF assms(1)] assms(2)]
  by (simp add: distance_def)

theorem network_changes_reach_the_engine_witness:
  "\<exists>s s'. watch_reachable s \<and> ws_pending s \<and> watch_internal s s' \<and> (ws_pending s' \<longrightarrow> distance s' < distance s)"
proof -
  let ?e = "init_engine [] example_te_config"
  let ?s = "(new_watch ?e)\<lparr>ws_mon := MonWakes, ws_pending := True\<rparr>"
  have "watch_reachable (new_watch ?e)" by (rule watch_reachable.init) (simp add: init_engine_def)
  moreover have "watch_step (new_watch ?e) ?s"
    by (rule watch_step.message [of _ "[[]]"]) (simp_all add: new_watch_def monitor_run_def)
  ultimately have s: "watch_reachable ?s" by (rule watch_reachable.step)
  have pending: "ws_pending ?s" and "ws_main ?s \<noteq> MainReturned" by (simp_all add: new_watch_def)
  from network_changes_reach_the_engine [OF s this] obtain s' where
    "watch_internal ?s s'" "ws_pending s' \<longrightarrow> distance s' < distance ?s"
    by (elim conjE exE) (simp split: if_splits)
  with s pending show ?thesis by blast
qed

end
