(* ===== verification/Links.thy ===== *)
theory Links
  imports Prelude
begin

text \<open>
  \<open>pkg/nsutil\<close> and the start of \<open>tetraengine/wgengine\<close>: running a function in another network
  namespace, and bringing up the WireGuard interface in the engine's namespace. The links of a
  namespace are a list with distinct names; a call of netlink acts on the link of the given
  name, as the kernel documents it, and may fail for reasons of its own.
\<close>

section \<open>Links\<close>

datatype link_kind = Wireguard | Vrf nat | Veth | Bridge | OtherLink

record link =
  ln_Index :: nat
  ln_Name :: string
  ln_Kind :: link_kind
  ln_MasterIndex :: nat
  ln_MTU :: nat
  ln_Up :: bool

datatype 'a found = Found 'a | LinkNotFound | LookupFailed

definition LinkByName :: "(string \<Rightarrow> bool) \<Rightarrow> string \<Rightarrow> link list \<Rightarrow> link found" where
  "LinkByName fails n ls =
     (if fails n then LookupFailed
      else case List.find (\<lambda>l. ln_Name l = n) ls of None \<Rightarrow> LinkNotFound | Some l \<Rightarrow> Found l)"

text \<open>The kernel refuses a second link of a name; \<open>update_link\<close> changes the one of a name.\<close>

definition has_link :: "string \<Rightarrow> link list \<Rightarrow> bool" where
  "has_link n ls \<longleftrightarrow> (\<exists>l \<in> set ls. ln_Name l = n)"

definition LinkAdd :: "bool \<Rightarrow> link \<Rightarrow> link list \<Rightarrow> link list \<times> bool" where
  "LinkAdd fails l ls = (if fails \<or> has_link (ln_Name l) ls then (ls, False) else (ls @ [l], True))"

definition LinkDel :: "bool \<Rightarrow> string \<Rightarrow> link list \<Rightarrow> link list" where
  "LinkDel fails n ls = (if fails then ls else filter (\<lambda>l. ln_Name l \<noteq> n) ls)"

definition update_link :: "string \<Rightarrow> (link \<Rightarrow> link) \<Rightarrow> link list \<Rightarrow> link list" where
  "update_link n f ls = map (\<lambda>l. if ln_Name l = n then f l else l) ls"

text \<open>\<open>LinkSetNsFd\<close> takes a link from one namespace to another, where it is down.\<close>

definition LinkSetNsFd :: "bool \<Rightarrow> string \<Rightarrow> link list \<Rightarrow> link list \<Rightarrow> link list \<times> link list \<times> bool" where
  "LinkSetNsFd fails n from to =
     (if fails \<or> has_link n to \<or> \<not> has_link n from then (from, to, False)
      else (filter (\<lambda>l. ln_Name l \<noteq> n) from,
            to @ map (\<lambda>l. l\<lparr>ln_Up := False, ln_MasterIndex := 0\<rparr>) (filter (\<lambda>l. ln_Name l = n) from), True))"

section \<open>RunInNamespace\<close>

text \<open>
  A thread of the operating system with its namespace. A goroutine that ends while it is locked
  to its thread ends the thread, too; otherwise the runtime gives it to other goroutines.
\<close>

record 'n thread =
  th_ns :: 'n
  th_locked :: bool

record ns_calls =
  nc_get :: bool
  nc_set :: bool
  nc_recover :: bool

text \<open>
  \<open>fn\<close> is called with the namespace of the thread and returns the new state and whether its error is
  nil. The result also has the thread at the end of the goroutine. The inner function does not
  assign the \<open>err\<close> that its deferred calls see (it returns one of its own), so that the thread
  stays locked only if the namespace could not be recovered, and that error is overwritten.
\<close>

definition RunInNamespace :: "ns_calls \<Rightarrow> 'n \<Rightarrow> ('n \<Rightarrow> 's \<Rightarrow> 's \<times> bool) \<Rightarrow> 'n thread \<Rightarrow> 's \<Rightarrow> 's \<times> bool \<times> 'n thread" where
  "RunInNamespace ok handle fn th s =
     (let th1 = th\<lparr>th_locked := True\<rparr>
      in if \<not> nc_get ok then (s, False, th1\<lparr>th_locked := False\<rparr>)
         else
           let cur = th_ns th1;
               recover_ns = (\<lambda>t. if nc_recover ok then t\<lparr>th_ns := cur, th_locked := False\<rparr> else t)
           in if \<not> nc_set ok then (s, False, recover_ns th1)
              else let th2 = th1\<lparr>th_ns := handle\<rparr>
                   in case fn (th_ns th2) s of (s', okay) \<Rightarrow> (s', okay, recover_ns th2))"

lemma thread_returns_home:
  assumes "RunInNamespace ok handle fn th s = (s', nil, th')" "\<not> th_locked th'"
  shows "th_ns th' = th_ns th"
  using assms by (auto simp: RunInNamespace_def Let_def split: if_splits prod.splits)

lemma runs_in_namespace:
  assumes "RunInNamespace ok handle fn th s = (s', nil, th')"
  shows "if nc_get ok \<and> nc_set ok then fn handle s = (s', nil) else s' = s \<and> \<not> nil"
  using assms by (auto simp: RunInNamespace_def Let_def split: if_splits prod.splits)

text \<open>The caller does not learn that the namespace was not recovered.\<close>

lemma recover_error_lost:
  "nc_get ok \<Longrightarrow> nc_set ok \<Longrightarrow> \<not> nc_recover ok \<Longrightarrow>
   RunInNamespace ok handle (\<lambda>_ s. (s, True)) th s = (s, True, \<lparr>th_ns = handle, th_locked = True\<rparr>)"
  by (cases th) (simp add: RunInNamespace_def)

section \<open>The start of the engine\<close>

text \<open>The links of the daemon's and of the engine's namespace, and whether the latter exists.\<close>

record wg_links =
  wl_main :: "link list"
  wl_wg :: "link list"
  wl_exists :: bool

text \<open>Which call fails.\<close>

record init_failures =
  if_NewHandle :: bool
  if_GetFromName :: bool
  if_CreateNamespace :: bool
  if_NewHandleAt :: bool
  if_LinkByName_main :: "string \<Rightarrow> bool"
  if_LinkByName_wg :: "string \<Rightarrow> bool"
  if_LinkDel :: bool
  if_LinkAdd :: bool
  if_LinkSetNsFd :: bool
  if_LinkSetMTU :: bool
  if_LinkSetUp :: bool
  if_wgctrl :: bool
  if_ns :: ns_calls

definition garbageCollect :: "init_failures \<Rightarrow> string \<Rightarrow> wg_links \<Rightarrow> wg_links" where
  "garbageCollect F ifaceName k =
     (case LinkByName (if_LinkByName_main F) ifaceName (wl_main k) of
        Found link \<Rightarrow> k\<lparr>wl_main := LinkDel (if_LinkDel F) (ln_Name link) (wl_main k)\<rparr>
      | _ \<Rightarrow> k)"

definition new_wireguard :: "string \<Rightarrow> nat \<Rightarrow> link" where
  "new_wireguard ifaceName i =
     \<lparr>ln_Index = i, ln_Name = ifaceName, ln_Kind = Wireguard, ln_MasterIndex = 0, ln_MTU = 1420, ln_Up = False\<rparr>"

text \<open>The kernel gives the new link the index \<open>i\<close>. The result says whether there was no error.\<close>

definition initWireguard :: "init_failures \<Rightarrow> nat \<Rightarrow> string \<Rightarrow> wg_links \<Rightarrow> wg_links \<times> bool" where
  "initWireguard F i ifaceName k0 =
     (let k = garbageCollect F ifaceName k0
      in case LinkByName (if_LinkByName_wg F) ifaceName (wl_wg k) of
           Found link \<Rightarrow> (k, ln_Kind link = Wireguard)
         | LinkNotFound \<Rightarrow>
             (case LinkAdd (if_LinkAdd F) (new_wireguard ifaceName i) (wl_main k) of
                (m, False) \<Rightarrow> (k, False)
              | (m, True) \<Rightarrow>
                  (case LinkSetNsFd (if_LinkSetNsFd F) ifaceName m (wl_wg k) of
                     (m', w', ok) \<Rightarrow> (k\<lparr>wl_main := m', wl_wg := w'\<rparr>, ok)))
         | LookupFailed \<Rightarrow> (k, False))"

definition initNetns :: "init_failures \<Rightarrow> wg_links \<Rightarrow> wg_links \<times> bool" where
  "initNetns F k =
     (if if_GetFromName F then (k, False)
      else if wl_exists k then (k, True)
      else if if_CreateNamespace F then (k, False) else (k\<lparr>wl_exists := True, wl_wg := []\<rparr>, True))"

definition wg_init :: "init_failures \<Rightarrow> nat \<Rightarrow> string \<Rightarrow> wg_links \<Rightarrow> wg_links \<times> bool" where
  "wg_init F i ifaceName k =
     (if if_NewHandle F then (k, False)
      else case initNetns F k of
        (k1, False) \<Rightarrow> (k1, False)
      | (k1, True) \<Rightarrow>
          if if_NewHandleAt F then (k1, False)
          else case initWireguard F i ifaceName k1 of
            (k2, False) \<Rightarrow> (k2, False)
          | (k2, True) \<Rightarrow>
              if if_LinkSetMTU F then (k2, False)
              else let k3 = k2\<lparr>wl_wg := update_link ifaceName (\<lambda>l. l\<lparr>ln_MTU := 1280\<rparr>) (wl_wg k2)\<rparr>
                   in if if_LinkSetUp F then (k3, False)
                      else let k4 = k3\<lparr>wl_wg := update_link ifaceName (\<lambda>l. l\<lparr>ln_Up := True\<rparr>) (wl_wg k3)\<rparr>
                           in case RunInNamespace (if_ns F) True (\<lambda>_ s. (s, \<not> if_wgctrl F)) \<lparr>th_ns = False, th_locked = False\<rparr> () of
                                (_, ok, _) \<Rightarrow> (k4, ok))"

section \<open>Bringing the interface up again\<close>

definition wl_ok :: "string \<Rightarrow> wg_links \<Rightarrow> bool" where
  "wl_ok n k \<longleftrightarrow> distinct (map ln_Name (wl_main k)) \<and> distinct (map ln_Name (wl_wg k)) \<and>
     (\<forall>l \<in> set (wl_wg k). ln_Name l = n \<longrightarrow> ln_Kind l = Wireguard) \<and> (\<not> wl_exists k \<longrightarrow> wl_wg k = [])"

text \<open>The links of other names.\<close>

definition others :: "string \<Rightarrow> wg_links \<Rightarrow> link list \<times> link list" where
  "others n k = (filter (\<lambda>l. ln_Name l \<noteq> n) (wl_main k), filter (\<lambda>l. ln_Name l \<noteq> n) (wl_wg k))"

lemma LinkByName_cases:
  "LinkByName F n ls = Found l \<Longrightarrow> l \<in> set ls \<and> ln_Name l = n"
  "LinkByName F n ls = LinkNotFound \<Longrightarrow> \<not> has_link n ls"
  subgoal by (auto simp: LinkByName_def find_Some_iff split: if_splits option.splits)
  subgoal by (auto simp: LinkByName_def has_link_def find_None_iff split: if_splits option.splits)
  done

lemma LinkByName_works: "LinkByName (\<lambda>_. False) n ls = LookupFailed \<Longrightarrow> P"
  by (simp add: LinkByName_def split: option.splits)

lemma no_link_filter: "\<not> has_link n ls \<Longrightarrow> filter (\<lambda>l. ln_Name l \<noteq> n) ls = ls"
  by (auto simp: has_link_def filter_id_conv)

lemma update_link_names [simp]:
  assumes "\<And>l. ln_Name (f l) = ln_Name l"
  shows "map ln_Name (update_link n f ls) = map ln_Name ls"
    "filter (\<lambda>l. ln_Name l \<noteq> n) (update_link n f ls) = filter (\<lambda>l. ln_Name l \<noteq> n) ls"
  using assms by (induction ls) (auto simp: update_link_def)

lemma garbageCollect_ok:
  assumes "wl_ok n k"
  shows "wl_ok n (garbageCollect F n k)" "others n (garbageCollect F n k) = others n k"
    "wl_exists (garbageCollect F n k) = wl_exists k" "wl_wg (garbageCollect F n k) = wl_wg k"
  using assms by (auto simp: garbageCollect_def LinkDel_def wl_ok_def others_def distinct_map_filter
    dest: LinkByName_cases split: found.split)

lemma garbageCollect_works:
  assumes "if_LinkByName_main F = (\<lambda>_. False)" "\<not> if_LinkDel F"
  shows "\<not> has_link n (wl_main (garbageCollect F n k))"
proof (cases "LinkByName (if_LinkByName_main F) n (wl_main k)")
  case (Found l)
  then have "ln_Name l = n" by (simp add: LinkByName_cases)
  with Found assms(2) show ?thesis
    by (simp add: garbageCollect_def LinkDel_def has_link_def)
next
  case LinkNotFound
  then show ?thesis by (simp add: garbageCollect_def LinkByName_cases)
next
  case LookupFailed
  then show ?thesis unfolding assms(1) by (rule LinkByName_works)
qed

text \<open>Where the name is free in both namespaces, the new interface is moved or stays.\<close>

lemma new_interface_ok:
  assumes g: "wl_ok n g" "wl_exists g" and free: "\<not> has_link n (wl_wg g)" "\<not> has_link n (wl_main g)"
    and moved: "LinkSetNsFd fails n (wl_main g @ [new_wireguard n i]) (wl_wg g) = (main, wg, ok)"
  shows "wl_ok n (g\<lparr>wl_main := main, wl_wg := wg\<rparr>) \<and> others n (g\<lparr>wl_main := main, wl_wg := wg\<rparr>) = others n g \<and>
    (ok \<longrightarrow> has_link n wg)"
proof (cases fails)
  case True
  with moved have "main = wl_main g @ [new_wireguard n i]" "wg = wl_wg g" "\<not> ok"
    by (auto simp: LinkSetNsFd_def)
  with g free show ?thesis
    by (auto simp: wl_ok_def others_def new_wireguard_def has_link_def)
next
  case False
  have "filter (\<lambda>l. ln_Name l = n) (wl_main g) = []"
    using free by (auto simp: has_link_def filter_empty_conv)
  moreover have "has_link n (wl_main g @ [new_wireguard n i])"
    by (simp add: has_link_def new_wireguard_def)
  ultimately have "main = wl_main g" "wg = wl_wg g @ [new_wireguard n i]"
    using False free moved by (simp_all add: LinkSetNsFd_def no_link_filter new_wireguard_def)
  with g free show ?thesis
    by (auto simp: wl_ok_def others_def new_wireguard_def has_link_def)
qed

lemma initWireguard_ok:
  assumes "wl_ok n k" "wl_exists k" "initWireguard F i n k = (k', ok)"
  shows "wl_ok n k' \<and> others n k' = others n k \<and> wl_exists k' \<and> (ok \<longrightarrow> has_link n (wl_wg k'))"
proof -
  define g where "g = garbageCollect F n k"
  note gc = garbageCollect_ok [OF assms(1), of F, folded g_def]
  show ?thesis
  proof (cases "LinkByName (if_LinkByName_wg F) n (wl_wg g)")
    case (Found l)
    with assms(3) have "k' = g" by (simp add: initWireguard_def Let_def g_def)
    moreover have "has_link n (wl_wg g)" using LinkByName_cases(1) [OF Found] by (auto simp: has_link_def)
    ultimately show ?thesis using gc assms(2) by simp
  next
    case LookupFailed
    with assms(3) have "k' = g" "\<not> ok" by (simp_all add: initWireguard_def Let_def g_def)
    then show ?thesis using gc assms(2) by simp
  next
    case LinkNotFound
    note absent = LinkByName_cases(2) [OF this]
    let ?l = "new_wireguard n i"
    show ?thesis
    proof (cases "if_LinkAdd F \<or> has_link n (wl_main g)")
      case True
      with assms(3) LinkNotFound have "k' = g" "\<not> ok"
        by (auto simp: initWireguard_def Let_def g_def LinkAdd_def new_wireguard_def)
      then show ?thesis using gc assms(2) by simp
    next
      case False
      then have add: "LinkAdd (if_LinkAdd F) ?l (wl_main g) = (wl_main g @ [?l], True)"
        by (simp add: LinkAdd_def new_wireguard_def)
      obtain m w where moved: "LinkSetNsFd (if_LinkSetNsFd F) n (wl_main g @ [?l]) (wl_wg g) = (m, w, ok)" "k' = g\<lparr>wl_main := m, wl_wg := w\<rparr>"
        using assms(3) LinkNotFound add by (auto simp: initWireguard_def Let_def g_def split: prod.splits)
      from gc assms(2) have "wl_ok n g" "wl_exists g" by simp_all
      from new_interface_ok [OF this absent _ moved(1)] False gc assms(2) moved(2) show ?thesis by simp
    qed
  qed
qed

text \<open>No call fails on its own.\<close>

definition no_failures :: init_failures where
  "no_failures = \<lparr>if_NewHandle = False, if_GetFromName = False, if_CreateNamespace = False, if_NewHandleAt = False,
     if_LinkByName_main = (\<lambda>_. False), if_LinkByName_wg = (\<lambda>_. False), if_LinkDel = False, if_LinkAdd = False,
     if_LinkSetNsFd = False, if_LinkSetMTU = False, if_LinkSetUp = False, if_wgctrl = False,
     if_ns = \<lparr>nc_get = True, nc_set = True, nc_recover = True\<rparr>\<rparr>"

lemma no_failures_simps [simp]:
  "if_NewHandle no_failures = False" "if_GetFromName no_failures = False" "if_CreateNamespace no_failures = False"
  "if_NewHandleAt no_failures = False" "if_LinkByName_main no_failures = (\<lambda>_. False)"
  "if_LinkByName_wg no_failures = (\<lambda>_. False)" "if_LinkDel no_failures = False" "if_LinkAdd no_failures = False"
  "if_LinkSetNsFd no_failures = False" "if_LinkSetMTU no_failures = False" "if_LinkSetUp no_failures = False"
  "if_wgctrl no_failures = False" "if_ns no_failures = \<lparr>nc_get = True, nc_set = True, nc_recover = True\<rparr>"
  by (simp_all add: no_failures_def)

lemma initWireguard_works:
  assumes "wl_ok n k"
  shows "\<exists>k'. initWireguard no_failures i n k = (k', True) \<and> \<not> has_link n (wl_main k')"
proof -
  define g where "g = garbageCollect no_failures n k"
  note gc = garbageCollect_ok [OF assms, of no_failures, folded g_def]
  have main: "\<not> has_link n (wl_main g)"
    unfolding g_def by (rule garbageCollect_works) simp_all
  show ?thesis
  proof (cases "LinkByName (if_LinkByName_wg no_failures) n (wl_wg g)")
    case (Found l)
    with gc(1) LinkByName_cases(1) [OF Found] main show ?thesis
      by (auto simp: initWireguard_def Let_def g_def [symmetric] wl_ok_def)
  next
    case LookupFailed
    then show ?thesis unfolding no_failures_simps by (rule LinkByName_works)
  next
    case LinkNotFound
    note absent = LinkByName_cases(2) [OF this]
    let ?l = "new_wireguard n i"
    have "LinkAdd (if_LinkAdd no_failures) ?l (wl_main g) = (wl_main g @ [?l], True)"
      using main by (simp add: LinkAdd_def new_wireguard_def)
    moreover have "LinkSetNsFd (if_LinkSetNsFd no_failures) n (wl_main g @ [?l]) (wl_wg g) =
        (wl_main g, wl_wg g @ map (\<lambda>l. l\<lparr>ln_Up := False, ln_MasterIndex := 0\<rparr>) (filter (\<lambda>l. ln_Name l = n) (wl_main g @ [?l])), True)"
      using absent main by (simp add: LinkSetNsFd_def no_link_filter has_link_def new_wireguard_def)
    ultimately show ?thesis
      using LinkNotFound main by (simp add: initWireguard_def Let_def g_def [symmetric])
  qed
qed

lemma initNetns_ok:
  assumes "wl_ok n k" "initNetns F k = (k', ok)"
  shows "wl_ok n k' \<and> others n k' = others n k \<and> (ok \<longrightarrow> wl_exists k')"
  using assms by (auto simp: initNetns_def wl_ok_def others_def split: if_splits)

lemma update_link_all:
  "(\<forall>l \<in> set (update_link n f ls). P l) \<longleftrightarrow> (\<forall>l \<in> set ls. P (if ln_Name l = n then f l else l))"
  by (auto simp: update_link_def)

lemma wl_ok_update:
  assumes "\<And>l. ln_Name (f l) = ln_Name l" "\<And>l. ln_Kind (f l) = ln_Kind l"
  shows "wl_ok n (k\<lparr>wl_wg := update_link n f (wl_wg k)\<rparr>) = wl_ok n k"
    "others n (k\<lparr>wl_wg := update_link n f (wl_wg k)\<rparr>) = others n k"
proof -
  have "(\<forall>l \<in> set (update_link n f (wl_wg k)). ln_Name l = n \<longrightarrow> ln_Kind l = Wireguard) \<longleftrightarrow>
      (\<forall>l \<in> set (wl_wg k). ln_Name l = n \<longrightarrow> ln_Kind l = Wireguard)"
    unfolding update_link_all using assms by (intro ball_cong) simp_all
  then show "wl_ok n (k\<lparr>wl_wg := update_link n f (wl_wg k)\<rparr>) = wl_ok n k"
    by (simp add: wl_ok_def assms(1)) (simp add: update_link_def)
  show "others n (k\<lparr>wl_wg := update_link n f (wl_wg k)\<rparr>) = others n k"
    by (simp add: others_def assms(1))
qed

lemma wg_init_ok:
  assumes "wl_ok n k" "wg_init F i n k = (k', ok)"
  shows "wl_ok n k' \<and> others n k' = others n k"
proof -
  obtain k1 ok1 where netns: "initNetns F k = (k1, ok1)" by (cases "initNetns F k")
  note one = initNetns_ok [OF assms(1) netns]
  obtain k2 ok2 where wireguard: "initWireguard F i n k1 = (k2, ok2)" by (cases "initWireguard F i n k1")
  define k3 where "k3 = k2\<lparr>wl_wg := update_link n (\<lambda>l. l\<lparr>ln_MTU := 1280\<rparr>) (wl_wg k2)\<rparr>"
  define k4 where "k4 = k3\<lparr>wl_wg := update_link n (\<lambda>l. l\<lparr>ln_Up := True\<rparr>) (wl_wg k3)\<rparr>"
  have "k' = k \<or> k' = k1 \<or> ok1 \<and> (k' = k2 \<or> k' = k3 \<or> k' = k4)"
    using assms(2) netns wireguard
    by (cases ok1; cases ok2) (auto simp: wg_init_def Let_def k3_def k4_def split: if_splits prod.splits)
  moreover have "wl_ok n k2 \<and> others n k2 = others n k" if ok1
    using initWireguard_ok [OF _ _ wireguard] one that by simp
  moreover have "wl_ok n k3 = wl_ok n k2" "others n k3 = others n k2"
    unfolding k3_def by (rule wl_ok_update; simp)+
  moreover have "wl_ok n k4 = wl_ok n k3" "others n k4 = others n k3"
    unfolding k4_def by (rule wl_ok_update; simp)+
  ultimately show ?thesis
    using assms(1) one by (elim disjE conjE) simp_all
qed

definition interface_up :: "string \<Rightarrow> wg_links \<Rightarrow> bool" where
  "interface_up n k \<longleftrightarrow> wl_exists k \<and> \<not> has_link n (wl_main k) \<and>
     (\<exists>l. filter (\<lambda>l. ln_Name l = n) (wl_wg k) = [l] \<and> ln_Kind l = Wireguard \<and> ln_MTU l = 1280 \<and> ln_Up l)"

lemma distinct_named: "distinct (map ln_Name ls) \<Longrightarrow> l \<in> set ls \<Longrightarrow> filter (\<lambda>x. ln_Name x = ln_Name l) ls = [l]"
  by (induction ls) (auto simp: filter_empty_conv image_iff)

lemma filter_update_link:
  assumes "\<And>l. ln_Name (f l) = ln_Name l"
  shows "filter (\<lambda>l. ln_Name l = n) (update_link n f ls) = map f (filter (\<lambda>l. ln_Name l = n) ls)"
  using assms by (induction ls) (auto simp: update_link_def)

lemma wg_init_works:
  assumes "wl_ok n k"
  shows "\<exists>k'. wg_init no_failures i n k = (k', True) \<and> interface_up n k'"
proof -
  obtain k1 where netns: "initNetns no_failures k = (k1, True)"
    by (cases "wl_exists k") (simp_all add: initNetns_def)
  note one = initNetns_ok [OF assms netns]
  then obtain k2 where wireguard: "initWireguard no_failures i n k1 = (k2, True)" and main: "\<not> has_link n (wl_main k2)"
    using initWireguard_works by blast
  have two: "wl_ok n k2" "wl_exists k2" "has_link n (wl_wg k2)"
    using initWireguard_ok [OF _ _ wireguard] one by simp_all
  then obtain l where l: "l \<in> set (wl_wg k2)" "ln_Name l = n" by (auto simp: has_link_def)
  with two(1) have "ln_Kind l = Wireguard" "filter (\<lambda>l. ln_Name l = n) (wl_wg k2) = [l]"
    using distinct_named [of "wl_wg k2" l] by (auto simp: wl_ok_def)
  with netns wireguard main two(2) show ?thesis
    by (simp add: wg_init_def RunInNamespace_def interface_up_def filter_update_link Let_def)
qed

section \<open>Property\<close>



end
