(* ===== verification/PodNet.thy ===== *)
theory PodNet
  imports Links NetText
begin

text \<open>
  The CNI plugins \<open>hostvrf\<close> and \<open>route-pods\<close> of \<open>tetracni/cmd\<close>. Each works on the result of the
  plugin before it; the decoding of the JSON configuration is the library's. Links are those of
  \<open>Links\<close>, tables of iptables are maps from chains to rules with the operations that go-iptables
  documents, and the address library is a parameter. A call of netlink or iptables may fail.
\<close>

section \<open>Results of the previous plugin\<close>

record cni_iface =
  ci_Name :: string
  ci_Sandbox :: string

record cni_result =
  cr_Interfaces :: "cni_iface list"
  cr_IPs :: "ip_net list"

section \<open>hostvrf\<close>

text \<open>Interfaces of the host that have no master get the VRF as their master.\<close>

fun attach_loop :: "(string \<Rightarrow> bool) \<Rightarrow> (string \<Rightarrow> bool) \<Rightarrow> nat \<Rightarrow> cni_iface list \<Rightarrow> link list \<Rightarrow> link list \<times> bool" where
  "attach_loop F fails vrf [] ls = (ls, True)"
| "attach_loop F fails vrf (iface # is) ls =
     (if ci_Sandbox iface \<noteq> [] then attach_loop F fails vrf is ls
      else case LinkByName F (ci_Name iface) ls of
             Found link \<Rightarrow>
               if ln_MasterIndex link \<noteq> 0 then attach_loop F fails vrf is ls
               else if fails (ln_Name link) then (ls, False)
               else attach_loop F fails vrf is (update_link (ln_Name link) (\<lambda>l. l\<lparr>ln_MasterIndex := vrf\<rparr>) ls)
           | _ \<Rightarrow> (ls, False))"

definition hostvrf_cmdAdd :: "(string \<Rightarrow> bool) \<Rightarrow> (string \<Rightarrow> bool) \<Rightarrow> string \<Rightarrow> cni_result \<Rightarrow> link list \<Rightarrow> link list \<times> bool" where
  "hostvrf_cmdAdd F fails VRF result ls =
     (case LinkByName F VRF ls of
        Found link \<Rightarrow> (case ln_Kind link of
                          Vrf _ \<Rightarrow> attach_loop F fails (ln_Index link) (cr_Interfaces result) ls
                        | _ \<Rightarrow> (ls, False))
      | _ \<Rightarrow> (ls, False))"

fun hostvrf_check :: "(string \<Rightarrow> bool) \<Rightarrow> cni_iface list \<Rightarrow> link list \<Rightarrow> bool" where
  "hostvrf_check F [] ls = True"
| "hostvrf_check F (iface # is) ls =
     (if ci_Sandbox iface \<noteq> [] then hostvrf_check F is ls
      else case LinkByName F (ci_Name iface) ls of
             Found link \<Rightarrow> if ln_MasterIndex link = 0 then False else hostvrf_check F is ls
           | _ \<Rightarrow> False)"

definition hostvrf_cmdCheck :: "(string \<Rightarrow> bool) \<Rightarrow> cni_result \<Rightarrow> link list \<Rightarrow> bool" where
  "hostvrf_cmdCheck F result ls = hostvrf_check F (cr_Interfaces result) ls"

section \<open>route-pods: devices\<close>

record route_conf =
  rc_HostVeth :: string
  rc_PeerVeth :: string
  rc_Firewall :: string
  rc_IPTablesChain :: string

definition route_loadConfig :: "route_conf \<Rightarrow> route_conf option" where
  "route_loadConfig c =
     (let c = c\<lparr>rc_HostVeth := or_default (rc_HostVeth c) ''tetrapod-host'', rc_PeerVeth := or_default (rc_PeerVeth c) ''tetrapod-net''\<rparr>
      in if rc_Firewall c \<noteq> [] \<and> rc_Firewall c \<noteq> ''iptables'' then None
         else Some (c\<lparr>rc_Firewall := ''iptables'', rc_IPTablesChain := or_default (rc_IPTablesChain c) ''TETRAPOD''\<rparr>))"

text \<open>The links of the host and of the sandbox. The error of a lookup matters only as to whether a link was not found.\<close>

record pod_links =
  pl_host :: "link list"
  pl_peer :: "link list"

datatype veth_error = VethNotFound | VethError

type_synonym veths = "link option \<times> link option \<times> veth_error option"

record veth_failures =
  vf_host :: "string \<Rightarrow> bool"
  vf_peer :: "string \<Rightarrow> bool"
  vf_LinkSetNsFd :: bool
  vf_LinkAdd :: bool

definition findVeth :: "veth_failures \<Rightarrow> string \<Rightarrow> string \<Rightarrow> pod_links \<Rightarrow> veths" where
  "findVeth F hostVethName peerVethName k =
     (case LinkByName (vf_host F) hostVethName (pl_host k) of
        LinkNotFound \<Rightarrow> (None, None, Some VethNotFound)
      | LookupFailed \<Rightarrow> (None, None, Some VethError)
      | Found h \<Rightarrow>
          if ln_Kind h \<noteq> Veth then (None, None, Some VethError)
          else case LinkByName (vf_peer F) peerVethName (pl_peer k) of
                 LinkNotFound \<Rightarrow> (Some h, None, Some VethNotFound)
               | LookupFailed \<Rightarrow> (Some h, None, Some VethError)
               | Found p \<Rightarrow> if ln_Kind p \<noteq> Veth then (Some h, None, Some VethError) else (Some h, Some p, None))"

definition updateVeth :: "veth_failures \<Rightarrow> string \<Rightarrow> string \<Rightarrow> pod_links \<Rightarrow> pod_links \<times> veths" where
  "updateVeth F hostVethName peerVethName k =
     (case findVeth F hostVethName peerVethName k of
        (h, p, None) \<Rightarrow> (k, h, p, None)
      | (None, p, Some err) \<Rightarrow> (k, None, None, Some err)
      | (Some h, p, Some err) \<Rightarrow>
          (case LinkByName (vf_host F) peerVethName (pl_host k) of
             LinkNotFound \<Rightarrow> (k, Some h, None, Some VethNotFound)
           | LookupFailed \<Rightarrow> (k, Some h, None, Some VethError)
           | Found p \<Rightarrow>
               if ln_Kind p \<noteq> Veth then (k, None, None, Some VethError)
               else case LinkSetNsFd (vf_LinkSetNsFd F) peerVethName (pl_host k) (pl_peer k) of
                      (hs, ps, True) \<Rightarrow> (k\<lparr>pl_host := hs, pl_peer := ps\<rparr>, Some h, Some p, None)
                    | (hs, ps, False) \<Rightarrow> (k, None, None, Some VethError)))"

text \<open>A pair of devices is made in the host's namespace; the kernel refuses it if either name is taken.\<close>

definition new_veth :: "nat \<Rightarrow> string \<Rightarrow> link" where
  "new_veth i n = \<lparr>ln_Index = i, ln_Name = n, ln_Kind = Veth, ln_MasterIndex = 0, ln_MTU = 1500, ln_Up = False\<rparr>"

definition LinkAddVeth :: "bool \<Rightarrow> nat \<Rightarrow> string \<Rightarrow> string \<Rightarrow> link list \<Rightarrow> link list \<times> bool" where
  "LinkAddVeth fails i n peer ls =
     (if fails \<or> n = peer \<or> has_link n ls \<or> has_link peer ls then (ls, False)
      else (ls @ [new_veth i peer, new_veth (i + 1) n], True))"

definition setupVeth :: "veth_failures \<Rightarrow> nat \<Rightarrow> string \<Rightarrow> string \<Rightarrow> pod_links \<Rightarrow> pod_links \<times> veths" where
  "setupVeth F i hostVethName peerVethName k0 =
     (case updateVeth F hostVethName peerVethName k0 of
        (k, h, p, None) \<Rightarrow> (k, h, p, None)
      | (k, h, p, Some VethNotFound) \<Rightarrow>
          (case LinkAddVeth (vf_LinkAdd F) i hostVethName peerVethName (pl_host k) of
             (hs, True) \<Rightarrow> updateVeth F hostVethName peerVethName (k\<lparr>pl_host := hs\<rparr>)
           | (hs, False) \<Rightarrow> (k, None, None, Some VethError))
      | (k, h, p, Some VethError) \<Rightarrow> (k, None, None, Some VethError))"

text \<open>The first bridge of the sandbox among the interfaces.\<close>

fun find_bridge :: "(string \<Rightarrow> bool) \<Rightarrow> cni_iface list \<Rightarrow> link list \<Rightarrow> link option" where
  "find_bridge F [] ls = None"
| "find_bridge F (iface # is) ls =
     (if ci_Sandbox iface \<noteq> [] then find_bridge F is ls
      else case LinkByName F (ci_Name iface) ls of
             Found link \<Rightarrow> if ln_Kind link = Bridge then Some link else find_bridge F is ls
           | _ \<Rightarrow> None)"

section \<open>route-pods: firewall\<close>

text \<open>The chains of the filter table with their rules; a rule is the list of its words.\<close>

type_synonym rule = "string list"
type_synonym ipt = "(string \<times> rule list) list"

datatype ipt_call = ChainExists string | NewChain string | AppendUnique string rule

definition run_NewChain :: "(ipt_call \<Rightarrow> bool) \<Rightarrow> string \<Rightarrow> ipt \<Rightarrow> ipt \<times> bool" where
  "run_NewChain fails chain t =
     (if fails (NewChain chain) \<or> map_of t chain \<noteq> None then (t, False) else (AList.update chain [] t, True))"

definition run_AppendUnique :: "(ipt_call \<Rightarrow> bool) \<Rightarrow> string \<Rightarrow> rule \<Rightarrow> ipt \<Rightarrow> ipt \<times> bool" where
  "run_AppendUnique fails chain rule t =
     (if fails (AppendUnique chain rule) then (t, False)
      else case map_of t chain of
             None \<Rightarrow> (t, False)
           | Some rules \<Rightarrow> (if rule \<in> set rules then t else AList.update chain (rules @ [rule]) t, True))"

fun append_each :: "(ipt_call \<Rightarrow> bool) \<Rightarrow> (string \<times> rule) list \<Rightarrow> ipt \<Rightarrow> ipt \<times> bool" where
  "append_each fails [] t = (t, True)"
| "append_each fails ((chain, rule) # rs) t =
     (case run_AppendUnique fails chain rule t of
        (t', True) \<Rightarrow> append_each fails rs t'
      | (t', False) \<Rightarrow> (t', False))"

definition iptablesChains :: "string list" where
  "iptablesChains = [''INPUT'', ''OUTPUT'', ''FORWARD'']"

definition chain_rules :: "string \<Rightarrow> rule list" where
  "chain_rules veth =
     [[''-i'', veth, ''-j'', ''ACCEPT''],
      [''-o'', veth, ''-m'', ''state'', ''--state'', ''RELATED,ESTABLISHED'', ''-j'', ''ACCEPT''],
      [''-o'', veth, ''-j'', ''DROP'']]"

definition setUpIPTables :: "(ipt_call \<Rightarrow> bool) \<Rightarrow> string \<Rightarrow> string \<Rightarrow> ipt \<Rightarrow> ipt \<times> bool" where
  "setUpIPTables fails veth redirectedChain t =
     (if fails (ChainExists redirectedChain) then (t, False)
      else case (if map_of t redirectedChain \<noteq> None then (t, True) else run_NewChain fails redirectedChain t) of
             (t1, False) \<Rightarrow> (t1, False)
           | (t1, True) \<Rightarrow>
               (case append_each fails (map (\<lambda>chain. (chain, [''-j'', redirectedChain])) iptablesChains) t1 of
                  (t2, False) \<Rightarrow> (t2, False)
                | (t2, True) \<Rightarrow> append_each fails (map (\<lambda>rule. (redirectedChain, rule)) (chain_rules veth)) t2))"

text \<open>The tables of both protocols, set up in the namespace of the sandbox; the library may refuse each.\<close>

record firewall_failures =
  ff_ns :: ns_calls
  ff_NewWithProtocol4 :: bool
  ff_NewWithProtocol6 :: bool
  ff_calls4 :: "ipt_call \<Rightarrow> bool"
  ff_calls6 :: "ipt_call \<Rightarrow> bool"

definition firewall_fn :: "firewall_failures \<Rightarrow> string \<Rightarrow> string \<Rightarrow> ipt \<times> ipt \<Rightarrow> (ipt \<times> ipt) \<times> bool" where
  "firewall_fn F veth chain = (\<lambda>(t4, t6).
     if ff_NewWithProtocol4 F then ((t4, t6), False)
     else case setUpIPTables (ff_calls4 F) veth chain t4 of
            (t4', False) \<Rightarrow> ((t4', t6), False)
          | (t4', True) \<Rightarrow>
              if ff_NewWithProtocol6 F then ((t4', t6), False)
              else case setUpIPTables (ff_calls6 F) veth chain t6 of (t6', ok) \<Rightarrow> ((t4', t6'), ok))"

definition setUpFirewall :: "firewall_failures \<Rightarrow> 'n \<Rightarrow> string \<Rightarrow> route_conf \<Rightarrow> 'n thread \<Rightarrow> ipt \<times> ipt \<Rightarrow> (ipt \<times> ipt) \<times> bool" where
  "setUpFirewall F peerNetns veth conf th t =
     (if rc_Firewall conf = ''never'' then (t, True)
      else if rc_Firewall conf = ''iptables'' then
        (case RunInNamespace (ff_ns F) peerNetns (\<lambda>_. firewall_fn F veth (rc_IPTablesChain conf)) th t of
           (t', ok, _) \<Rightarrow> (t', ok))
      else (t, True))"

section \<open>route-pods: the command\<close>

text \<open>
  The address library: \<open>None\<close> stands for the nil that it returns with an error and where an
  increment leaves the address space; a method of nil panics.
\<close>

record 'b range_lib =
  rl_New :: "ip_net \<Rightarrow> 'b option"
  rl_GetLower :: "'b \<Rightarrow> 'b"
  rl_GetUpper :: "'b \<Rightarrow> 'b"
  rl_Increment :: "'b \<Rightarrow> int \<Rightarrow> 'b option"
  rl_GetNetIP :: "'b \<Rightarrow> ip_addr"
  rl_PrefixLen :: "'b \<Rightarrow> nat"

definition deref :: "'b option \<Rightarrow> ('b \<Rightarrow> 'c outcome) \<Rightarrow> 'c outcome" where
  "deref x f = (case x of None \<Rightarrow> Panics NilDereference | Some b \<Rightarrow> f b)"

definition host_addr :: "'b range_lib \<Rightarrow> ip_net \<Rightarrow> ip_net outcome" where
  "host_addr L ip =
     deref (rl_New L ip) (\<lambda>addr. deref (rl_Increment L (rl_GetUpper L addr) (- 1)) (\<lambda>cidr.
       Returns (IPNet (rl_GetNetIP L cidr) (rl_PrefixLen L cidr))))"

text \<open>The addresses of the host's device; \<open>AddrReplace\<close> adds one that is not there.\<close>

fun replace_addrs :: "'b range_lib \<Rightarrow> (ip_net \<Rightarrow> bool) \<Rightarrow> ip_net list \<Rightarrow> ip_net list \<Rightarrow> (ip_net list \<times> bool) outcome" where
  "replace_addrs L fails [] addrs = Returns (addrs, True)"
| "replace_addrs L fails (ip # ips) addrs =
     bind_outcome (host_addr L ip) (\<lambda>a.
       if fails a then Returns (addrs, False)
       else replace_addrs L fails ips (if a \<in> set addrs then addrs else addrs @ [a]))"

record pod_sys =
  po_links :: pod_links
  po_addrs :: "ip_net list"
  po_ipt :: "ipt \<times> ipt"

record route_failures =
  rf_GetFromName :: bool
  rf_NewHandleAt :: bool
  rf_veth :: veth_failures
  rf_LinkSetMaster :: bool
  rf_AddrReplace :: "ip_net \<Rightarrow> bool"
  rf_firewall :: firewall_failures
  rf_LinkSetUp_host :: bool
  rf_LinkSetUp_peer :: bool

definition set_up :: "string \<Rightarrow> link list \<Rightarrow> link list" where
  "set_up n = update_link n (\<lambda>l. l\<lparr>ln_Up := True\<rparr>)"

definition route_cmdAdd :: "'b range_lib \<Rightarrow> route_failures \<Rightarrow> nat \<Rightarrow> route_conf \<Rightarrow> cni_result \<Rightarrow> pod_sys
    \<Rightarrow> (pod_sys \<times> bool) outcome" where
  "route_cmdAdd L F i conf result s =
     (if rf_GetFromName F \<or> rf_NewHandleAt F then Returns (s, False)
      else case setupVeth (rf_veth F) i (rc_HostVeth conf) (rc_PeerVeth conf) (po_links s) of
        (k, Some h, Some p, None) \<Rightarrow>
          (let s1 = s\<lparr>po_links := k\<rparr>
           in case find_bridge (vf_peer (rf_veth F)) (cr_Interfaces result) (pl_peer k) of
                None \<Rightarrow> Returns (s1, False)
              | Some bridge \<Rightarrow>
                  if rf_LinkSetMaster F then Returns (s1, False)
                  else
                    let s2 = s1\<lparr>po_links := k\<lparr>pl_peer := update_link (ln_Name p) (\<lambda>l. l\<lparr>ln_MasterIndex := ln_Index bridge\<rparr>) (pl_peer k)\<rparr>\<rparr>
                    in bind_outcome (replace_addrs L (rf_AddrReplace F) (cr_IPs result) (po_addrs s2)) (\<lambda>(addrs, ok).
                         let s3 = s2\<lparr>po_addrs := addrs\<rparr>
                         in if \<not> ok then Returns (s3, False)
                            else case setUpFirewall (rf_firewall F) True (ln_Name p) conf \<lparr>th_ns = False, th_locked = False\<rparr> (po_ipt s3) of
                              (t, ok) \<Rightarrow>
                                let s4 = s3\<lparr>po_ipt := t\<rparr>
                                in if \<not> ok \<or> rf_LinkSetUp_host F then Returns (s4, False)
                                   else
                                     let s5 = s4\<lparr>po_links := (po_links s4)\<lparr>pl_host := set_up (ln_Name h) (pl_host (po_links s4))\<rparr>\<rparr>
                                     in if rf_LinkSetUp_peer F then Returns (s5, False)
                                        else Returns (s5\<lparr>po_links := (po_links s5)\<lparr>pl_peer := set_up (ln_Name p) (pl_peer (po_links s5))\<rparr>\<rparr>, True)))
      | (k, _) \<Rightarrow> Returns (s\<lparr>po_links := k\<rparr>, False))"

definition route_cmdCheck :: "route_failures \<Rightarrow> route_conf \<Rightarrow> pod_links \<Rightarrow> bool" where
  "route_cmdCheck F conf k =
     (if rf_GetFromName F \<or> rf_NewHandleAt F then False
      else case findVeth (rf_veth F) (rc_HostVeth conf) (rc_PeerVeth conf) k of (_, _, err) \<Rightarrow> err = None)"

text \<open>No call fails on its own.\<close>

definition no_firewall_failures :: firewall_failures where
  "no_firewall_failures = \<lparr>ff_ns = \<lparr>nc_get = True, nc_set = True, nc_recover = True\<rparr>, ff_NewWithProtocol4 = False,
     ff_NewWithProtocol6 = False, ff_calls4 = (\<lambda>_. False), ff_calls6 = (\<lambda>_. False)\<rparr>"

definition no_route_failures :: route_failures where
  "no_route_failures = \<lparr>rf_GetFromName = False, rf_NewHandleAt = False,
     rf_veth = \<lparr>vf_host = (\<lambda>_. False), vf_peer = (\<lambda>_. False), vf_LinkSetNsFd = False, vf_LinkAdd = False\<rparr>, rf_LinkSetMaster = False,
     rf_AddrReplace = (\<lambda>_. False), rf_firewall = no_firewall_failures, rf_LinkSetUp_host = False, rf_LinkSetUp_peer = False\<rparr>"

section \<open>What the rules do\<close>

text \<open>
  The rules that the plugin writes, read against a packet: its interfaces and whether the
  connection is tracked. The target of a rule that matches, and of the first such rule.
\<close>

record fw_packet =
  fp_in :: string
  fp_out :: string
  fp_tracked :: bool

fun rule_target :: "fw_packet \<Rightarrow> rule \<Rightarrow> string option" where
  "rule_target p (w # v # ws) =
     (if w = ''-j'' \<and> ws = [] then Some v
      else if w = ''-i'' then if fp_in p = v then rule_target p ws else None
      else if w = ''-o'' then if fp_out p = v then rule_target p ws else None
      else if w = ''-m'' \<and> v = ''state'' then rule_target p ws
      else if w = ''--state'' \<and> v = ''RELATED,ESTABLISHED'' then if fp_tracked p then rule_target p ws else None
      else None)"
| "rule_target p _ = None"

fun first_target :: "fw_packet \<Rightarrow> rule list \<Rightarrow> string option" where
  "first_target p [] = None"
| "first_target p (r # rs) = (case rule_target p r of None \<Rightarrow> first_target p rs | Some t \<Rightarrow> Some t)"

definition sandbox_policy :: "string \<Rightarrow> fw_packet \<Rightarrow> string option" where
  "sandbox_policy veth p =
     (if fp_in p = veth then Some ''ACCEPT''
      else if fp_out p = veth then if fp_tracked p then Some ''ACCEPT'' else Some ''DROP''
      else None)"

lemma chain_rules_policy: "first_target p (chain_rules veth) = sandbox_policy veth p"
  by (simp add: chain_rules_def sandbox_policy_def)

text \<open>A table after the set-up: the chain, a jump to it in each built-in chain, and nothing else.\<close>

definition add_rule :: "rule \<Rightarrow> rule list \<Rightarrow> rule list" where
  "add_rule r rs = (if r \<in> set rs then rs else rs @ [r])"

lemma run_AppendUnique_ok:
  assumes "run_AppendUnique fails chain r t = (t', True)"
  shows "\<exists>rs. map_of t chain = Some rs \<and> map_of t' = (map_of t)(chain \<mapsto> add_rule r rs)"
  using assms by (auto simp: run_AppendUnique_def add_rule_def update_conv' map_upd_triv split: if_splits option.splits)

lemma append_each_map:
  assumes "append_each fails (map (\<lambda>r. (chain, r)) rs) t = (t', True)"
  shows "rs = [] \<and> t' = t \<or> (\<exists>old. map_of t chain = Some old \<and> map_of t' = (map_of t)(chain \<mapsto> fold add_rule rs old))"
  using assms
proof (induction rs arbitrary: t)
  case (Cons r rs)
  from Cons.prems obtain t1 where t1: "run_AppendUnique fails chain r t = (t1, True)"
    and rest: "append_each fails (map (\<lambda>r. (chain, r)) rs) t1 = (t', True)"
    by (auto split: prod.splits bool.splits)
  from run_AppendUnique_ok [OF t1] obtain old where old: "map_of t chain = Some old"
    "map_of t1 = (map_of t)(chain \<mapsto> add_rule r old)" by blast
  from Cons.IH [OF rest] old show ?case by auto
qed simp

lemma append_each_jumps:
  assumes "append_each fails (map (\<lambda>c. (c, r)) cs) t = (t', True)" "distinct cs"
  shows "\<forall>c \<in> set cs. \<exists>rs. map_of t c = Some rs" "map_of t' c = (if c \<in> set cs then map_option (add_rule r) (map_of t c) else map_of t c)"
proof -
  have "(\<forall>c \<in> set cs. \<exists>rs. map_of t c = Some rs) \<and>
      (\<forall>c. map_of t' c = (if c \<in> set cs then map_option (add_rule r) (map_of t c) else map_of t c))"
    using assms
  proof (induction cs arbitrary: t)
    case (Cons a cs)
    from Cons.prems obtain t1 where t1: "run_AppendUnique fails a r t = (t1, True)"
      and rest: "append_each fails (map (\<lambda>c. (c, r)) cs) t1 = (t', True)"
      by (auto split: prod.splits bool.splits)
    from run_AppendUnique_ok [OF t1] obtain old where old: "map_of t a = Some old"
      "map_of t1 = (map_of t)(a \<mapsto> add_rule r old)" by blast
    from Cons.IH [OF rest] Cons.prems(2) old show ?case
      by (auto simp: fun_upd_apply split: if_splits)
  qed simp
  then show "\<forall>c \<in> set cs. \<exists>rs. map_of t c = Some rs" "map_of t' c = (if c \<in> set cs then map_option (add_rule r) (map_of t c) else map_of t c)"
    by blast+
qed

definition jump :: "string \<Rightarrow> rule" where
  "jump chain = [''-j'', chain]"

definition rules_of :: "ipt \<Rightarrow> string \<Rightarrow> rule list" where
  "rules_of t chain = (case map_of t chain of None \<Rightarrow> [] | Some rs \<Rightarrow> rs)"

lemma setUpIPTables_ok:
  assumes "setUpIPTables fails veth chain t = (t', True)" "chain \<notin> set iptablesChains"
  shows "map_of t' chain = Some (fold add_rule (chain_rules veth) (rules_of t chain))"
    "c \<in> set iptablesChains \<Longrightarrow> \<exists>rs. map_of t c = Some rs \<and> map_of t' c = Some (add_rule (jump chain) rs)"
    "c \<notin> set iptablesChains \<Longrightarrow> c \<noteq> chain \<Longrightarrow> map_of t' c = map_of t c"
proof -
  obtain t1 t2 where t1: "(if map_of t chain \<noteq> None then (t, True) else run_NewChain fails chain t) = (t1, True)"
    and t2: "append_each fails (map (\<lambda>c. (c, jump chain)) iptablesChains) t1 = (t2, True)"
    and t3: "append_each fails (map (\<lambda>r. (chain, r)) (chain_rules veth)) t2 = (t', True)"
    using assms(1) unfolding setUpIPTables_def jump_def by (auto split: if_splits prod.splits bool.splits)
  have one: "map_of t1 = (map_of t)(chain \<mapsto> rules_of t chain)"
    using t1 by (auto simp: run_NewChain_def rules_of_def update_conv' map_upd_triv split: if_splits)
  have "distinct iptablesChains" by (simp add: iptablesChains_def)
  note two = append_each_jumps [OF t2 this]
  have "chain_rules veth \<noteq> []" by (simp add: chain_rules_def)
  with append_each_map [OF t3] obtain old where old: "map_of t2 chain = Some old"
    "map_of t' = (map_of t2)(chain \<mapsto> fold add_rule (chain_rules veth) old)" by blast
  from two(2) [of chain] old(1) one assms(2) have "old = rules_of t chain" by simp
  with old show "map_of t' chain = Some (fold add_rule (chain_rules veth) (rules_of t chain))" by simp
  show "c \<notin> set iptablesChains \<Longrightarrow> c \<noteq> chain \<Longrightarrow> map_of t' c = map_of t c"
    using old(2) two(2) [of c] one by simp
  show "\<exists>rs. map_of t c = Some rs \<and> map_of t' c = Some (add_rule (jump chain) rs)" if "c \<in> set iptablesChains"
  proof -
    from that two(1) obtain rs where "map_of t1 c = Some rs" by blast
    moreover from that assms(2) have "c \<noteq> chain" by blast
    ultimately show ?thesis using old(2) two(2) [of c] one that by simp
  qed
qed

lemma run_AppendUnique_present:
  "r \<in> set (rules_of t chain) \<Longrightarrow> run_AppendUnique (\<lambda>_. False) chain r t = (t, True)"
  by (cases "map_of t chain") (simp_all add: run_AppendUnique_def rules_of_def)

lemma append_each_present:
  "\<forall>(chain, r) \<in> set xs. r \<in> set (rules_of t chain) \<Longrightarrow> append_each (\<lambda>_. False) xs t = (t, True)"
  by (induction xs) (auto simp: run_AppendUnique_present)

lemma set_fold_add_rule: "set (fold add_rule rs old) = set rs \<union> set old"
  by (induction rs arbitrary: old) (auto simp: add_rule_def)

lemma setUpIPTables_again:
  assumes "setUpIPTables fails veth chain t = (t', True)" "chain \<notin> set iptablesChains"
  shows "setUpIPTables (\<lambda>_. False) veth chain t' = (t', True)"
proof -
  note ok = setUpIPTables_ok [OF assms]
  have "jump chain \<in> set (rules_of t' c)" if "c \<in> set iptablesChains" for c
    using ok(2) [OF that] by (auto simp: rules_of_def add_rule_def)
  then have "append_each (\<lambda>_. False) (map (\<lambda>c. (c, jump chain)) iptablesChains) t' = (t', True)"
    by (intro append_each_present) auto
  moreover have "r \<in> set (rules_of t' chain)" if "r \<in> set (chain_rules veth)" for r
    using that ok(1) by (simp add: rules_of_def set_fold_add_rule)
  then have "append_each (\<lambda>_. False) (map (\<lambda>r. (chain, r)) (chain_rules veth)) t' = (t', True)"
    by (intro append_each_present) auto
  ultimately show ?thesis
    using ok(1) by (simp add: setUpIPTables_def jump_def)
qed

lemma fresh_chain: "fold add_rule (chain_rules veth) [] = chain_rules veth"
  by (simp add: chain_rules_def add_rule_def)

definition guarded :: "string \<Rightarrow> string \<Rightarrow> ipt \<Rightarrow> ipt \<Rightarrow> bool" where
  "guarded veth chain t t' \<longleftrightarrow>
     (\<forall>p. first_target p (rules_of t' chain) = sandbox_policy veth p) \<and>
     (\<forall>c \<in> set iptablesChains. \<exists>rs. map_of t c = Some rs \<and> map_of t' c = Some (add_rule (jump chain) rs)) \<and>
     (\<forall>c. c \<notin> set iptablesChains \<longrightarrow> c \<noteq> chain \<longrightarrow> map_of t' c = map_of t c) \<and>
     setUpIPTables (\<lambda>_. False) veth chain t' = (t', True)"

lemma setUpIPTables_guarded:
  assumes "setUpIPTables fails veth chain t = (t', True)" "chain \<notin> set iptablesChains" "map_of t chain = None"
  shows "guarded veth chain t t'"
proof -
  note ok = setUpIPTables_ok [OF assms(1,2)]
  have "rules_of t' chain = chain_rules veth"
    using ok(1) assms(3) by (simp add: rules_of_def fresh_chain)
  then show ?thesis
    unfolding guarded_def using ok(2,3) setUpIPTables_again [OF assms(1,2)] by (simp add: chain_rules_policy)
qed

section \<open>What the devices are\<close>

definition link_at :: "string \<Rightarrow> link list \<Rightarrow> link option" where
  "link_at n ls = List.find (\<lambda>l. ln_Name l = n) ls"

lemma link_at_simps [simp]:
  "link_at n [] = None" "link_at n (l # ls) = (if ln_Name l = n then Some l else link_at n ls)"
  by (simp_all add: link_at_def)

lemma LinkByName_Found: "LinkByName F n ls = Found l \<Longrightarrow> link_at n ls = Some l \<and> ln_Name l = n"
  by (auto simp: LinkByName_def link_at_def find_Some_iff split: if_splits option.splits)

lemma LinkByName_link_at: "LinkByName (\<lambda>_. False) n ls = (case link_at n ls of None \<Rightarrow> LinkNotFound | Some l \<Rightarrow> Found l)"
  by (simp add: LinkByName_def link_at_def)

lemma link_at_append: "link_at n (xs @ ys) = (case link_at n xs of None \<Rightarrow> link_at n ys | Some l \<Rightarrow> Some l)"
  by (induction xs) (simp_all add: link_at_def)

lemma link_at_None: "link_at n ls = None \<longleftrightarrow> \<not> has_link n ls"
  by (auto simp: link_at_def has_link_def find_None_iff)

lemma link_at_filter: "link_at n (filter (\<lambda>l. ln_Name l \<noteq> m) ls) = (if n = m then None else link_at n ls)"
  by (induction ls) (auto simp: link_at_def)

lemma link_at_moved:
  "link_at n (map (\<lambda>l. l\<lparr>ln_Up := False, ln_MasterIndex := 0\<rparr>) (filter (\<lambda>l. ln_Name l = m) ls)) =
     (if n = m then map_option (\<lambda>l. l\<lparr>ln_Up := False, ln_MasterIndex := 0\<rparr>) (link_at n ls) else None)"
  by (induction ls) (auto simp: link_at_def)

lemma link_at_update:
  assumes "\<And>l. ln_Name (f l) = ln_Name l"
  shows "link_at n (update_link m f ls) = (if n = m then map_option f (link_at n ls) else link_at n ls)"
  using assms by (induction ls) (auto simp: link_at_def update_link_def)

definition veth_at :: "string \<Rightarrow> link list \<Rightarrow> bool" where
  "veth_at n ls \<longleftrightarrow> (\<exists>l. link_at n ls = Some l \<and> ln_Kind l = Veth)"

text \<open>A pair of devices was found or made; links of other names are where they were.\<close>

definition pair_ready :: "string \<Rightarrow> string \<Rightarrow> pod_links \<Rightarrow> pod_links \<Rightarrow> bool" where
  "pair_ready H P k0 k \<longleftrightarrow> veth_at H (pl_host k) \<and> veth_at P (pl_peer k) \<and>
     (\<forall>n. n \<noteq> H \<and> n \<noteq> P \<longrightarrow> link_at n (pl_host k) = link_at n (pl_host k0)) \<and>
     (\<forall>n. n \<noteq> P \<longrightarrow> link_at n (pl_peer k) = link_at n (pl_peer k0))"

lemma findVeth_ok:
  "findVeth F H P k = (h, p, None) \<Longrightarrow>
     (\<exists>l m. h = Some l \<and> p = Some m \<and> ln_Name l = H \<and> ln_Name m = P) \<and> veth_at H (pl_host k) \<and> veth_at P (pl_peer k)"
  "findVeth F H P k = (Some l, p, Some err) \<Longrightarrow> ln_Name l = H \<and> veth_at H (pl_host k)"
  by (auto simp: findVeth_def veth_at_def dest!: LinkByName_Found split: found.splits if_splits)

lemma updateVeth_ok:
  assumes "updateVeth F H P k = (k', h, p, None)" "H \<noteq> P"
  shows "(\<exists>l m. h = Some l \<and> p = Some m \<and> ln_Name l = H \<and> ln_Name m = P) \<and> pair_ready H P k k'"
proof (cases "findVeth F H P k")
  case (fields h0 p0 e0)
  show ?thesis
  proof (cases e0)
    case None
    with assms(1) fields have "k' = k" "h0 = h" "p0 = p" by (cases h0; simp add: updateVeth_def)+
    with findVeth_ok(1) [of F H P k h p] fields None show ?thesis by (simp add: pair_ready_def)
  next
    case (Some err)
    with assms(1) fields obtain l where l: "h0 = Some l"
      by (cases h0) (auto simp: updateVeth_def)
    from findVeth_ok(2) [of F H P k l p0 err] fields Some l have host: "ln_Name l = H" "veth_at H (pl_host k)" by simp_all
    from assms(1) fields Some l obtain m hs ps where m: "LinkByName (vf_host F) P (pl_host k) = Found m" "ln_Kind m = Veth"
      and moved: "LinkSetNsFd (vf_LinkSetNsFd F) P (pl_host k) (pl_peer k) = (hs, ps, True)"
      and k': "k' = k\<lparr>pl_host := hs, pl_peer := ps\<rparr>" "h = Some l" "p = Some m"
      by (auto simp: updateVeth_def split: found.splits if_splits prod.splits bool.splits)
    note m_at = LinkByName_Found [OF m(1)]
    from moved have new: "hs = filter (\<lambda>l. ln_Name l \<noteq> P) (pl_host k)" "\<not> has_link P (pl_peer k)"
      "ps = pl_peer k @ map (\<lambda>l. l\<lparr>ln_Up := False, ln_MasterIndex := 0\<rparr>) (filter (\<lambda>l. ln_Name l = P) (pl_host k))"
      by (auto simp: LinkSetNsFd_def split: if_splits)
    have peer: "link_at P (pl_peer k) = None" using new(2) by (simp add: link_at_None)
    have "veth_at H hs" using host(2) assms(2) by (simp add: veth_at_def new(1) link_at_filter)
    moreover have "veth_at P ps"
      using m(2) m_at peer by (simp add: veth_at_def new(3) link_at_append link_at_moved)
    moreover have "link_at n ps = link_at n (pl_peer k)" if "n \<noteq> P" for n
      using that by (simp add: new(3) link_at_append link_at_moved split: option.split)
    moreover have "link_at n hs = link_at n (pl_host k)" if "n \<noteq> P" for n
      using that by (simp add: new(1) link_at_filter)
    ultimately show ?thesis
      using host(1) m_at by (simp add: pair_ready_def k')
  qed
qed

lemma updateVeth_err:
  "updateVeth F H P k = (k', h, p, Some err) \<Longrightarrow> k' = k"
  by (auto simp: updateVeth_def split: prod.splits option.splits found.splits if_splits bool.splits)

lemma setupVeth_ok:
  assumes "setupVeth F i H P k = (k', h, p, None)" "H \<noteq> P"
  shows "(\<exists>l m. h = Some l \<and> p = Some m \<and> ln_Name l = H \<and> ln_Name m = P) \<and> pair_ready H P k k'"
proof (cases "updateVeth F H P k")
  case (fields k1 h1 p1 e1)
  show ?thesis
  proof (cases e1)
    case None
    with assms(1) fields updateVeth_ok [of F H P k k1 h1 p1] assms(2) show ?thesis by (simp add: setupVeth_def)
  next
    case (Some err)
    with fields have k1: "k1 = k" by (simp add: updateVeth_err)
    with assms(1) fields Some obtain hs where add: "LinkAddVeth (vf_LinkAdd F) i H P (pl_host k) = (hs, True)"
      and again: "updateVeth F H P (k\<lparr>pl_host := hs\<rparr>) = (k', h, p, None)"
      by (cases err) (auto simp: setupVeth_def split: prod.splits bool.splits)
    from add have "hs = pl_host k @ [new_veth i P, new_veth (i + 1) H]"
      by (auto simp: LinkAddVeth_def split: if_splits)
    then have "link_at n hs = link_at n (pl_host k)" if "n \<noteq> H" "n \<noteq> P" for n
      using that by (simp add: link_at_append new_veth_def split: option.split)
    with updateVeth_ok [OF again assms(2)] show ?thesis by (simp add: pair_ready_def)
  qed
qed

lemma find_bridge_Some: "find_bridge F is ls = Some b \<Longrightarrow> link_at (ln_Name b) ls = Some b \<and> ln_Kind b = Bridge"
  by (induction "is") (auto split: if_splits found.splits dest: LinkByName_Found)

text \<open>
  The end of the command: the host's device is up, the sandbox's device is up and belongs to a bridge
  of the sandbox; links of other names are where they were.
\<close>

definition connected :: "string \<Rightarrow> string \<Rightarrow> pod_links \<Rightarrow> pod_links \<Rightarrow> bool" where
  "connected H P k0 k \<longleftrightarrow>
     (\<exists>h. link_at H (pl_host k) = Some h \<and> ln_Kind h = Veth \<and> ln_Up h) \<and>
     (\<exists>p b. link_at P (pl_peer k) = Some p \<and> ln_Kind p = Veth \<and> ln_Up p \<and> ln_MasterIndex p = ln_Index b \<and>
        link_at (ln_Name b) (pl_peer k) = Some b \<and> ln_Kind b = Bridge) \<and>
     (\<forall>n. n \<noteq> H \<and> n \<noteq> P \<longrightarrow> link_at n (pl_host k) = link_at n (pl_host k0)) \<and>
     (\<forall>n. n \<noteq> P \<longrightarrow> link_at n (pl_peer k) = link_at n (pl_peer k0))"

lemma connected_finish:
  assumes "pair_ready H P k0 k" "link_at (ln_Name b) (pl_peer k) = Some b" "ln_Kind b = Bridge"
  shows "connected H P k0 (k\<lparr>pl_peer := set_up P (update_link P (\<lambda>l. l\<lparr>ln_MasterIndex := ln_Index b\<rparr>) (pl_peer k)),
    pl_host := set_up H (pl_host k)\<rparr>)"
proof -
  obtain h p where h: "link_at H (pl_host k) = Some h" "ln_Kind h = Veth"
    and p: "link_at P (pl_peer k) = Some p" "ln_Kind p = Veth"
    using assms(1) by (auto simp: pair_ready_def veth_at_def)
  from p assms(2,3) have "ln_Name b \<noteq> P" by auto
  then show ?thesis
    using assms h p by (auto simp: connected_def pair_ready_def set_up_def link_at_update)
qed

lemma route_cmdAdd_ok:
  assumes "route_cmdAdd L F i conf result s = Returns (s', True)" "rc_HostVeth conf \<noteq> rc_PeerVeth conf"
  shows "connected (rc_HostVeth conf) (rc_PeerVeth conf) (po_links s) (po_links s') \<and>
    setUpFirewall (rf_firewall F) True (rc_PeerVeth conf) conf \<lparr>th_ns = False, th_locked = False\<rparr> (po_ipt s) = (po_ipt s', True)"
proof -
  let ?H = "rc_HostVeth conf" and ?P = "rc_PeerVeth conf"
  obtain k h0 p0 e where veths: "setupVeth (rf_veth F) i ?H ?P (po_links s) = (k, h0, p0, e)"
    by (cases "setupVeth (rf_veth F) i ?H ?P (po_links s)")
  from assms(1) veths obtain h p where hp: "h0 = Some h" "p0 = Some p" "e = None"
    by (cases h0; cases p0; cases e) (auto simp: route_cmdAdd_def split: if_splits)
  from setupVeth_ok [OF veths [unfolded hp(3)] assms(2)] hp
  have names: "ln_Name h = ?H" "ln_Name p = ?P" and ready: "pair_ready ?H ?P (po_links s) k" by simp_all
  from assms(1) veths hp obtain b where b: "find_bridge (vf_peer (rf_veth F)) (cr_Interfaces result) (pl_peer k) = Some b"
    by (cases "find_bridge (vf_peer (rf_veth F)) (cr_Interfaces result) (pl_peer k)")
      (auto simp: route_cmdAdd_def Let_def split: if_splits)
  note run = assms(1) [unfolded route_cmdAdd_def veths hp prod.case option.case b Let_def]
  from run obtain addrs where addrs: "replace_addrs L (rf_AddrReplace F) (cr_IPs result) (po_addrs s) = Returns (addrs, True)"
    by (auto simp: bind_outcome_eq_Returns split: if_splits)
  from run addrs obtain t where fw: "setUpFirewall (rf_firewall F) True ?P conf \<lparr>th_ns = False, th_locked = False\<rparr> (po_ipt s) = (t, True)"
    by (auto simp: names split: if_splits prod.splits)
  from run addrs fw have "s' = s\<lparr>po_links := k\<lparr>pl_peer := set_up ?P (update_link ?P (\<lambda>l. l\<lparr>ln_MasterIndex := ln_Index b\<rparr>) (pl_peer k)),
      pl_host := set_up ?H (pl_host k)\<rparr>, po_addrs := addrs, po_ipt := t\<rparr>"
    by (auto simp: names split: if_splits)
  with fw connected_finish [OF ready] find_bridge_Some [OF b] show ?thesis by simp
qed

lemma connected_check:
  assumes "connected (rc_HostVeth conf) (rc_PeerVeth conf) k0 k"
  shows "route_cmdCheck no_route_failures conf k"
  using assms by (auto simp: route_cmdCheck_def no_route_failures_def findVeth_def LinkByName_link_at connected_def split: if_splits)

section \<open>Properties\<close>


definition empty_table :: ipt where
  "empty_table = [(''INPUT'', []), (''OUTPUT'', []), (''FORWARD'', [[''-j'', ''LOG'']])]"

definition default_conf :: route_conf where
  "default_conf = \<lparr>rc_HostVeth = ''tetrapod-host'', rc_PeerVeth = ''tetrapod-net'', rc_Firewall = ''iptables'', rc_IPTablesChain = ''TETRAPOD''\<rparr>"


text \<open>
  A pod's network gets connected: where \<open>route-pods\<close> succeeds, whatever it found before, the
  host has the host's end of a pair of devices, up; the sandbox has the other end, up and a
  member of one of its bridges; the command's own check succeeds; and links of other names are
  in both namespaces what they were.
\<close>
lemma pod_network_is_connected:
  assumes "route_cmdAdd L F i conf result s = Returns (s', True)" "rc_HostVeth conf \<noteq> rc_PeerVeth conf"
  shows "connected (rc_HostVeth conf) (rc_PeerVeth conf) (po_links s) (po_links s') \<and>
    route_cmdCheck no_route_failures conf (po_links s')"
  using route_cmdAdd_ok [OF assms] connected_check by blast

text \<open>An address library for IPv4: the addresses of a network with its prefix length.\<close>

definition ip4_of :: "ip_net \<Rightarrow> nat" where
  "ip4_of n = (case net_IP n of IP4 w \<Rightarrow> unat w | _ \<Rightarrow> 0)"

definition ip4_ranges :: "ip_net range_lib" where
  "ip4_ranges =
     \<lparr>rl_New = (\<lambda>n. if is_4 (net_IP n) \<and> net_ones n \<le> 32 then Some n else None),
      rl_GetLower = (\<lambda>n. IPNet (IP4 (of_nat (ip4_of n div 2 ^ (32 - net_ones n) * 2 ^ (32 - net_ones n)))) (net_ones n)),
      rl_GetUpper = (\<lambda>n. IPNet (IP4 (of_nat (ip4_of n div 2 ^ (32 - net_ones n) * 2 ^ (32 - net_ones n) + 2 ^ (32 - net_ones n) - 1))) (net_ones n)),
      rl_Increment = (\<lambda>n d. let v = int (ip4_of n) + d in if is_4 (net_IP n) \<and> 0 \<le> v \<and> v < 2 ^ 32 then Some (IPNet (IP4 (of_int v)) (net_ones n)) else None),
      rl_GetNetIP = net_IP, rl_PrefixLen = net_ones\<rparr>"

definition example_links :: pod_links where
  "example_links = \<lparr>pl_host = [], pl_peer = [\<lparr>ln_Index = 3, ln_Name = ''br0'', ln_Kind = Bridge, ln_MasterIndex = 0, ln_MTU = 1500, ln_Up = True\<rparr>]\<rparr>"

end
