(* ===== verification/Labels.thy ===== *)
theory Labels
  imports Containers NetText
begin

text \<open>
  \<open>tetrad/pkg/labels\<close>: the labels that mark the claims of a node, the selectors made of them, the
  pod behind an extra claim and the annotation that names templates. A Go map of labels is an
  association list with distinct keys; strings are ASCII.
\<close>

section \<open>Labels of claims\<close>

type_synonym labels = "(string \<times> string) list"

definition TemplateNameLabelKey :: string where "TemplateNameLabelKey = ''client.miscord.win/template-name''"
definition podNamespaceKey :: string where "podNamespaceKey = ''client.miscord.win/namespace''"
definition podNameKey :: string where "podNameKey = ''client.miscord.win/name''"
definition clusterKey :: string where "clusterKey = ''client.miscord.win/cluster''"
definition nodeKey :: string where "nodeKey = ''client.miscord.win/node''"
definition typeKey :: string where "typeKey = ''client.miscord.win/type''"

definition ForNode :: "string \<Rightarrow> string \<Rightarrow> labels" where
  "ForNode clusterName nodeName = [(clusterKey, clusterName), (nodeKey, nodeName)]"

definition NodeTypeForNode :: "string \<Rightarrow> string \<Rightarrow> string \<Rightarrow> labels" where
  "NodeTypeForNode clusterName nodeName templateName =
     (let labels = AList.update typeKey ''node'' (ForNode clusterName nodeName)
      in if templateName \<noteq> [] then AList.update TemplateNameLabelKey templateName labels else labels)"

definition PodCIDRTypeForNode :: "string \<Rightarrow> string \<Rightarrow> string \<Rightarrow> labels" where
  "PodCIDRTypeForNode clusterName nodeName templateName =
     (let labels = AList.update typeKey ''pod-cidr'' (ForNode clusterName nodeName)
      in if templateName \<noteq> [] then AList.update TemplateNameLabelKey templateName labels else labels)"

definition ExtraPodCIDRTypeForNodeAll :: "string \<Rightarrow> string \<Rightarrow> string \<Rightarrow> labels" where
  "ExtraPodCIDRTypeForNodeAll clusterName nodeName templateName =
     (let labels = AList.update typeKey ''extra-pod-cidr'' (ForNode clusterName nodeName)
      in if templateName \<noteq> [] then AList.update TemplateNameLabelKey templateName labels else labels)"

definition ExtraPodCIDRTypeForNode :: "string \<Rightarrow> string \<Rightarrow> string \<Rightarrow> string \<Rightarrow> string \<Rightarrow> labels" where
  "ExtraPodCIDRTypeForNode clusterName nodeName namespace name templateName =
     AList.update podNameKey name (AList.update podNamespaceKey namespace
       (ExtraPodCIDRTypeForNodeAll clusterName nodeName templateName))"

text \<open>The value of a missing key is the empty string.\<close>

definition label :: "string \<Rightarrow> labels \<Rightarrow> string" where
  "label k l = (case map_of l k of None \<Rightarrow> [] | Some v \<Rightarrow> v)"

definition NamespacedNameFromExtraPodCIDR :: "labels \<Rightarrow> string \<times> string" where
  "NamespacedNameFromExtraPodCIDR l = (label podNamespaceKey l, label podNameKey l)"

section \<open>The annotation of templates\<close>

definition is_space :: "char \<Rightarrow> bool" where
  "is_space c \<longleftrightarrow> c = CHR 0x20 \<or> (9 \<le> (of_char c :: nat) \<and> (of_char c :: nat) \<le> 13)"

definition TrimSpace :: "string \<Rightarrow> string" where
  "TrimSpace s = rev (dropWhile is_space (rev (dropWhile is_space s)))"

definition ExtraPODCIDRTemplateNames :: "string \<Rightarrow> string list" where
  "ExtraPODCIDRTemplateNames annotationValue =
     (if annotationValue = [] then []
      else Uniq (map TrimSpace (split_on (CHR '','') annotationValue)))"

section \<open>Selectors\<close>

text \<open>
  \<open>SelectorFromSet\<close> and a selector with \<open>MatchLabels\<close> only, of k8s.io/apimachinery: an object is
  selected if it has every label of the set. The loops of the watch handlers test the same
  with the empty string for a missing label.
\<close>

definition selects :: "labels \<Rightarrow> labels \<Rightarrow> bool" where
  "selects l obj \<longleftrightarrow> list_all (\<lambda>(k, v). map_of obj k = Some v) l"

definition has_labels :: "labels \<Rightarrow> labels \<Rightarrow> bool" where
  "has_labels l obj \<longleftrightarrow> list_all (\<lambda>(k, v). label k obj = v) l"

lemmas label_keys = TemplateNameLabelKey_def podNamespaceKey_def podNameKey_def clusterKey_def nodeKey_def typeKey_def

lemma keys_distinct [simp]:
  "distinct [TemplateNameLabelKey, podNamespaceKey, podNameKey, clusterKey, nodeKey, typeKey]"
  by (simp add: label_keys)

lemma key_neqs [simp]:
  "TemplateNameLabelKey \<noteq> podNamespaceKey" "TemplateNameLabelKey \<noteq> podNameKey" "TemplateNameLabelKey \<noteq> clusterKey"
  "TemplateNameLabelKey \<noteq> nodeKey" "TemplateNameLabelKey \<noteq> typeKey" "podNamespaceKey \<noteq> podNameKey"
  "podNamespaceKey \<noteq> clusterKey" "podNamespaceKey \<noteq> nodeKey" "podNamespaceKey \<noteq> typeKey" "podNameKey \<noteq> clusterKey"
  "podNameKey \<noteq> nodeKey" "podNameKey \<noteq> typeKey" "clusterKey \<noteq> nodeKey" "clusterKey \<noteq> typeKey" "nodeKey \<noteq> typeKey"
  by (simp_all add: label_keys)

lemmas key_neqs_sym [simp] = key_neqs [symmetric]

lemmas label_sets = ForNode_def NodeTypeForNode_def PodCIDRTypeForNode_def ExtraPodCIDRTypeForNodeAll_def
  ExtraPodCIDRTypeForNode_def

lemma selects_self: "distinct (map fst l) \<Longrightarrow> selects l l"
  by (auto simp: selects_def list_all_iff)

lemma distinct_label_sets:
  "distinct (map fst (ForNode c n))" "distinct (map fst (NodeTypeForNode c n t))"
  "distinct (map fst (PodCIDRTypeForNode c n t))" "distinct (map fst (ExtraPodCIDRTypeForNodeAll c n t))"
  "distinct (map fst (ExtraPodCIDRTypeForNode c n ns name t))"
  by (simp_all add: label_sets Let_def)

text \<open>Labels of one kind of claim and the selectors for a node and kind.\<close>

lemma selects_ForNode:
  "selects (ForNode c n) (NodeTypeForNode c' n' t) \<longleftrightarrow> c = c' \<and> n = n'"
  "selects (ForNode c n) (PodCIDRTypeForNode c' n' t) \<longleftrightarrow> c = c' \<and> n = n'"
  "selects (ForNode c n) (ExtraPodCIDRTypeForNode c' n' ns name t) \<longleftrightarrow> c = c' \<and> n = n'"
  by (auto simp: selects_def label_sets Let_def)

lemma selects_NodeType:
  "selects (NodeTypeForNode c n []) (NodeTypeForNode c' n' t) \<longleftrightarrow> c = c' \<and> n = n'"
  "\<not> selects (NodeTypeForNode c n t) (PodCIDRTypeForNode c' n' t')"
  "\<not> selects (NodeTypeForNode c n t) (ExtraPodCIDRTypeForNode c' n' ns name t')"
  by (auto simp: selects_def label_sets Let_def)

lemma selects_PodCIDRType:
  "selects (PodCIDRTypeForNode c n []) (PodCIDRTypeForNode c' n' t) \<longleftrightarrow> c = c' \<and> n = n'"
  "\<not> selects (PodCIDRTypeForNode c n t) (NodeTypeForNode c' n' t')"
  "\<not> selects (PodCIDRTypeForNode c n t) (ExtraPodCIDRTypeForNode c' n' ns name t')"
  by (auto simp: selects_def label_sets Let_def)

lemma selects_ExtraPodCIDRType:
  "selects (ExtraPodCIDRTypeForNode c n ns name []) (ExtraPodCIDRTypeForNode c' n' ns' name' t) \<longleftrightarrow>
     c = c' \<and> n = n' \<and> ns = ns' \<and> name = name'"
  "\<not> selects (ExtraPodCIDRTypeForNode c n ns name t) (NodeTypeForNode c' n' t')"
  "\<not> selects (ExtraPodCIDRTypeForNode c n ns name t) (PodCIDRTypeForNode c' n' t')"
  by (auto simp: selects_def label_sets Let_def)

lemma NamespacedName_ExtraPodCIDR:
  "NamespacedNameFromExtraPodCIDR (ExtraPodCIDRTypeForNode c n ns name t) = (ns, name)"
  by (simp add: NamespacedNameFromExtraPodCIDR_def label_def label_sets Let_def)

text \<open>The template names of an annotation that lists them with blanks around.\<close>

fun join_names :: "string list \<Rightarrow> string" where
  "join_names [] = []"
| "join_names [s] = s"
| "join_names (s # ss) = s @ '','' @ join_names ss"

lemma split_on_nonempty [simp]: "split_on d s \<noteq> []"
  by (induction d s rule: split_on.induct) (auto split: list.splits)

lemma split_on_field: "d \<notin> set s \<Longrightarrow> split_on d (s @ d # r) = s # split_on d r"
  by (induction s) (auto split: list.splits)

lemma split_on_last: "d \<notin> set s \<Longrightarrow> split_on d s = [s]"
  by (induction s) auto

lemma split_join: "ss \<noteq> [] \<Longrightarrow> \<forall>s \<in> set ss. CHR '','' \<notin> set s \<Longrightarrow> split_on (CHR '','') (join_names ss) = ss"
  by (induction ss rule: join_names.induct) (auto simp: split_on_field split_on_last)

end
