(* ===== verification/Controllers.thy ===== *)
theory Controllers
  imports Labels IpAlloc TetraEngine
begin

text \<open>
  The reconcilers of \<open>tetrad/controllers\<close> on the objects of the control plane: the claims of a
  node, its \<open>PeerNode\<close>, the claims of pods, and the configuration of the engine made from the
  peers. Calls of the API may fail; a general label selector, its parser and the hash are
  parameters.
\<close>

section \<open>Objects of the control plane\<close>

text \<open>Claims with their labels and owners, beyond the part that the allocator uses.\<close>

record 's node_claim = "'s cidr_claim" +
  nc_Labels :: Labels.labels
  nc_Owners :: "string list"

record 's claim_template =
  ct_Name :: string
  ct_Selector :: 's
  ct_SizeBit :: int

record 's peer_node =
  pn_Name :: string
  pn_Labels :: Labels.labels
  pn_PublicKey :: string
  pn_PublicDiscoKey :: string
  pn_HostName :: string
  pn_Endpoints :: "string list"
  pn_StaticRoutes :: "string list"
  pn_ClaimsSelector :: 's
  pn_AddressesSelector :: 's

record 's control_plane =
  cp_claims :: "'s node_claim list"
  cp_templates :: "'s claim_template list"
  cp_peers :: "'s peer_node list"

definition peerNodeName :: "string \<Rightarrow> string \<Rightarrow> string" where
  "peerNodeName clusterName nodeName = clusterName @ ''-'' @ nodeName"

definition find_named :: "('a \<Rightarrow> string) \<Rightarrow> string \<Rightarrow> 'a list \<Rightarrow> 'a option" where
  "find_named name n xs = List.find (\<lambda>x. name x = n) xs"

text \<open>
  \<open>CreateOrUpdate\<close> of a claim: its labels, selector, size and owner are set; the API server gives
  a new claim the generation 1 and counts a change of the specification.
\<close>

definition set_claim :: "Labels.labels \<Rightarrow> 's claim_template \<Rightarrow> string option \<Rightarrow> 's node_claim \<Rightarrow> 's node_claim" where
  "set_claim ls tmpl owner c =
     c\<lparr>cc_Generation := (if cc_Selector c = ct_Selector tmpl \<and> cc_SizeBit c = ct_SizeBit tmpl
                         then cc_Generation c else cc_Generation c + 1),
       cc_Selector := ct_Selector tmpl, cc_SizeBit := ct_SizeBit tmpl, nc_Labels := ls,
       nc_Owners := (case owner of None \<Rightarrow> nc_Owners c
                     | Some o' \<Rightarrow> if o' \<in> set (nc_Owners c) then nc_Owners c else nc_Owners c @ [o'])\<rparr>"

definition new_claim :: "string \<Rightarrow> Labels.labels \<Rightarrow> 's claim_template \<Rightarrow> string option \<Rightarrow> 's node_claim" where
  "new_claim name ls tmpl owner =
     \<lparr>cc_Name = name, cc_Generation = 1, cc_Selector = ct_Selector tmpl, cc_SizeBit = ct_SizeBit tmpl,
      cc_Status = no_status, nc_Labels = ls, nc_Owners = (case owner of None \<Rightarrow> [] | Some o' \<Rightarrow> [o'])\<rparr>"

definition upsert_claim :: "string \<Rightarrow> Labels.labels \<Rightarrow> 's claim_template \<Rightarrow> string option \<Rightarrow> 's node_claim list
    \<Rightarrow> 's node_claim list" where
  "upsert_claim name ls tmpl owner cs =
     (case find_named cc_Name name cs of
        None \<Rightarrow> cs @ [new_claim name ls tmpl owner]
      | Some _ \<Rightarrow> map (\<lambda>c. if cc_Name c = name then set_claim ls tmpl owner c else c) cs)"

definition delete_selected :: "Labels.labels \<Rightarrow> 's node_claim list \<Rightarrow> 's node_claim list" where
  "delete_selected ls cs = filter (\<lambda>c. \<not> selects ls (nc_Labels c)) cs"

section \<open>CIDRClaimer\<close>

record 's claimer =
  cl_ClusterName :: string
  cl_NodeName :: string
  cl_TemplateNames :: "string list"
  cl_ClaimNameGenerator :: "string \<Rightarrow> string"
  cl_Labels :: "string \<Rightarrow> Labels.labels"
  cl_AllocatedCallback :: bool

text \<open>Which call of a reconciliation fails (other than with \<open>NotFound\<close>).\<close>

record claimer_failures =
  cf_delete :: bool
  cf_get_node :: bool
  cf_get_template :: bool
  cf_upsert :: bool

text \<open>
  The result: the control plane, whether the call returns without an error, and the CIDR that the
  callback is started with.
\<close>

definition claimer_Reconcile :: "'s claimer \<Rightarrow> claimer_failures \<Rightarrow> string \<Rightarrow> 's control_plane
    \<Rightarrow> 's control_plane \<times> bool \<times> string option" where
  "claimer_Reconcile r fails name cp =
     (if name \<notin> set (cl_TemplateNames r)
      then if cf_delete fails then (cp, False, None)
           else (cp\<lparr>cp_claims := delete_selected (cl_Labels r name) (cp_claims cp)\<rparr>, True, None)
      else if cf_get_node fails then (cp, False, None)
      else
        let selfNode = find_named pn_Name (peerNodeName (cl_ClusterName r) (cl_NodeName r)) (cp_peers cp)
        in case (if cf_get_template fails then None else find_named ct_Name name (cp_templates cp)) of
             None \<Rightarrow> (cp, False, None)
           | Some tmpl \<Rightarrow>
               if cf_upsert fails then (cp, False, None)
               else
                 let claimName = cl_ClaimNameGenerator r name;
                     cs = upsert_claim claimName (cl_Labels r name) tmpl (map_option pn_Name selfNode) (cp_claims cp)
                 in (cp\<lparr>cp_claims := cs\<rparr>, True,
                     case find_named cc_Name claimName cs of
                       None \<Rightarrow> None
                     | Some claim \<Rightarrow>
                         if cs_ObservedGeneration (cc_Status claim) \<noteq> cc_Generation claim then None
                         else if cl_AllocatedCallback r then Some (cs_CIDR (cc_Status claim)) else None))"

text \<open>
  The requests that a claim causes, and those that the controller starts with (an error where a
  template is listed twice).
\<close>

definition claimer_handler :: "'s claimer \<Rightarrow> Labels.labels \<Rightarrow> string list" where
  "claimer_handler r claim_labels =
     (let templateName = label TemplateNameLabelKey claim_labels
      in if \<not> has_labels (cl_Labels r templateName) claim_labels then []
         else if templateName = [] then [] else [templateName])"

fun claimer_setup :: "string list \<Rightarrow> string list \<Rightarrow> string list option" where
  "claimer_setup seen [] = Some []"
| "claimer_setup seen (t # ts) =
     (if t \<in> set seen then None
      else case claimer_setup (t # seen) ts of None \<Rightarrow> None | Some events \<Rightarrow> Some (t # events))"

text \<open>The names of claims for the addresses of the node and of its pods; \<open>hash\<close> is the hex text of SHA-1.\<close>

definition short_name :: "(string \<Rightarrow> string) \<Rightarrow> string \<Rightarrow> string" where
  "short_name hash name =
     (if length name < 53 then name else take (53 - 9) name @ ''-'' @ take 8 (hash name))"

definition node_claim_name :: "(string \<Rightarrow> string) \<Rightarrow> string \<Rightarrow> string \<Rightarrow> string \<Rightarrow> string" where
  "node_claim_name hash c n templateName = short_name hash (c @ ''-'' @ n @ ''-'' @ templateName)"

definition pod_claim_name :: "(string \<Rightarrow> string) \<Rightarrow> string \<Rightarrow> string \<Rightarrow> string \<Rightarrow> string" where
  "pod_claim_name hash c n templateName = short_name hash (c @ ''-'' @ n @ ''-pod-'' @ templateName)"

section \<open>ExtraPodCIDRSync\<close>

record pod =
  pod_Namespace :: string
  pod_Name :: string
  pod_NodeName :: string
  pod_ExtraTemplates :: string

record extra_sync =
  es_ClusterName :: string
  es_NodeName :: string
  es_hash :: "string \<Rightarrow> string"

definition extra_claimName :: "extra_sync \<Rightarrow> string \<Rightarrow> string \<Rightarrow> string \<Rightarrow> string" where
  "extra_claimName r namespace name templateName =
     (let rawName = es_ClusterName r @ ''/'' @ es_NodeName r @ ''/'' @ namespace @ ''/'' @ name @ ''/'' @ templateName;
          rawName = (if 44 < length name then take 44 rawName else rawName)
      in map (\<lambda>c. if c = CHR ''/'' then CHR ''-'' else c) rawName @ ''-'' @ take 8 (es_hash r name))"

text \<open>
  The loop over the templates stops at the first error; \<open>fails t\<close> says whether a call for the
  template \<open>t\<close> fails. The result has whether it ended without one.
\<close>

fun extra_loop :: "extra_sync \<Rightarrow> (string \<Rightarrow> bool) \<Rightarrow> string \<Rightarrow> string \<Rightarrow> string option \<Rightarrow> 's claim_template list
    \<Rightarrow> string list \<Rightarrow> 's node_claim list \<Rightarrow> 's node_claim list \<times> bool" where
  "extra_loop r fails namespace name owner tmpls [] cs = (cs, True)"
| "extra_loop r fails namespace name owner tmpls (templateName # ts) cs =
     (let templateName = TrimSpace templateName
      in case find_named ct_Name templateName tmpls of
           None \<Rightarrow> (cs, False)
         | Some tmpl \<Rightarrow>
             if fails templateName then (cs, False)
             else extra_loop r fails namespace name owner tmpls ts
                    (upsert_claim (extra_claimName r namespace name templateName)
                       (AList.update TemplateNameLabelKey templateName
                          (ExtraPodCIDRTypeForNode (es_ClusterName r) (es_NodeName r) namespace name templateName))
                       tmpl owner cs))"

definition deleteCIDRClaim :: "extra_sync \<Rightarrow> bool \<Rightarrow> string \<Rightarrow> string \<Rightarrow> 's control_plane \<Rightarrow> 's control_plane \<times> bool" where
  "deleteCIDRClaim r fail_delete namespace name cp =
     (if fail_delete then (cp, False)
      else (cp\<lparr>cp_claims := delete_selected
              (ExtraPodCIDRTypeForNode (es_ClusterName r) (es_NodeName r) namespace name []) (cp_claims cp)\<rparr>, True))"

datatype get_pod = PodFound pod | PodNotFound | GetPodFailed

definition extra_Reconcile :: "extra_sync \<Rightarrow> get_pod \<Rightarrow> bool \<Rightarrow> bool \<Rightarrow> (string \<Rightarrow> bool) \<Rightarrow> string \<Rightarrow> string
    \<Rightarrow> 's control_plane \<Rightarrow> 's control_plane \<times> bool" where
  "extra_Reconcile r got fail_delete fail_node fails namespace name cp =
     (case got of
        PodNotFound \<Rightarrow> deleteCIDRClaim r fail_delete namespace name cp
      | GetPodFailed \<Rightarrow> (cp, False)
      | PodFound p \<Rightarrow>
          if fail_node then (cp, False)
          else
            let selfNode = find_named pn_Name (peerNodeName (es_ClusterName r) (es_NodeName r)) (cp_peers cp)
            in case extra_loop r fails namespace name (map_option pn_Name selfNode) (cp_templates cp)
                      (ExtraPODCIDRTemplateNames (pod_ExtraTemplates p)) (cp_claims cp) of
                 (cs, ok) \<Rightarrow> (cp\<lparr>cp_claims := cs\<rparr>, ok))"

definition extra_claim_handler :: "extra_sync \<Rightarrow> Labels.labels \<Rightarrow> (string \<times> string) list" where
  "extra_claim_handler r claim_labels =
     (if \<not> has_labels (ExtraPodCIDRTypeForNodeAll (es_ClusterName r) (es_NodeName r) []) claim_labels then []
      else [NamespacedNameFromExtraPodCIDR claim_labels])"

definition extra_pod_handler :: "extra_sync \<Rightarrow> pod \<Rightarrow> (string \<times> string) list" where
  "extra_pod_handler r p =
     (if pod_NodeName p \<noteq> es_NodeName r then []
      else if pod_ExtraTemplates p = [] then []
      else [(pod_Namespace p, pod_Name p)])"

section \<open>PeerNodeSync\<close>

record peer_node_sync =
  ps_ClusterName :: string
  ps_NodeName :: string
  ps_StaticAdvertisedRoutes :: "string list"
  ps_peerConfig :: "peer_config option"

text \<open>The engine's announcement is stored before the reconciler is woken.\<close>

definition sync_notify :: "peer_config \<Rightarrow> peer_node_sync \<Rightarrow> peer_node_sync" where
  "sync_notify pc r = r\<lparr>ps_peerConfig := Some pc\<rparr>"

text \<open>
  The object that \<open>CreateOrUpdate\<close> writes; \<open>MatchLabels\<close> makes a selector of a set of labels. The
  attributes for the operating system and the architecture are constants of the build.
\<close>

definition published :: "(Labels.labels \<Rightarrow> 's) \<Rightarrow> peer_node_sync \<Rightarrow> peer_config \<Rightarrow> 's peer_node" where
  "published MatchLabels r pc =
     \<lparr>pn_Name = peerNodeName (ps_ClusterName r) (ps_NodeName r),
      pn_Labels = ForNode (ps_ClusterName r) (ps_NodeName r),
      pn_PublicKey = pc_PublicKey pc, pn_PublicDiscoKey = pc_PublicDiscoKey pc,
      pn_HostName = ps_NodeName r, pn_Endpoints = pc_Endpoints pc,
      pn_StaticRoutes = ps_StaticAdvertisedRoutes r,
      pn_ClaimsSelector = MatchLabels (ForNode (ps_ClusterName r) (ps_NodeName r)),
      pn_AddressesSelector = MatchLabels (NodeTypeForNode (ps_ClusterName r) (ps_NodeName r) [])\<rparr>"

definition node_sync_Reconcile :: "(Labels.labels \<Rightarrow> 's) \<Rightarrow> bool \<Rightarrow> peer_node_sync \<Rightarrow> 's control_plane
    \<Rightarrow> 's control_plane \<times> bool" where
  "node_sync_Reconcile MatchLabels fail_upsert r cp =
     (case ps_peerConfig r of
        None \<Rightarrow> (cp, True)
      | Some pc \<Rightarrow>
          if fail_upsert then (cp, False)
          else
            let node = published MatchLabels r pc
            in (cp\<lparr>cp_peers :=
                  (case find_named pn_Name (pn_Name node) (cp_peers cp) of
                     None \<Rightarrow> cp_peers cp @ [node]
                   | Some _ \<Rightarrow> map (\<lambda>n. if pn_Name n = pn_Name node then node else n) (cp_peers cp))\<rparr>, True))"

section \<open>PeersSync\<close>

record peers_sync =
  sy_ClusterName :: string
  sy_NodeName :: string
  sy_PrivateKey :: string
  sy_ListenPort :: int
  sy_STUNEndpoint :: string

text \<open>The list of the peers is cut at the node itself, where it is found.\<close>

fun without_self :: "Labels.labels \<Rightarrow> 's peer_node list \<Rightarrow> 's peer_node list option" where
  "without_self ls [] = None"
| "without_self ls (p # ps) =
     (if has_labels ls (pn_Labels p) then Some ps
      else case without_self ls ps of None \<Rightarrow> None | Some rest \<Rightarrow> Some (p # rest))"

text \<open>
  The configuration of one peer from the claims that its selector lists: only ready claims count,
  and the node's own addresses are those that the second selector matches.
\<close>

definition ready :: "'s node_claim \<Rightarrow> bool" where
  "ready c \<longleftrightarrow> cs_State (cc_Status c) = Ready"

definition peer_config_of :: "'s peer_node \<Rightarrow> (Labels.labels \<Rightarrow> bool) \<Rightarrow> 's node_claim list \<Rightarrow> peer_config" where
  "peer_config_of p addressesSelector claims =
     \<lparr>pc_Endpoints = pn_Endpoints p, pc_PublicKey = pn_PublicKey p, pc_PublicDiscoKey = pn_PublicDiscoKey p,
      pc_Addresses = map (\<lambda>c. cs_CIDR (cc_Status c)) (filter (\<lambda>c. addressesSelector (nc_Labels c)) (filter ready claims)),
      pc_AllowedIPs = pn_StaticRoutes p @ map (\<lambda>c. cs_CIDR (cc_Status c)) (filter ready claims)\<rparr>"

text \<open>
  The loop over the peers: one with an unusable selector is skipped, a failed list of claims ends
  the reconciliation (\<open>None\<close>).
\<close>

fun peer_configs :: "('s \<Rightarrow> string + (Labels.labels \<Rightarrow> bool)) \<Rightarrow> (string \<Rightarrow> bool) \<Rightarrow> 's node_claim list
    \<Rightarrow> 's peer_node list \<Rightarrow> peer_config list option" where
  "peer_configs asSelector fails claims [] = Some []"
| "peer_configs asSelector fails claims (p # ps) =
     (case asSelector (pn_ClaimsSelector p) of
        Inl _ \<Rightarrow> peer_configs asSelector fails claims ps
      | Inr selector \<Rightarrow>
          (case asSelector (pn_AddressesSelector p) of
             Inl _ \<Rightarrow> peer_configs asSelector fails claims ps
           | Inr addressesSelector \<Rightarrow>
               if fails (pn_Name p) then None
               else case peer_configs asSelector fails claims ps of
                      None \<Rightarrow> None
                    | Some pcs \<Rightarrow> Some (peer_config_of p addressesSelector
                        (filter (\<lambda>c. selector (nc_Labels c)) claims) # pcs)))"

definition getSelfAddresses :: "(string \<Rightarrow> nl_addr option) \<Rightarrow> peers_sync \<Rightarrow> 's node_claim list \<Rightarrow> nl_addr list" where
  "getSelfAddresses parse r claims =
     List.map_filter (\<lambda>a. parse (cs_CIDR (cc_Status a)))
       (filter ready (filter (\<lambda>a. selects (NodeTypeForNode (sy_ClusterName r) (sy_NodeName r) []) (nc_Labels a)) claims))"

record sync_failures =
  sf_list_peers :: bool
  sf_list_claims :: "string \<Rightarrow> bool"
  sf_list_self :: bool

datatype sync_result = SyncFailed | NoSelf | Reconfigured te_config

definition peers_Reconcile :: "('s \<Rightarrow> string + (Labels.labels \<Rightarrow> bool)) \<Rightarrow> (string \<Rightarrow> nl_addr option) \<Rightarrow> sync_failures
    \<Rightarrow> peers_sync \<Rightarrow> 's control_plane \<Rightarrow> sync_result" where
  "peers_Reconcile asSelector parse fails r cp =
     (if sf_list_peers fails then SyncFailed
      else case without_self (ForNode (sy_ClusterName r) (sy_NodeName r)) (cp_peers cp) of
             None \<Rightarrow> NoSelf
           | Some others \<Rightarrow>
               (case peer_configs asSelector (sf_list_claims fails) (cp_claims cp) others of
                  None \<Rightarrow> SyncFailed
                | Some pcs \<Rightarrow>
                    if sf_list_self fails then SyncFailed
                    else Reconfigured
                      \<lparr>tc_PrivateKey = sy_PrivateKey r, tc_ListenPort = sy_ListenPort r,
                       tc_STUNEndpoint = sy_STUNEndpoint r,
                       tc_Addresses = getSelfAddresses parse r (cp_claims cp), tc_Peers = pcs\<rparr>))"

section \<open>Whose claim it is\<close>

text \<open>The claims that the reconcilers make: for the node, for all of its pods, for one pod.\<close>

datatype claim_origin = NodeClaim string string string | PodClaim string string string
  | ExtraClaim string string string string string

fun origin_labels :: "claim_origin \<Rightarrow> Labels.labels" where
  "origin_labels (NodeClaim c n t) = NodeTypeForNode c n t"
| "origin_labels (PodClaim c n t) = PodCIDRTypeForNode c n t"
| "origin_labels (ExtraClaim c n ns name t) = ExtraPodCIDRTypeForNode c n ns name t"

fun origin_node :: "claim_origin \<Rightarrow> string \<times> string" where
  "origin_node (NodeClaim c n t) = (c, n)"
| "origin_node (PodClaim c n t) = (c, n)"
| "origin_node (ExtraClaim c n ns name t) = (c, n)"

fun is_node_claim :: "claim_origin \<Rightarrow> bool" where
  "is_node_claim (NodeClaim c n t) = True"
| "is_node_claim _ = False"

lemma selects_origin:
  "selects (ForNode c n) (origin_labels x) \<longleftrightarrow> origin_node x = (c, n)"
  "selects (NodeTypeForNode c n []) (origin_labels x) \<longleftrightarrow> is_node_claim x \<and> origin_node x = (c, n)"
  by (cases x; auto simp: selects_ForNode selects_NodeType)+

lemma selects_template:
  "t \<noteq> [] \<Longrightarrow> selects (NodeTypeForNode c n t) (origin_labels x) \<longleftrightarrow> x = NodeClaim c n t"
  by (cases x) (auto simp: selects_NodeType, auto simp: selects_def label_sets Let_def split: if_splits)

lemma has_labels_ForNode: "has_labels (ForNode c n) (ForNode c' n') \<longleftrightarrow> c = c' \<and> n = n'"
  by (auto simp: has_labels_def ForNode_def label_def)

definition sync_node :: "peer_node_sync \<Rightarrow> string \<times> string" where
  "sync_node q = (ps_ClusterName q, ps_NodeName q)"

lemma without_self_published:
  assumes "sync_node r = (c, n)" "\<forall>(q, pc) \<in> set xs. sync_node q \<noteq> (c, n)"
  shows "without_self (ForNode c n) (map (\<lambda>(q, pc). published mk q pc) (xs @ (r, pc) # ys)) =
    Some (map (\<lambda>(q, pc). published mk q pc) (xs @ ys))"
  using assms by (induction xs) (auto simp: published_def has_labels_ForNode sync_node_def)

text \<open>The configuration that the other nodes should make for a node.\<close>

definition config_for :: "('s node_claim \<Rightarrow> claim_origin) \<Rightarrow> 's node_claim list \<Rightarrow> peer_node_sync \<Rightarrow> peer_config \<Rightarrow> peer_config" where
  "config_for orig claims q pc =
     \<lparr>pc_Endpoints = pc_Endpoints pc, pc_PublicKey = pc_PublicKey pc, pc_PublicDiscoKey = pc_PublicDiscoKey pc,
      pc_Addresses = map (\<lambda>c. cs_CIDR (cc_Status c))
        (filter (\<lambda>c. ready c \<and> is_node_claim (orig c) \<and> origin_node (orig c) = sync_node q) claims),
      pc_AllowedIPs = ps_StaticAdvertisedRoutes q @ map (\<lambda>c. cs_CIDR (cc_Status c))
        (filter (\<lambda>c. ready c \<and> origin_node (orig c) = sync_node q) claims)\<rparr>"

lemma peer_configs_published:
  assumes law: "\<And>l. asSelector (mk l) = Inr (selects l)" and "\<And>p. \<not> fails p"
    and origins: "\<forall>c \<in> set claims. nc_Labels c = origin_labels (orig c)"
  shows "peer_configs asSelector fails claims (map (\<lambda>(q, pc). published mk q pc) pubs) =
    Some (map (\<lambda>(q, pc). config_for orig claims q pc) pubs)"
proof (induction pubs)
  case (Cons x pubs)
  obtain q pc where x: "x = (q, pc)" by (cases x)
  have all: "filter (\<lambda>c. selects (ForNode (ps_ClusterName q) (ps_NodeName q)) (nc_Labels c)) claims =
      filter (\<lambda>c. origin_node (orig c) = sync_node q) claims"
    using origins by (intro filter_cong) (simp_all add: selects_origin sync_node_def)
  have "peer_config_of (published mk q pc) (selects (NodeTypeForNode (ps_ClusterName q) (ps_NodeName q) []))
      (filter (\<lambda>c. selects (ForNode (ps_ClusterName q) (ps_NodeName q)) (nc_Labels c)) claims) = config_for orig claims q pc"
  proof -
    have "filter (\<lambda>c. selects (NodeTypeForNode (ps_ClusterName q) (ps_NodeName q) []) (nc_Labels c) \<and>
          ready c \<and> origin_node (orig c) = sync_node q) claims =
        filter (\<lambda>c. ready c \<and> is_node_claim (orig c) \<and> origin_node (orig c) = sync_node q) claims"
      using origins by (intro filter_cong) (auto simp: selects_origin sync_node_def)
    then show ?thesis
      unfolding all by (simp add: peer_config_of_def published_def config_for_def conj_ac)
  qed
  with Cons.IH assms(2) show ?case
    by (simp add: x published_def law)
qed simp

section \<open>Effects of a claimer\<close>

lemma find_named_SomeD: "find_named name n xs = Some x \<Longrightarrow> x \<in> set xs \<and> name x = n"
  by (auto simp: find_named_def find_Some_iff in_set_conv_nth)

lemma find_named_None: "find_named name n xs = None \<longleftrightarrow> n \<notin> name ` set xs"
  by (auto simp: find_named_def find_None_iff)

lemma set_claim_simps [simp]:
  "cc_Name (set_claim ls tmpl owner c) = cc_Name c" "nc_Labels (set_claim ls tmpl owner c) = ls"
  "cc_Selector (set_claim ls tmpl owner c) = ct_Selector tmpl" "cc_SizeBit (set_claim ls tmpl owner c) = ct_SizeBit tmpl"
  "cc_Status (set_claim ls tmpl owner c) = cc_Status c"
  by (simp_all add: set_claim_def)

lemma upsert_claim_effect:
  "\<exists>c \<in> set (upsert_claim name ls tmpl owner cs). cc_Name c = name"
  "c \<in> set (upsert_claim name ls tmpl owner cs) \<Longrightarrow> cc_Name c = name \<Longrightarrow>
     nc_Labels c = ls \<and> cc_Selector c = ct_Selector tmpl \<and> cc_SizeBit c = ct_SizeBit tmpl"
  "filter (\<lambda>c. cc_Name c \<noteq> name) (upsert_claim name ls tmpl owner cs) = filter (\<lambda>c. cc_Name c \<noteq> name) cs"
proof -
  show "\<exists>c \<in> set (upsert_claim name ls tmpl owner cs). cc_Name c = name"
  proof (cases "find_named cc_Name name cs")
    case None
    then show ?thesis by (simp add: upsert_claim_def new_claim_def)
  next
    case (Some a)
    let ?f = "\<lambda>c. if cc_Name c = name then set_claim ls tmpl owner c else c"
    from find_named_SomeD [OF Some] have a: "a \<in> set cs" "cc_Name (?f a) = name" by simp_all
    from a(1) have "?f a \<in> set (map ?f cs)"
      unfolding set_map by (rule imageI)
    then show ?thesis
      unfolding upsert_claim_def Some option.case by (rule rev_bexI) (rule a(2))
  qed
  show "nc_Labels c = ls \<and> cc_Selector c = ct_Selector tmpl \<and> cc_SizeBit c = ct_SizeBit tmpl"
    if "c \<in> set (upsert_claim name ls tmpl owner cs)" "cc_Name c = name"
  proof (cases "find_named cc_Name name cs")
    case None
    with that(2) find_named_None [of cc_Name name cs] have "c \<notin> set cs" by blast
    moreover from that(1) have "c \<in> set (cs @ [new_claim name ls tmpl owner])"
      unfolding upsert_claim_def None option.case .
    ultimately have "c = new_claim name ls tmpl owner" by simp
    then show ?thesis by (simp add: new_claim_def)
  next
    case (Some a)
    from that(1) have "c \<in> (\<lambda>d. if cc_Name d = name then set_claim ls tmpl owner d else d) ` set cs"
      unfolding upsert_claim_def Some option.case set_map .
    then obtain d where "c = (if cc_Name d = name then set_claim ls tmpl owner d else d)"
      by (elim imageE)
    with that(2) show ?thesis by (cases "cc_Name d = name") simp_all
  qed
  have "filter (\<lambda>c. cc_Name c \<noteq> name) (map (\<lambda>c. if cc_Name c = name then set_claim ls tmpl owner c else c) cs) =
      filter (\<lambda>c. cc_Name c \<noteq> name) cs"
    by (induction cs) auto
  then show "filter (\<lambda>c. cc_Name c \<noteq> name) (upsert_claim name ls tmpl owner cs) = filter (\<lambda>c. cc_Name c \<noteq> name) cs"
    by (simp add: upsert_claim_def new_claim_def split: option.split)
qed

section \<open>Properties\<close>

lemma upsert_claim_all:
  "(\<exists>c \<in> set (upsert_claim name ls tmpl owner cs). cc_Name c = name) \<and>
   (\<forall>c \<in> set (upsert_claim name ls tmpl owner cs). cc_Name c = name \<longrightarrow>
      nc_Labels c = ls \<and> cc_Selector c = ct_Selector tmpl \<and> cc_SizeBit c = ct_SizeBit tmpl) \<and>
   filter (\<lambda>c. cc_Name c \<noteq> name) (upsert_claim name ls tmpl owner cs) = filter (\<lambda>c. cc_Name c \<noteq> name) cs"
proof (intro conjI ballI impI)
  fix c assume "c \<in> set (upsert_claim name ls tmpl owner cs)" "cc_Name c = name"
  note upsert = upsert_claim_effect(2) [OF this]
  show "nc_Labels c = ls" "cc_Selector c = ct_Selector tmpl" "cc_SizeBit c = ct_SizeBit tmpl"
    using upsert by blast+
qed (rule upsert_claim_effect)+

text \<open>
  C8. What the nodes publish is what the others configure: if every node's \<open>PeerNode\<close> is the one
  that its own reconciler wrote and every claim has the labels of the node it is for, then a
  reconciliation of one of the nodes gives the engine, for exactly the other nodes, their
  announced keys and endpoints, as addresses the CIDRs of their ready node claims, and as
  allowed addresses their static routes and the CIDRs of all their ready claims and of nobody
  else's; and the node's own addresses are those of its own ready node claims.
\<close>
theorem peers_are_configured_as_published:
  assumes "\<And>l. asSelector (mk l) = Inr (selects l)"
    and "cp_peers cp = map (\<lambda>(q, pc). published mk q pc) (xs @ (me, own) # ys)"
    and "\<forall>(q, pc) \<in> set xs. sync_node q \<noteq> sync_node me" "sync_node me = (sy_ClusterName r, sy_NodeName r)"
    and "\<forall>c \<in> set (cp_claims cp). nc_Labels c = origin_labels (orig c)"
    and "\<not> sf_list_peers fails" "\<And>p. \<not> sf_list_claims fails p" "\<not> sf_list_self fails"
  shows "peers_Reconcile asSelector parse fails r cp = Reconfigured
    \<lparr>tc_PrivateKey = sy_PrivateKey r, tc_ListenPort = sy_ListenPort r, tc_STUNEndpoint = sy_STUNEndpoint r,
     tc_Addresses = List.map_filter (\<lambda>a. parse (cs_CIDR (cc_Status a)))
       (filter (\<lambda>c. ready c \<and> is_node_claim (orig c) \<and> origin_node (orig c) = sync_node me) (cp_claims cp)),
     tc_Peers = map (\<lambda>(q, pc). config_for orig (cp_claims cp) q pc) (xs @ ys)\<rparr>"
proof -
  have others: "without_self (ForNode (sy_ClusterName r) (sy_NodeName r)) (cp_peers cp) =
      Some (map (\<lambda>(q, pc). published mk q pc) (xs @ ys))"
    using without_self_published [of me _ _ xs mk own ys] assms(2-4) by simp
  have self: "filter ready (filter (\<lambda>a. selects (NodeTypeForNode (sy_ClusterName r) (sy_NodeName r) []) (nc_Labels a)) (cp_claims cp)) =
      filter (\<lambda>c. ready c \<and> is_node_claim (orig c) \<and> origin_node (orig c) = sync_node me) (cp_claims cp)"
    using assms(4,5) unfolding filter_filter by (intro filter_cong) (auto simp: selects_origin)
  show ?thesis
    using others peer_configs_published [of asSelector mk "sf_list_claims fails" "cp_claims cp" orig "xs @ ys"] assms(1,5-8)
    by (simp add: peers_Reconcile_def getSelfAddresses_def self del: map_append filter_filter)
qed

definition example_node :: "string \<Rightarrow> peer_node_sync" where
  "example_node n = \<lparr>ps_ClusterName = ''c'', ps_NodeName = n, ps_StaticAdvertisedRoutes = [''r'' @ n], ps_peerConfig = None\<rparr>"

definition example_announcement :: peer_config where
  "example_announcement = \<lparr>pc_Endpoints = [''e''], pc_PublicKey = ''k'', pc_PublicDiscoKey = ''d'', pc_Addresses = [], pc_AllowedIPs = []\<rparr>"

definition labelled_claim :: "Labels.labels \<Rightarrow> string \<Rightarrow> Labels.labels node_claim" where
  "labelled_claim ls cidr = \<lparr>cc_Name = cidr, cc_Generation = 1, cc_Selector = [], cc_SizeBit = 0,
     cc_Status = ready_at cidr, nc_Labels = ls, nc_Owners = []\<rparr>"

definition example_plane :: "Labels.labels control_plane" where
  "example_plane = \<lparr>cp_claims = [labelled_claim (origin_labels (NodeClaim ''c'' ''x'' ''t'')) ''1'',
       labelled_claim (origin_labels (PodClaim ''c'' ''x'' ''t'')) ''2'', labelled_claim (origin_labels (NodeClaim ''c'' ''y'' ''t'')) ''3''],
     cp_templates = [\<lparr>ct_Name = ''t'', ct_Selector = [], ct_SizeBit = 0\<rparr>],
     cp_peers = map (\<lambda>(q, pc). published id q pc) ([(example_node ''x'', example_announcement)] @ (example_node ''y'', example_announcement) # [])\<rparr>"

definition example_orig :: "Labels.labels node_claim \<Rightarrow> claim_origin" where
  "example_orig c = (if cc_Name c = ''1'' then NodeClaim ''c'' ''x'' ''t'' else if cc_Name c = ''2'' then PodClaim ''c'' ''x'' ''t''
     else NodeClaim ''c'' ''y'' ''t'')"

definition example_sync :: peers_sync where
  "example_sync = \<lparr>sy_ClusterName = ''c'', sy_NodeName = ''y'', sy_PrivateKey = ''p'', sy_ListenPort = 1, sy_STUNEndpoint = ''s''\<rparr>"

definition no_sync_failures :: sync_failures where
  "no_sync_failures = \<lparr>sf_list_peers = False, sf_list_claims = (\<lambda>_. False), sf_list_self = False\<rparr>"

lemma example_config: "config_for example_orig (cp_claims example_plane) (example_node ''x'') example_announcement =
  \<lparr>pc_Endpoints = [''e''], pc_PublicKey = ''k'', pc_PublicDiscoKey = ''d'', pc_Addresses = [''1''], pc_AllowedIPs = [''rx'', ''1'', ''2'']\<rparr>"
  by (simp add: config_for_def example_plane_def labelled_claim_def example_orig_def example_node_def sync_node_def
      example_announcement_def ready_def ready_at_def)

theorem peers_are_configured_as_published_witness:
  "\<exists>cfg. peers_Reconcile (\<lambda>l. Inr (selects l)) (\<lambda>_. None) no_sync_failures example_sync example_plane = Reconfigured cfg \<and>
     tc_Peers cfg = [\<lparr>pc_Endpoints = [''e''], pc_PublicKey = ''k'', pc_PublicDiscoKey = ''d'', pc_Addresses = [''1''],
       pc_AllowedIPs = [''rx'', ''1'', ''2'']\<rparr>]"
proof -
  have peers: "cp_peers example_plane = map (\<lambda>(q, pc). published id q pc)
      ([(example_node ''x'', example_announcement)] @ (example_node ''y'', example_announcement) # [])"
    by (simp add: example_plane_def)
  have claims: "\<forall>c \<in> set (cp_claims example_plane). nc_Labels c = origin_labels (example_orig c)"
    by (simp add: example_plane_def labelled_claim_def example_orig_def)
  have "\<forall>(q, pc) \<in> set [(example_node ''x'', example_announcement)]. sync_node q \<noteq> sync_node (example_node ''y'')"
    "sync_node (example_node ''y'') = (sy_ClusterName example_sync, sy_NodeName example_sync)"
    by (simp_all add: example_node_def sync_node_def example_sync_def)
  from peers_are_configured_as_published [OF _ peers this claims, of "\<lambda>l. Inr (selects l)" no_sync_failures "\<lambda>_. None"]
  show ?thesis
    by (simp add: no_sync_failures_def example_config)
qed


definition example_claimer :: "Labels.labels claimer" where
  "example_claimer = \<lparr>cl_ClusterName = ''c'', cl_NodeName = ''x'', cl_TemplateNames = [], cl_ClaimNameGenerator = id,
     cl_Labels = NodeTypeForNode ''c'' ''x'', cl_AllocatedCallback = False\<rparr>"

definition no_claimer_failures :: claimer_failures where
  "no_claimer_failures = \<lparr>cf_delete = False, cf_get_node = False, cf_get_template = False, cf_upsert = False\<rparr>"


text \<open>
  A changed claim wakes exactly the reconciliation that made it: the handler of the extra
  claims leads from the labels of an extra claim back to its pod, on the node of the claim only;
  the handlers of the two claimers lead from a claim for a template back to the template, each
  for its own kind of claim and its own node only.
\<close>
lemma claims_wake_their_makers:
  "extra_claim_handler r (origin_labels x) =
     (case x of ExtraClaim c n ns name t \<Rightarrow> if c = es_ClusterName r \<and> n = es_NodeName r then [(ns, name)] else [] | _ \<Rightarrow> []) \<and>
   claimer_handler (r'\<lparr>cl_Labels := NodeTypeForNode c0 n0\<rparr>) (origin_labels x) =
     (case x of NodeClaim c n t \<Rightarrow> if c = c0 \<and> n = n0 \<and> t \<noteq> [] then [t] else [] | _ \<Rightarrow> []) \<and>
   claimer_handler (r'\<lparr>cl_Labels := PodCIDRTypeForNode c0 n0\<rparr>) (origin_labels x) =
     (case x of PodClaim c n t \<Rightarrow> if c = c0 \<and> n = n0 \<and> t \<noteq> [] then [t] else [] | _ \<Rightarrow> [])"
  by (cases x)
    (auto simp: extra_claim_handler_def claimer_handler_def has_labels_def label_def label_sets Let_def
      NamespacedNameFromExtraPodCIDR_def)

end
