(* ===== verification/CniServer.thy ===== *)
theory CniServer
  imports Controllers
begin

text \<open>
  \<open>tetrad/pkg/cniserver\<close>: the claims that the CNI plugins are served, once all of them are ready,
  with the retries of the handlers; and the client's calls. The caches are what each attempt
  finds in them; how often \<open>backoff\<close> retries is the length of the list of attempts.
\<close>

section \<open>The handlers\<close>

record cni_handler =
  h_clusterName :: string
  h_nodeName :: string
  h_podAddressClaimTemplates :: "string list"

definition claim_served :: "'s node_claim \<Rightarrow> bool" where
  "claim_served claim \<longleftrightarrow>
     cs_ObservedGeneration (cc_Status claim) = cc_Generation claim \<and> cs_State (cc_Status claim) = Ready"

text \<open>
  The loops over the listed claims, of extra claims and of pod claims: each ends at one that is
  not ready, with the names deleted so far; the second passes over a claim without a template name.
\<close>

fun serve_loop :: "'s node_claim list \<Rightarrow> string set \<Rightarrow> string set \<times> bool" where
  "serve_loop [] templateNames = (templateNames, True)"
| "serve_loop (claim # cs) templateNames =
     (if \<not> claim_served claim then (templateNames, False)
      else serve_loop cs (templateNames - {label TemplateNameLabelKey (nc_Labels claim)}))"

fun serve_pod_loop :: "'s node_claim list \<Rightarrow> string set \<Rightarrow> string set \<times> bool" where
  "serve_pod_loop [] templateNames = (templateNames, True)"
| "serve_pod_loop (claim # cs) templateNames =
     (if \<not> claim_served claim then (templateNames, False)
      else let templateName = label TemplateNameLabelKey (nc_Labels claim)
           in serve_pod_loop cs (if templateName \<noteq> [] then templateNames - {templateName} else templateNames))"

text \<open>
  \<open>GetPodCIDRs\<close>: the names of the templates are collected once, and every attempt goes on with
  what the earlier ones left. An attempt is what the cache holds, \<open>None\<close> for an error. The result
  is the list of claims at the end and whether the call succeeds.
\<close>

fun pod_attempts :: "Labels.labels \<Rightarrow> 's node_claim list option list \<Rightarrow> string set \<Rightarrow> 's node_claim list
    \<Rightarrow> 's node_claim list \<times> bool" where
  "pod_attempts ls [] templateNames cidrClaims = (cidrClaims, False)"
| "pod_attempts ls (None # as) templateNames cidrClaims = pod_attempts ls as templateNames cidrClaims"
| "pod_attempts ls (Some cache # as) templateNames cidrClaims =
     (let listed = filter (\<lambda>c. selects ls (nc_Labels c)) cache
      in case serve_pod_loop listed templateNames of
           (templateNames', ok) \<Rightarrow>
             if ok \<and> templateNames' = {} then (listed, True) else pod_attempts ls as templateNames' listed)"

definition GetPodCIDRs :: "cni_handler \<Rightarrow> 's node_claim list option list \<Rightarrow> 's node_claim list \<times> bool" where
  "GetPodCIDRs h attempts =
     pod_attempts (PodCIDRTypeForNode (h_clusterName h) (h_nodeName h) []) attempts
       (set (h_podAddressClaimTemplates h)) []"

text \<open>
  \<open>GetExtraPodCIDRs\<close>: every attempt reads the pod, \<open>None\<close> for an error, and starts with the names
  of its annotation. Without a local cache the call succeeds with no claims.
\<close>

fun extra_attempts :: "Labels.labels \<Rightarrow> (pod option \<times> 's node_claim list option) list \<Rightarrow> 's node_claim list
    \<Rightarrow> 's node_claim list \<times> bool" where
  "extra_attempts ls [] cidrClaims = (cidrClaims, False)"
| "extra_attempts ls ((None, cache) # as) cidrClaims = extra_attempts ls as cidrClaims"
| "extra_attempts ls ((Some p, None) # as) cidrClaims = extra_attempts ls as cidrClaims"
| "extra_attempts ls ((Some p, Some cache) # as) cidrClaims =
     (let listed = filter (\<lambda>c. selects ls (nc_Labels c)) cache
      in case serve_loop listed (set (ExtraPODCIDRTemplateNames (pod_ExtraTemplates p))) of
           (templateNames', ok) \<Rightarrow>
             if ok \<and> templateNames' = {} then (listed, True) else extra_attempts ls as listed)"

definition GetExtraPodCIDRs :: "cni_handler \<Rightarrow> bool \<Rightarrow> string \<Rightarrow> string \<Rightarrow> (pod option \<times> 's node_claim list option) list
    \<Rightarrow> 's node_claim list \<times> bool" where
  "GetExtraPodCIDRs h localCache namespace name attempts =
     (if \<not> localCache then ([], True)
      else extra_attempts (ExtraPodCIDRTypeForNode (h_clusterName h) (h_nodeName h) namespace name []) attempts [])"

text \<open>The client returns the list of a call that succeeds (the transport may fail).\<close>

definition rpcCall :: "bool \<Rightarrow> 'a \<times> bool \<Rightarrow> 'a option" where
  "rpcCall dial res = (if dial \<and> snd res then Some (fst res) else None)"

definition client_GetPodCIDRs :: "bool \<Rightarrow> cni_handler \<Rightarrow> 's node_claim list option list \<Rightarrow> 's node_claim list option" where
  "client_GetPodCIDRs dial h attempts = rpcCall dial (GetPodCIDRs h attempts)"

definition client_GetExtraPodCIDRs :: "bool \<Rightarrow> cni_handler \<Rightarrow> bool \<Rightarrow> string \<Rightarrow> string
    \<Rightarrow> (pod option \<times> 's node_claim list option) list \<Rightarrow> 's node_claim list option" where
  "client_GetExtraPodCIDRs dial h localCache namespace name attempts =
     rpcCall dial (GetExtraPodCIDRs h localCache namespace name attempts)"

section \<open>What is served\<close>

definition template_of :: "'s node_claim \<Rightarrow> string" where
  "template_of c = label TemplateNameLabelKey (nc_Labels c)"

lemma serve_loop_done:
  "serve_loop cs ts = (ts', True) \<Longrightarrow> (\<forall>c \<in> set cs. claim_served c) \<and> ts' = ts - template_of ` set cs"
  by (induction cs arbitrary: ts) (auto simp: template_of_def split: if_splits)

lemma serve_pod_loop_done:
  "serve_pod_loop cs ts = (ts', True) \<Longrightarrow> \<forall>c \<in> set cs. claim_served c"
  by (induction cs arbitrary: ts) (auto simp: Let_def split: if_splits)

lemma serve_pod_loop_removes:
  "serve_pod_loop cs ts = (ts', ok) \<Longrightarrow> t \<in> ts \<Longrightarrow> t \<notin> ts' \<Longrightarrow> \<exists>c \<in> set cs. claim_served c \<and> template_of c = t"
proof (induction cs arbitrary: ts)
  case (Cons c cs)
  let ?ts = "if template_of c \<noteq> [] then ts - {template_of c} else ts"
  show ?case
  proof (cases "claim_served c")
    case False
    with Cons.prems show ?thesis by simp
  next
    case True
    with Cons.prems(1) have "serve_pod_loop cs ?ts = (ts', ok)"
      unfolding serve_pod_loop.simps template_of_def Let_def by (simp only: not_True_eq_False if_False)
    from Cons.IH [OF this _ Cons.prems(3)] show ?thesis
      using True Cons.prems(2) by (cases "t \<in> ?ts") (auto split: if_splits)
  qed
qed simp

text \<open>A usable claim for a template was in the cache of some attempt; the returned claims come from one.\<close>

definition seen :: "Labels.labels \<Rightarrow> 's node_claim list option list \<Rightarrow> string \<Rightarrow> bool" where
  "seen ls attempts t \<longleftrightarrow> (\<exists>cache \<in> set attempts. \<exists>c \<in> set (case cache of None \<Rightarrow> [] | Some cs \<Rightarrow> cs).
     claim_served c \<and> selects ls (nc_Labels c) \<and> template_of c = t)"

definition from_cache :: "'s node_claim list \<Rightarrow> 's node_claim list option list \<Rightarrow> bool" where
  "from_cache cs attempts \<longleftrightarrow> (\<exists>cache \<in> set attempts. set cs \<subseteq> set (case cache of None \<Rightarrow> [] | Some cs \<Rightarrow> cs))"

lemma seen_Cons: "seen ls as t \<Longrightarrow> seen ls (a # as) t"
  by (simp add: seen_def)

lemma from_cache_Cons: "from_cache cs as \<Longrightarrow> from_cache cs (a # as)"
  by (simp add: from_cache_def)

lemma pod_attempts_served:
  assumes "pod_attempts ls as ts cs0 = (cs, True)"
  shows "(\<forall>c \<in> set cs. claim_served c \<and> selects ls (nc_Labels c)) \<and> from_cache cs as \<and> (\<forall>t \<in> ts. seen ls as t)"
  using assms
proof (induction ls as ts cs0 rule: pod_attempts.induct)
  case (2 ls as ts cs0)
  then show ?case by (simp add: seen_Cons from_cache_Cons)
next
  case (3 ls cache as ts cs0)
  let ?listed = "filter (\<lambda>c. selects ls (nc_Labels c)) cache"
  obtain ts' ok where loop: "serve_pod_loop ?listed ts = (ts', ok)"
    by (cases "serve_pod_loop ?listed ts")
  have gone: "seen ls (Some cache # as) t" if "t \<in> ts" "t \<notin> ts'" for t
    using serve_pod_loop_removes [OF loop that] by (auto simp: seen_def)
  show ?case
  proof (cases "ok \<and> ts' = {}")
    case True
    with 3(2) loop have cs: "cs = ?listed" by simp
    have "\<forall>c \<in> set ?listed. claim_served c"
      using serve_pod_loop_done [of ?listed ts ts'] loop True by simp
    then show ?thesis
      unfolding cs using True gone by (simp add: from_cache_def)
  next
    case False
    with 3(2) loop have rest: "pod_attempts ls as ts' ?listed = (cs, True)" by (simp split: if_splits)
    from "3.IH" [OF refl loop [symmetric] False rest] have IH:
      "\<forall>c \<in> set cs. claim_served c \<and> selects ls (nc_Labels c)" "from_cache cs as" "\<forall>t \<in> ts'. seen ls as t"
      by simp_all
    have "seen ls (Some cache # as) t" if "t \<in> ts" for t
      using that gone IH(3) by (cases "t \<in> ts'") (simp_all add: seen_Cons)
    with IH(1,2) show ?thesis by (simp add: from_cache_Cons)
  qed
qed simp

definition extra_source :: "(pod option \<times> 's node_claim list option) list \<Rightarrow> Labels.labels \<Rightarrow> 's node_claim list \<Rightarrow> bool" where
  "extra_source attempts ls cs \<longleftrightarrow>
     (\<exists>p cache. (Some p, Some cache) \<in> set attempts \<and> cs = filter (\<lambda>c. selects ls (nc_Labels c)) cache \<and>
       set (ExtraPODCIDRTemplateNames (pod_ExtraTemplates p)) \<subseteq> template_of ` set cs)"

lemma extra_source_Cons: "extra_source as ls cs \<Longrightarrow> extra_source (a # as) ls cs"
  unfolding extra_source_def by (elim exE conjE) (intro exI conjI, rule list.set_intros(2), assumption+)

lemma extra_attempts_served:
  assumes "extra_attempts ls as cs0 = (cs, True)"
  shows "(\<forall>c \<in> set cs. claim_served c \<and> selects ls (nc_Labels c)) \<and> extra_source as ls cs"
  using assms
proof (induction ls as cs0 rule: extra_attempts.induct)
  case (4 ls p cache as cs0)
  let ?listed = "filter (\<lambda>c. selects ls (nc_Labels c)) cache"
  let ?names = "set (ExtraPODCIDRTemplateNames (pod_ExtraTemplates p))"
  obtain ts' ok where loop: "serve_loop ?listed ?names = (ts', ok)"
    by (cases "serve_loop ?listed ?names")
  show ?case
  proof (cases "ok \<and> ts' = {}")
    case True
    with 4(2) loop have cs: "cs = ?listed" by simp
    have all: "\<forall>c \<in> set ?listed. claim_served c" "?names \<subseteq> template_of ` set ?listed"
      using serve_loop_done [of ?listed ?names ts'] loop True by auto
    from all(2) have "extra_source ((Some p, Some cache) # as) ls ?listed"
      unfolding extra_source_def by (intro exI [of _ p] exI [of _ cache]) (simp del: set_filter)
    with all(1) show ?thesis unfolding cs by simp
  next
    case False
    with 4(2) loop have rest: "extra_attempts ls as ?listed = (cs, True)" by (simp split: if_splits)
    from "4.IH" [OF refl loop [symmetric] False rest] show ?thesis by (simp add: extra_source_Cons)
  qed
qed (simp_all add: extra_source_Cons)

definition example_pod_claim :: "Labels.labels node_claim" where
  "example_pod_claim = labelled_claim (origin_labels (PodClaim ''c'' ''x'' ''t'')) ''2''"

lemma example_served:
  "GetPodCIDRs \<lparr>h_clusterName = ''c'', h_nodeName = ''x'', h_podAddressClaimTemplates = [''t'']\<rparr> [Some (cp_claims example_plane)] =
     ([example_pod_claim], True)"
  by (simp add: GetPodCIDRs_def example_plane_def example_pod_claim_def labelled_claim_def selects_PodCIDRType claim_served_def ready_at_def Let_def)
    (simp add: label_def label_sets Let_def)

section \<open>Property\<close>



end
