(* ===== verification/PodAddrs.thy ===== *)
theory PodAddrs
  imports PodNet CniServer
begin

text \<open>
  The CNI plugins \<open>tetra-pod-ipam\<close> and \<open>tetra-extra-routes\<close> of \<open>tetracni/cmd\<close>, which get the claims of
  the node or of a pod from the daemon: the address ranges handed to the IPAM plugin, and the
  routes to a pod's extra addresses. Parsers, the address library, the routing table and the
  delegated plugin are parameters.
\<close>

section \<open>tetra-pod-ipam\<close>

record ipam_conf =
  ic_SocketPath :: string
  ic_IPAMPlugin :: string
  ic_ReserveAddress :: string

definition ipam_LoadConfig :: "ipam_conf \<Rightarrow> ipam_conf option" where
  "ipam_LoadConfig c =
     (let c = c\<lparr>ic_SocketPath := or_default (ic_SocketPath c) ''/run/tetrapod/cni.sock'',
                ic_IPAMPlugin := or_default (ic_IPAMPlugin c) ''host-local''\<rparr>
      in if ic_ReserveAddress c = [] then Some (c\<lparr>ic_ReserveAddress := ''last''\<rparr>)
         else if ic_ReserveAddress c \<in> {''last'', ''off''} then Some c else None)"

record ip_range =
  ir_Subnet :: ip_net
  ir_RangeStart :: ip_addr
  ir_RangeEnd :: ip_addr

text \<open>The outer \<open>None\<close> is an error, after which the configuration is not used.\<close>

fun mutate_loop :: "(string \<Rightarrow> ip_net option) \<Rightarrow> 'b range_lib \<Rightarrow> string \<Rightarrow> 's node_claim list \<Rightarrow> ip_range list list
    \<Rightarrow> ip_range list list option outcome" where
  "mutate_loop ParseCIDR L reserve [] ranges = Returns (Some ranges)"
| "mutate_loop ParseCIDR L reserve (c # cs) ranges =
     (case ParseCIDR (cs_CIDR (cc_Status c)) of
        None \<Rightarrow> Returns None
      | Some cidr \<Rightarrow>
          deref (rl_New L cidr) (\<lambda>ipAddr.
            let rangeStart = rl_Increment L (rl_GetLower L ipAddr) 1;
                rangeEnd = rl_Increment L (rl_GetUpper L ipAddr) (- 1)
            in bind_outcome (if reserve = ''last'' then deref rangeEnd (\<lambda>e. Returns (rl_Increment L e (- 1))) else Returns rangeEnd)
                 (\<lambda>rangeEnd. deref rangeStart (\<lambda>s. deref rangeEnd (\<lambda>e.
                   mutate_loop ParseCIDR L reserve cs
                     (ranges @ [[\<lparr>ir_Subnet = cidr, ir_RangeStart = rl_GetNetIP L s, ir_RangeEnd = rl_GetNetIP L e\<rparr>]]))))))"

definition MutateConfig :: "(string \<Rightarrow> ip_net option) \<Rightarrow> 'b range_lib \<Rightarrow> 's node_claim list option \<Rightarrow> ipam_conf \<Rightarrow> ip_range list list
    \<Rightarrow> ip_range list list option outcome" where
  "MutateConfig ParseCIDR L claims config ranges =
     (case claims of None \<Rightarrow> Returns None | Some cs \<Rightarrow> mutate_loop ParseCIDR L (ic_ReserveAddress config) cs ranges)"

definition prepareConfig :: "(string \<Rightarrow> ip_net option) \<Rightarrow> 'b range_lib \<Rightarrow> 's node_claim list option \<Rightarrow> ipam_conf \<Rightarrow> ip_range list list
    \<Rightarrow> (ipam_conf \<times> ip_range list list) option outcome" where
  "prepareConfig ParseCIDR L claims conf ranges =
     (case ipam_LoadConfig conf of
        None \<Rightarrow> Returns None
      | Some config \<Rightarrow> bind_outcome (MutateConfig ParseCIDR L claims config ranges) (\<lambda>r. Returns (map_option (Pair config) r)))"

text \<open>
  The three commands run the delegated plugin on the prepared ranges and differ in the call:
  \<open>exec\<close> is given the name of the plugin and the ranges.
\<close>

definition ipam_cmd :: "(string \<Rightarrow> ip_range list list \<Rightarrow> 'r option) \<Rightarrow> (string \<Rightarrow> ip_net option) \<Rightarrow> 'b range_lib \<Rightarrow> 's node_claim list option
    \<Rightarrow> ipam_conf \<Rightarrow> ip_range list list \<Rightarrow> 'r option outcome" where
  "ipam_cmd exec ParseCIDR L claims conf ranges =
     bind_outcome (prepareConfig ParseCIDR L claims conf ranges) (\<lambda>r.
       Returns (case r of None \<Rightarrow> None | Some (config, ranges) \<Rightarrow> exec (ic_IPAMPlugin config) ranges))"

section \<open>tetra-extra-routes\<close>

record 'n route_lib =
  rt_RouteList :: "int \<Rightarrow> 'n \<Rightarrow> nl_route list option"
  rt_RouteAdd :: "nl_route \<Rightarrow> 'n \<Rightarrow> 'n \<times> bool"

text \<open>\<open>None\<close> stands for an error.\<close>

definition loadExtraRoutes :: "'s node_claim list option \<Rightarrow> string list option" where
  "loadExtraRoutes claims =
     map_option (\<lambda>cs. map (\<lambda>c. cs_CIDR (cc_Status c)) (filter (\<lambda>c. cs_CIDR (cc_Status c) \<noteq> []) cs)) claims"

definition vrfTable :: "(string \<Rightarrow> bool) \<Rightarrow> string \<Rightarrow> link list \<Rightarrow> int option" where
  "vrfTable F VRF ls =
     (if VRF = [] then Some 0
      else case LinkByName F VRF ls of
             Found link \<Rightarrow> (case ln_Kind link of Vrf table \<Rightarrow> Some (int table) | _ \<Rightarrow> None)
           | _ \<Rightarrow> None)"

text \<open>The last device of the host that is a veth; the inner \<open>None\<close> is that there is none.\<close>

fun last_veth :: "(string \<Rightarrow> bool) \<Rightarrow> cni_iface list \<Rightarrow> link list \<Rightarrow> link option \<Rightarrow> link option option" where
  "last_veth F [] ls veth = Some veth"
| "last_veth F (iface # is) ls veth =
     (if ci_Sandbox iface \<noteq> [] then last_veth F is ls veth
      else case LinkByName F (ci_Name iface) ls of
             Found link \<Rightarrow> last_veth F is ls (if ln_Kind link = Veth then Some link else veth)
           | _ \<Rightarrow> None)"

fun add_routes :: "(string \<Rightarrow> ip_net option) \<Rightarrow> 'n route_lib \<Rightarrow> int \<Rightarrow> int \<Rightarrow> string list \<Rightarrow> string list \<Rightarrow> 'n \<Rightarrow> 'n \<times> bool" where
  "add_routes ParseCIDR K ifindex table routesSet [] n = (n, True)"
| "add_routes ParseCIDR K ifindex table routesSet (r # rs) n =
     (case ParseCIDR r of
        None \<Rightarrow> (n, False)
      | Some cidr \<Rightarrow>
          if dst_String (Some cidr) \<in> set routesSet then add_routes ParseCIDR K ifindex table routesSet rs n
          else case rt_RouteAdd K \<lparr>nr_Dst = Some cidr, nr_LinkIndex = ifindex, nr_Table = table, nr_Scope = 0\<rparr> n of
                 (n', True) \<Rightarrow> add_routes ParseCIDR K ifindex table routesSet rs n'
               | (n', False) \<Rightarrow> (n', False))"

fun check_routes :: "(string \<Rightarrow> ip_net option) \<Rightarrow> string list \<Rightarrow> string list \<Rightarrow> bool" where
  "check_routes ParseCIDR routesSet [] = True"
| "check_routes ParseCIDR routesSet (r # rs) =
     (case ParseCIDR r of
        None \<Rightarrow> False
      | Some cidr \<Rightarrow> if dst_String (Some cidr) \<in> set routesSet then check_routes ParseCIDR routesSet rs else False)"

text \<open>The steps that both commands begin with: the routes, the device, the table and what it holds.\<close>

definition extra_prepare :: "'n route_lib \<Rightarrow> (string \<Rightarrow> bool) \<Rightarrow> string \<Rightarrow> 's node_claim list option \<Rightarrow> cni_result \<Rightarrow> link list \<Rightarrow> 'n
    \<Rightarrow> (string list \<times> link \<times> int \<times> nl_route list) option" where
  "extra_prepare K F VRF claims result ls n =
     (case loadExtraRoutes claims of
        None \<Rightarrow> None
      | Some extraRoutes \<Rightarrow>
          (case last_veth F (cr_Interfaces result) ls None of
             Some (Some veth) \<Rightarrow>
               (case vrfTable F VRF ls of
                  None \<Rightarrow> None
                | Some table \<Rightarrow>
                    (case rt_RouteList K table n of None \<Rightarrow> None | Some routes \<Rightarrow> Some (extraRoutes, veth, table, routes)))
           | _ \<Rightarrow> None))"

definition extra_cmdAdd :: "(string \<Rightarrow> ip_net option) \<Rightarrow> 'n route_lib \<Rightarrow> (string \<Rightarrow> bool) \<Rightarrow> string \<Rightarrow> 's node_claim list option \<Rightarrow> cni_result
    \<Rightarrow> link list \<Rightarrow> 'n \<Rightarrow> 'n \<times> bool" where
  "extra_cmdAdd ParseCIDR K F VRF claims result ls n =
     (case extra_prepare K F VRF claims result ls n of
        None \<Rightarrow> (n, False)
      | Some (extraRoutes, veth, table, routes) \<Rightarrow>
          add_routes ParseCIDR K (int (ln_Index veth)) table (map route_key routes) extraRoutes n)"

definition extra_cmdCheck :: "(string \<Rightarrow> ip_net option) \<Rightarrow> 'n route_lib \<Rightarrow> (string \<Rightarrow> bool) \<Rightarrow> string \<Rightarrow> 's node_claim list option \<Rightarrow> cni_result
    \<Rightarrow> link list \<Rightarrow> 'n \<Rightarrow> bool" where
  "extra_cmdCheck ParseCIDR K F VRF claims result ls n =
     (case extra_prepare K F VRF claims result ls n of
        None \<Rightarrow> False
      | Some (extraRoutes, veth, table, routes) \<Rightarrow> check_routes ParseCIDR (map route_key routes) extraRoutes)"

section \<open>The ranges of pods\<close>

definition ip_val :: "ip_addr \<Rightarrow> int" where
  "ip_val a = (case a of InvalidIP \<Rightarrow> 0 | IP4 w \<Rightarrow> uint w | IP6 w z \<Rightarrow> uint w)"

text \<open>The first and the last address of a network.\<close>

definition net_size :: "ip_net \<Rightarrow> int" where
  "net_size n = 2 ^ (bit_len (net_IP n) - net_ones n)"

definition net_first :: "ip_net \<Rightarrow> int" where
  "net_first n = ip_val (net_IP n) div net_size n * net_size n"

definition net_last :: "ip_net \<Rightarrow> int" where
  "net_last n = net_first n + net_size n - 1"

text \<open>
  What the documentation of the address library says: an address whose host part is zero stands for
  its whole network, with the first and the last address as bounds; increments are additions.
\<close>

definition range_laws :: "'b range_lib \<Rightarrow> bool" where
  "range_laws L \<longleftrightarrow>
     (\<forall>n a. rl_New L n = Some a \<longrightarrow> ip_val (net_IP n) = net_first n \<longrightarrow>
        ip_val (rl_GetNetIP L (rl_GetLower L a)) = net_first n \<and> ip_val (rl_GetNetIP L (rl_GetUpper L a)) = net_last n) \<and>
     (\<forall>b d b'. rl_Increment L b d = Some b' \<longrightarrow> ip_val (rl_GetNetIP L b') = ip_val (rl_GetNetIP L b) + d)"

text \<open>
  The range for a network: all of its addresses but the first, the last and, where it is
  reserved, the last but one. Only networks of at least four addresses leave one.
\<close>

definition range_for :: "string \<Rightarrow> ip_net \<Rightarrow> ip_range \<Rightarrow> bool" where
  "range_for reserve n r \<longleftrightarrow> ir_Subnet r = n \<and>
     (ip_val (net_IP n) = net_first n \<longrightarrow>
        {ip_val (ir_RangeStart r) .. ip_val (ir_RangeEnd r)} =
          {net_first n .. net_last n} - {net_first n, net_last n} - (if reserve = ''last'' then {net_last n - 1} else {}) \<and>
        ({ip_val (ir_RangeStart r) .. ip_val (ir_RangeEnd r)} = {} \<longleftrightarrow> net_size n < 4))"

lemma net_size_cases: "net_size n = 1 \<or> net_size n = 2 \<or> 4 \<le> net_size n"
proof -
  obtain k where k: "net_size n = 2 ^ k" by (simp add: net_size_def)
  have "k = 0 \<or> k = 1 \<or> (\<exists>j. k = j + 2)" by presburger
  then show ?thesis unfolding k by (auto simp: power_add)
qed

lemma range_forI:
  assumes "ip_val (net_IP n) = net_first n \<Longrightarrow> ip_val s = net_first n + 1"
    and "ip_val (net_IP n) = net_first n \<Longrightarrow> ip_val e = net_last n - (if reserve = ''last'' then 2 else 1)"
  shows "range_for reserve n \<lparr>ir_Subnet = n, ir_RangeStart = s, ir_RangeEnd = e\<rparr>"
  using net_size_cases [of n] assms by (auto simp: range_for_def net_last_def)

lemma deref_Returns: "deref x f = Returns y \<longleftrightarrow> (\<exists>b. x = Some b \<and> f b = Returns y)"
  by (simp add: deref_def split: option.split)

lemma mutate_loop_ok:
  assumes "range_laws L" "mutate_loop ParseCIDR L reserve cs ranges = Returns (Some ranges')"
  shows "\<exists>new. ranges' = ranges @ new \<and>
    list_all2 (\<lambda>c r. \<exists>n x. ParseCIDR (cs_CIDR (cc_Status c)) = Some n \<and> r = [x] \<and> range_for reserve n x) cs new"
  using assms(2)
proof (induction cs arbitrary: ranges)
  case (Cons c cs)
  from Cons.prems obtain n where n: "ParseCIDR (cs_CIDR (cc_Status c)) = Some n" by (cases "ParseCIDR (cs_CIDR (cc_Status c))") simp_all
  from Cons.prems n obtain a where a: "rl_New L n = Some a"
    by (auto simp: deref_Returns)
  from Cons.prems n a obtain s e where s: "rl_Increment L (rl_GetLower L a) 1 = Some s"
    and e: "(if reserve = ''last'' then deref (rl_Increment L (rl_GetUpper L a) (- 1)) (\<lambda>e. Returns (rl_Increment L e (- 1)))
        else Returns (rl_Increment L (rl_GetUpper L a) (- 1))) = Returns (Some e)"
    and rest: "mutate_loop ParseCIDR L reserve cs
      (ranges @ [[\<lparr>ir_Subnet = n, ir_RangeStart = rl_GetNetIP L s, ir_RangeEnd = rl_GetNetIP L e\<rparr>]]) = Returns (Some ranges')"
    by (auto simp: deref_Returns bind_outcome_eq_Returns Let_def)
  let ?r = "\<lparr>ir_Subnet = n, ir_RangeStart = rl_GetNetIP L s, ir_RangeEnd = rl_GetNetIP L e\<rparr>"
  from Cons.IH [OF rest] obtain new where new: "ranges' = (ranges @ [[?r]]) @ new"
    "list_all2 (\<lambda>c r. \<exists>n x. ParseCIDR (cs_CIDR (cc_Status c)) = Some n \<and> r = [x] \<and> range_for reserve n x) cs new"
    by blast
  have step: "ip_val (rl_GetNetIP L b') = ip_val (rl_GetNetIP L b) + d" if "rl_Increment L b d = Some b'" for b d b'
    using assms(1) that by (simp add: range_laws_def)
  have "range_for reserve n ?r"
  proof (rule range_forI)
    assume host: "ip_val (net_IP n) = net_first n"
    with assms(1) a have bounds: "ip_val (rl_GetNetIP L (rl_GetLower L a)) = net_first n"
      "ip_val (rl_GetNetIP L (rl_GetUpper L a)) = net_last n"
      by (simp_all add: range_laws_def)
    show "ip_val (rl_GetNetIP L s) = net_first n + 1" using step [OF s] bounds by simp
    show "ip_val (rl_GetNetIP L e) = net_last n - (if reserve = ''last'' then 2 else 1)"
      using e bounds step by (auto simp: deref_Returns split: if_splits)
  qed
  with n new show ?case by (intro exI [of _ "[?r] # new"]) simp
qed simp

section \<open>The routes of pods\<close>

text \<open>
  What the routing table promises: a route that was added is listed in its table, beside those that
  were listed before.
\<close>

definition route_laws :: "'n route_lib \<Rightarrow> bool" where
  "route_laws K \<longleftrightarrow>
     (\<forall>r n n' rs. rt_RouteAdd K r n = (n', True) \<longrightarrow> rt_RouteList K (nr_Table r) n = Some rs \<longrightarrow>
        (\<exists>rs'. rt_RouteList K (nr_Table r) n' = Some rs' \<and> route_key ` set rs' = insert (route_key r) (route_key ` set rs)))"

lemma route_lawsD:
  assumes "route_laws K" "rt_RouteAdd K r n = (n', True)" "rt_RouteList K (nr_Table r) n = Some rs"
  shows "\<exists>rs'. rt_RouteList K (nr_Table r) n' = Some rs' \<and> route_key ` set rs' = insert (route_key r) (route_key ` set rs)"
  using assms by (auto simp: route_laws_def)

definition parsed :: "(string \<Rightarrow> ip_net option) \<Rightarrow> string list \<Rightarrow> string set" where
  "parsed ParseCIDR rs = {dst_String (Some cidr) |cidr. \<exists>r \<in> set rs. ParseCIDR r = Some cidr}"

lemma parsed_simps [simp]:
  "parsed P [] = {}"
  "P r = Some c \<Longrightarrow> parsed P (r # rs) = insert (dst_String (Some c)) (parsed P rs)"
  by (auto simp: parsed_def)

lemma add_routes_ok:
  assumes "route_laws K" "add_routes P K i t known rs n = (n', True)" "rt_RouteList K t n = Some old"
    and "set known \<subseteq> route_key ` set old"
  shows "(\<forall>r \<in> set rs. \<exists>c. P r = Some c) \<and> (\<exists>new. rt_RouteList K t n' = Some new \<and>
    route_key ` set new = route_key ` set old \<union> parsed P rs)"
  using assms(2-)
proof (induction rs arbitrary: n old)
  case (Cons r rs)
  from Cons.prems(1) obtain c where c: "P r = Some c" by (cases "P r") simp_all
  show ?case
  proof (cases "dst_String (Some c) \<in> set known")
    case True
    with Cons.prems c have "add_routes P K i t known rs n = (n', True)" by simp
    from Cons.IH [OF this Cons.prems(2,3)] True c Cons.prems(3) show ?thesis by auto
  next
    case False
    let ?r = "\<lparr>nr_Dst = Some c, nr_LinkIndex = i, nr_Table = t, nr_Scope = 0\<rparr>"
    from Cons.prems(1) c False obtain n1 where n1: "rt_RouteAdd K ?r n = (n1, True)"
      and rest: "add_routes P K i t known rs n1 = (n', True)"
      by (auto split: prod.splits bool.splits)
    have key: "route_key ?r = dst_String (Some c)" "nr_Table ?r = t" by (simp_all add: route_key_def)
    from route_lawsD [OF assms(1) n1] Cons.prems(2) key obtain mid where mid: "rt_RouteList K t n1 = Some mid"
      "route_key ` set mid = insert (dst_String (Some c)) (route_key ` set old)" by auto
    from mid(2) Cons.prems(3) have "set known \<subseteq> route_key ` set mid" by blast
    from Cons.IH [OF rest mid(1) this] c mid(2) show ?thesis by auto
  qed
qed simp

lemma check_routes_iff:
  "check_routes P known rs \<longleftrightarrow> (\<forall>r \<in> set rs. \<exists>c. P r = Some c) \<and> parsed P rs \<subseteq> set known"
proof (induction rs)
  case (Cons r rs)
  show ?case
  proof (cases "P r")
    case None
    then show ?thesis by simp
  next
    case (Some c)
    with Cons.IH show ?thesis by auto
  qed
qed simp

section \<open>An example library\<close>

lemma is_4_cases: "is_4 a \<Longrightarrow> \<exists>w. a = IP4 w"
  by (cases a) simp_all

lemma block_bounds:
  fixes x :: nat
  assumes "x < 2 ^ 32" "m \<le> 32"
  shows "x div 2 ^ m * 2 ^ m + 2 ^ m - 1 < 2 ^ 32"
proof -
  have "(2 :: nat) ^ 32 = 2 ^ (32 - m) * 2 ^ m"
    using assms(2) by (simp flip: power_add)
  then have "x div 2 ^ m < 2 ^ (32 - m)"
    using assms(1) by (simp add: less_mult_imp_div_less)
  then have "(x div 2 ^ m + 1) * 2 ^ m \<le> 2 ^ (32 - m) * 2 ^ m"
    by (intro mult_right_mono) simp_all
  also have "\<dots> = 2 ^ 32" using assms(2) by (simp flip: power_add)
  finally have "x div 2 ^ m * 2 ^ m + 2 ^ m \<le> 2 ^ 32" by (simp add: algebra_simps)
  moreover have "0 < (2 :: nat) ^ m" by simp
  ultimately show ?thesis by linarith
qed

lemma uint_small_nat: "x < 2 ^ 32 \<Longrightarrow> uint (word_of_nat x :: 32 word) = int x"
  by (simp add: unsigned_of_nat take_bit_nat_eq_self)

lemma int_minus_one: "0 < p \<Longrightarrow> int (a + p - Suc 0) = int a + int p - 1"
  by simp

lemma ip4_ranges_laws: "range_laws ip4_ranges"
proof -
  have "ip_val (net_IP b') = ip_val (net_IP b) + d" if inc: "rl_Increment ip4_ranges b d = Some b'" for b d b'
  proof -
    from inc have four: "is_4 (net_IP b)" by (simp add: ip4_ranges_def Let_def split: if_splits)
    then obtain w where w: "net_IP b = IP4 w" by (blast dest: is_4_cases)
    with inc have v: "0 \<le> uint w + d" "uint w + d < 2 ^ 32" "net_IP b' = IP4 (word_of_int (uint w + d))"
      by (auto simp: ip4_ranges_def Let_def ip4_of_def split: if_splits)
    have "uint (word_of_int (uint w + d) :: 32 word) = uint w + d"
      using v(1,2) by (simp only: uint_word_of_int) simp
    then show ?thesis by (simp add: ip_val_def v(3) w)
  qed
  moreover have "ip_val (net_IP (rl_GetLower ip4_ranges a)) = net_first n \<and> ip_val (net_IP (rl_GetUpper ip4_ranges a)) = net_last n"
    if new: "rl_New ip4_ranges n = Some a" for n a
  proof -
    from new have a: "a = n" "is_4 (net_IP n)" "net_ones n \<le> 32"
      by (simp_all add: ip4_ranges_def split: if_splits)
    then obtain w where w: "net_IP n = IP4 w" by (blast dest: is_4_cases)
    let ?m = "32 - net_ones n" and ?x = "unat w"
    have x: "?x < 2 ^ 32" using unsigned_less [of w] by simp
    have upper: "?x div 2 ^ ?m * 2 ^ ?m + 2 ^ ?m - 1 < 2 ^ 32" by (rule block_bounds [OF x]) simp
    have pos: "0 < (2 :: nat) ^ ?m" by simp
    from upper pos have lower: "?x div 2 ^ ?m * 2 ^ ?m < 2 ^ 32" by linarith
    have first: "net_first n = int (?x div 2 ^ ?m * 2 ^ ?m)"
      by (simp add: net_first_def net_size_def ip_val_def w bit_len_def zdiv_int)
    have last: "net_last n = int (?x div 2 ^ ?m * 2 ^ ?m + 2 ^ ?m - 1)"
      using pos by (simp add: net_last_def first net_size_def w bit_len_def int_minus_one [OF pos])
    show ?thesis
      unfolding first last
      by (simp add: ip4_ranges_def a(1) ip_val_def ip4_of_def w uint_small_nat [OF lower] uint_small_nat [OF upper [unfolded One_nat_def]] del: of_nat_mult of_nat_add)
  qed
  ultimately show ?thesis
    by (simp add: range_laws_def) (simp add: ip4_ranges_def)
qed

section \<open>The routes of pods\<close>

text \<open>
  A pod's extra routes are there after the command: where \<open>tetra-extra-routes\<close> succeeds, the
  destinations listed in its table are those of before and the CIDRs of the pod's extra claims,
  and nothing else; and its check succeeds as long as the claims and links are the same.
\<close>
lemma extra_routes_are_installed:
  assumes "route_laws K" "extra_cmdAdd ParseCIDR K F VRF claims result ls n = (n', True)"
  shows "\<exists>cs table old new. claims = Some cs \<and> vrfTable F VRF ls = Some table \<and>
    rt_RouteList K table n = Some old \<and> rt_RouteList K table n' = Some new \<and>
    route_key ` set new = route_key ` set old \<union>
      {dst_String (Some cidr) |cidr. \<exists>c \<in> set cs. cs_CIDR (cc_Status c) \<noteq> [] \<and> ParseCIDR (cs_CIDR (cc_Status c)) = Some cidr} \<and>
    extra_cmdCheck ParseCIDR K F VRF claims result ls n'"
proof -
  from assms(2) obtain extraRoutes veth table old where prep: "extra_prepare K F VRF claims result ls n = Some (extraRoutes, veth, table, old)"
    and add: "add_routes ParseCIDR K (int (ln_Index veth)) table (map route_key old) extraRoutes n = (n', True)"
    by (auto simp: extra_cmdAdd_def split: option.splits)
  from prep have parts: "loadExtraRoutes claims = Some extraRoutes" "last_veth F (cr_Interfaces result) ls None = Some (Some veth)"
    "vrfTable F VRF ls = Some table" "rt_RouteList K table n = Some old"
    by (auto simp: extra_prepare_def split: option.splits)
  from add_routes_ok [OF assms(1) add parts(4)] obtain new where new: "rt_RouteList K table n' = Some new"
    "route_key ` set new = route_key ` set old \<union> parsed ParseCIDR extraRoutes" "\<forall>r \<in> set extraRoutes. \<exists>c. ParseCIDR r = Some c"
    by auto
  from parts(1) obtain cs where cs: "claims = Some cs"
    "extraRoutes = map (\<lambda>c. cs_CIDR (cc_Status c)) (filter (\<lambda>c. cs_CIDR (cc_Status c) \<noteq> []) cs)"
    by (auto simp: loadExtraRoutes_def)
  have dests: "parsed ParseCIDR extraRoutes = {dst_String (Some cidr) |cidr. \<exists>c \<in> set cs. cs_CIDR (cc_Status c) \<noteq> [] \<and>
      ParseCIDR (cs_CIDR (cc_Status c)) = Some cidr}"
    by (auto simp: parsed_def cs(2))
  have "check_routes ParseCIDR (map route_key new) extraRoutes"
    using new(2,3) by (simp add: check_routes_iff)
  then have check: "extra_cmdCheck ParseCIDR K F VRF claims result ls n'"
    using parts new(1) by (simp add: extra_cmdCheck_def extra_prepare_def)
  show ?thesis
    by (intro exI conjI, rule cs(1), rule parts(3), rule parts(4), rule new(1), rule new(2) [unfolded dests], rule check)
qed

text \<open>A routing table with one table for everything.\<close>

definition list_routes :: "nl_route list route_lib" where
  "list_routes = \<lparr>rt_RouteList = (\<lambda>_ rs. Some rs), rt_RouteAdd = (\<lambda>r rs. (r # rs, True))\<rparr>"

end
