(* ===== verification/Mesh.thy ===== *)
theory Mesh
  imports Controllers
begin

text \<open>
  The control plane and the daemons of all nodes together: the allocator of \<open>controlplane/\<close> and
  the reconcilers of \<open>tetrad/controllers\<close> of any number of nodes take turns on the same objects. The
  whole refines the cluster of the allocator, so that its invariant holds of it, and it follows
  that no two peers are ever configured with a common address.
\<close>

section \<open>The system\<close>

record 's mesh =
  ms_plane :: "'s control_plane"
  ms_blocks :: "cidr_block list"

text \<open>What the allocator sees of the claims, and what its patch of a status changes.\<close>

definition claim_part :: "'s node_claim \<Rightarrow> 's cidr_claim" where
  "claim_part c = \<lparr>cc_Name = cc_Name c, cc_Generation = cc_Generation c, cc_Selector = cc_Selector c,
     cc_SizeBit = cc_SizeBit c, cc_Status = cc_Status c\<rparr>"

definition cluster_of :: "'s mesh \<Rightarrow> 's cluster" where
  "cluster_of m = \<lparr>cl_claims = map claim_part (cp_claims (ms_plane m)), cl_blocks = ms_blocks m\<rparr>"

definition write_statuses :: "'s cluster \<Rightarrow> 's mesh \<Rightarrow> 's mesh" where
  "write_statuses cl m = m\<lparr>ms_plane := (ms_plane m)\<lparr>cp_claims :=
     map (\<lambda>c. case get_claim (cc_Name c) cl of None \<Rightarrow> c | Some d \<Rightarrow> c\<lparr>cc_Status := cc_Status d\<rparr>)
       (cp_claims (ms_plane m))\<rparr>\<rparr>"

text \<open>
  The steps: reconciliations of the allocator and of the claimers, of the claims of pods and of the
  publication on any node, with any failing calls; and users, who write templates (of sizes that
  are not negative) and blocks, and delete claims and peers. A block has a name, and its CIDR is
  never changed: it is a function of the name.
\<close>

inductive mesh_step :: "'b ipaddr_lib \<Rightarrow> ('s \<Rightarrow> string + (Labels.labels \<Rightarrow> bool)) \<Rightarrow> (Labels.labels \<Rightarrow> 's)
    \<Rightarrow> (string \<Rightarrow> string) \<Rightarrow> 's mesh \<Rightarrow> 's mesh \<Rightarrow> bool" for L asSelector mk block_cidr where
  allocator: "\<forall>bs. set (shuffle bs) = set bs \<Longrightarrow>
     claim_Reconcile L asSelector shuffle fails name (cluster_of m) = Returns (cl', res) \<Longrightarrow>
     mesh_step L asSelector mk block_cidr m (write_statuses cl' m)"
| claimer: "claimer_Reconcile r failures name (ms_plane m) = (cp', ok, called) \<Longrightarrow>
     mesh_step L asSelector mk block_cidr m (m\<lparr>ms_plane := cp'\<rparr>)"
| extra: "extra_Reconcile q got fail_delete fail_node fails_at namespace name (ms_plane m) = (cp', ok) \<Longrightarrow>
     mesh_step L asSelector mk block_cidr m (m\<lparr>ms_plane := cp'\<rparr>)"
| publication: "node_sync_Reconcile mk fail_upsert p (ms_plane m) = (cp', ok) \<Longrightarrow>
     mesh_step L asSelector mk block_cidr m (m\<lparr>ms_plane := cp'\<rparr>)"
| templates: "\<forall>t \<in> set ts. 0 \<le> ct_SizeBit t \<Longrightarrow>
     mesh_step L asSelector mk block_cidr m (m\<lparr>ms_plane := (ms_plane m)\<lparr>cp_templates := ts\<rparr>\<rparr>)"
| blocks: "\<forall>b \<in> set bs. cb_Name b \<noteq> [] \<and> cb_CIDR b = block_cidr (cb_Name b) \<Longrightarrow>
     mesh_step L asSelector mk block_cidr m (m\<lparr>ms_blocks := bs\<rparr>)"
| delete_claim: "mesh_step L asSelector mk block_cidr m
     (m\<lparr>ms_plane := (ms_plane m)\<lparr>cp_claims := filter (\<lambda>c. cc_Name c \<noteq> name) (cp_claims (ms_plane m))\<rparr>\<rparr>)"
| delete_peer: "mesh_step L asSelector mk block_cidr m
     (m\<lparr>ms_plane := (ms_plane m)\<lparr>cp_peers := filter (\<lambda>p. pn_Name p \<noteq> name) (cp_peers (ms_plane m))\<rparr>\<rparr>)"

inductive mesh_reachable :: "'b ipaddr_lib \<Rightarrow> ('s \<Rightarrow> string + (Labels.labels \<Rightarrow> bool)) \<Rightarrow> (Labels.labels \<Rightarrow> 's)
    \<Rightarrow> (string \<Rightarrow> string) \<Rightarrow> 's mesh \<Rightarrow> bool" for L asSelector mk block_cidr where
  init: "mesh_reachable L asSelector mk block_cidr
     \<lparr>ms_plane = \<lparr>cp_claims = [], cp_templates = [], cp_peers = []\<rparr>, ms_blocks = []\<rparr>"
| step: "mesh_reachable L asSelector mk block_cidr m \<Longrightarrow> mesh_step L asSelector mk block_cidr m m' \<Longrightarrow>
     mesh_reachable L asSelector mk block_cidr m'"

section \<open>Changes of the claims as steps of the cluster\<close>

definition claims_cluster :: "'s node_claim list \<Rightarrow> cidr_block list \<Rightarrow> 's cluster" where
  "claims_cluster cs bs = \<lparr>cl_claims = map claim_part cs, cl_blocks = bs\<rparr>"

definition claims_steps :: "'b ipaddr_lib \<Rightarrow> ('s \<Rightarrow> string + (Labels.labels \<Rightarrow> bool)) \<Rightarrow> 's node_claim list
    \<Rightarrow> 's node_claim list \<Rightarrow> bool" where
  "claims_steps L asSelector cs cs' \<longleftrightarrow> cc_Status ` set cs' \<subseteq> insert no_status (cc_Status ` set cs) \<and>
     (distinct (map cc_Name cs) \<longrightarrow> distinct (map cc_Name cs') \<and>
     (\<forall>bs. (cluster_step L asSelector)\<^sup>*\<^sup>* (claims_cluster cs bs) (claims_cluster cs' bs)))"

lemma claims_steps_refl [simp]: "claims_steps L asSelector cs cs"
  by (auto simp: claims_steps_def)

lemma claims_steps_trans:
  "claims_steps L asSelector cs cs' \<Longrightarrow> claims_steps L asSelector cs' cs'' \<Longrightarrow> claims_steps L asSelector cs cs''"
  unfolding claims_steps_def by (fast intro: rtranclp_trans)

lemma claim_part_simps [simp]:
  "cc_Name (claim_part c) = cc_Name c" "cc_Status (claim_part c) = cc_Status c" "cc_SizeBit (claim_part c) = cc_SizeBit c"
  by (simp_all add: claim_part_def)

lemma delete_one_step:
  "claims_steps L asSelector cs (filter (\<lambda>c. cc_Name c \<noteq> name) cs)"
proof -
  have "cluster_step L asSelector (claims_cluster cs bs) (claims_cluster (filter (\<lambda>c. cc_Name c \<noteq> name) cs) bs)" for bs
    using cluster_step.delete [of L asSelector "claims_cluster cs bs" name]
    by (simp add: claims_cluster_def filter_map comp_def)
  then show ?thesis
    by (auto simp: claims_steps_def distinct_map_filter)
qed

lemma delete_names_steps:
  "claims_steps L asSelector cs (filter (\<lambda>c. cc_Name c \<notin> set names) cs)"
proof (induction names)
  case (Cons n names)
  have "filter (\<lambda>c. cc_Name c \<notin> set (n # names)) cs = filter (\<lambda>c. cc_Name c \<noteq> n) (filter (\<lambda>c. cc_Name c \<notin> set names) cs)"
    by (auto simp: conj_commute intro: filter_cong)
  with claims_steps_trans [OF Cons delete_one_step] show ?case by metis
qed simp

lemma delete_some_steps: "claims_steps L asSelector cs (filter P cs)"
proof (cases "distinct (map cc_Name cs)")
  case True
  have "filter P cs = filter (\<lambda>c. cc_Name c \<notin> set (map cc_Name (filter (\<lambda>c. \<not> P c) cs))) cs"
    using True by (intro filter_cong) (auto simp: distinct_map dest: inj_onD)
  with delete_names_steps show ?thesis by metis
qed (auto simp: claims_steps_def)

lemma set_claim_steps:
  assumes size: "0 \<le> ct_SizeBit tmpl" and a: "a \<in> set cs" "cc_Name a = name" and dist: "distinct (map cc_Name cs)"
  shows "(cluster_step L asSelector)\<^sup>*\<^sup>* (claims_cluster cs bs)
    (claims_cluster (map (\<lambda>c. if cc_Name c = name then set_claim ls tmpl owner c else c) cs) bs)"
proof -
  let ?f = "\<lambda>c. if cc_Name c = name then set_claim ls tmpl owner c else c"
  have only: "c = a" if "c \<in> set cs" "cc_Name c = name" for c
    using dist that a by (auto simp: distinct_map dest: inj_onD)
  show ?thesis
  proof (cases "cc_Selector a = ct_Selector tmpl \<and> cc_SizeBit a = ct_SizeBit tmpl")
    case True
    have "claim_part (?f c) = claim_part c" if "c \<in> set cs" for c
      using only [OF that] True by (auto simp: claim_part_def set_claim_def)
    then have "claims_cluster (map ?f cs) bs = claims_cluster cs bs"
      by (simp add: claims_cluster_def)
    then show ?thesis by simp
  next
    case False
    let ?g = "\<lambda>c. if cc_Name c = name then c\<lparr>cc_Generation := cc_Generation c + 1, cc_Selector := ct_Selector tmpl,
      cc_SizeBit := ct_SizeBit tmpl\<rparr> else c"
    have "claim_part (?f c) = ?g (claim_part c)" if "c \<in> set cs" for c
      using only [OF that] False by (auto simp: claim_part_def set_claim_def)
    then have eq: "claims_cluster (map ?f cs) bs =
        (claims_cluster cs bs)\<lparr>cl_claims := map ?g (cl_claims (claims_cluster cs bs))\<rparr>"
      by (simp add: claims_cluster_def)
    show ?thesis
      unfolding eq by (rule r_into_rtranclp) (rule cluster_step.edit [OF size])
  qed
qed

lemma upsert_steps:
  assumes "0 \<le> ct_SizeBit tmpl"
  shows "claims_steps L asSelector cs (upsert_claim name ls tmpl owner cs)"
proof (cases "find_named cc_Name name cs")
  case None
  then have fresh: "name \<notin> cc_Name ` set cs"
    by (simp add: find_named_None)
  have "cluster_step L asSelector (claims_cluster cs bs) (claims_cluster (upsert_claim name ls tmpl owner cs) bs)" for bs
    using cluster_step.create [of name "claims_cluster cs bs" "ct_SizeBit tmpl" L asSelector "ct_Selector tmpl"] fresh assms
    by (simp add: claims_cluster_def upsert_claim_def None new_claim_def claim_part_def image_image)
  then show ?thesis
    using fresh by (auto simp: claims_steps_def upsert_claim_def None new_claim_def)
next
  case (Some a)
  note a = find_named_SomeD [OF Some]
  let ?f = "\<lambda>c. if cc_Name c = name then set_claim ls tmpl owner c else c"
  have upsert: "upsert_claim name ls tmpl owner cs = map ?f cs"
    by (simp add: upsert_claim_def Some)
  have names: "map cc_Name (map ?f cs) = map cc_Name cs"
    by (simp add: if_distrib [of cc_Name] cong: if_cong)
  have "(cluster_step L asSelector)\<^sup>*\<^sup>* (claims_cluster cs bs) (claims_cluster (map ?f cs) bs)"
    if "distinct (map cc_Name cs)" for bs
    by (rule set_claim_steps [OF assms a [THEN conjunct1] a [THEN conjunct2] that])
  moreover have "map cc_Status (map ?f cs) = map cc_Status cs"
    by (simp add: if_distrib [of cc_Status] cong: if_cong)
  then have "cc_Status ` set (map ?f cs) = cc_Status ` set cs"
    by (metis set_map)
  ultimately show ?thesis
    unfolding claims_steps_def upsert names by blast
qed

lemma extra_loop_steps:
  assumes "\<forall>t \<in> set tmpls. 0 \<le> ct_SizeBit t"
  shows "claims_steps L asSelector cs (fst (extra_loop r fails namespace name owner tmpls ts cs))"
proof (induction ts arbitrary: cs)
  case (Cons t ts)
  show ?case
  proof (cases "find_named ct_Name (TrimSpace t) tmpls")
    case (Some tmpl)
    then have "0 \<le> ct_SizeBit tmpl"
      using assms find_named_SomeD by metis
    with Some Cons show ?thesis
      by (auto simp: Let_def intro: claims_steps_trans upsert_steps)
  qed (simp add: Let_def)
qed simp

text \<open>Whatever a reconciliation of a daemon does to the claims is a sequence of steps of the cluster.\<close>

lemma claimer_steps:
  assumes "\<forall>t \<in> set (cp_templates cp). 0 \<le> ct_SizeBit t" "claimer_Reconcile r fails name cp = (cp', ok, called)"
  shows "claims_steps L asSelector (cp_claims cp) (cp_claims cp') \<and> cp_templates cp' = cp_templates cp \<and> cp_peers cp' = cp_peers cp"
proof -
  have size: "0 \<le> ct_SizeBit tmpl" if "find_named ct_Name name (cp_templates cp) = Some tmpl" for tmpl
    using assms(1) find_named_SomeD [OF that] by blast
  show ?thesis
    using assms(2) size unfolding claimer_Reconcile_def
    by (auto simp: Let_def delete_selected_def delete_some_steps upsert_steps split: if_splits option.splits)
qed

lemma extra_steps:
  assumes "\<forall>t \<in> set (cp_templates cp). 0 \<le> ct_SizeBit t"
    and "extra_Reconcile q got fail_delete fail_node fails namespace name cp = (cp', ok)"
  shows "claims_steps L asSelector (cp_claims cp) (cp_claims cp') \<and> cp_templates cp' = cp_templates cp \<and> cp_peers cp' = cp_peers cp"
proof -
  have steps: "claims_steps L asSelector (cp_claims cp) cs"
    if "extra_loop q fails namespace name owner (cp_templates cp) ts (cp_claims cp) = (cs, ok')" for owner ts cs ok'
    using extra_loop_steps [OF assms(1), of L asSelector "cp_claims cp" q fails namespace name owner ts] that by simp
  show ?thesis
    using assms(2) steps unfolding extra_Reconcile_def deleteCIDRClaim_def
    by (auto simp: Let_def delete_selected_def delete_some_steps split: if_splits get_pod.splits prod.splits)
qed

section \<open>The allocator on the claims of the mesh\<close>

text \<open>A reconciliation of the allocator changes at most the status of its claim.\<close>

lemma claim_updateStatus_sets:
  "\<exists>s. fst (claim_updateStatus fails c status res cl) = cl \<or>
     fst (claim_updateStatus fails c status res cl) = IpAlloc.set_status (cc_Name c) s cl"
  by (auto simp: claim_updateStatus_def IpAlloc.set_status_def)

lemma claim_Reconcile_sets:
  assumes "claim_Reconcile L asSelector shuffle fails name cl = Returns (cl', res)"
  shows "cl' = cl \<or> (\<exists>s. cl' = IpAlloc.set_status name s cl)"
proof (cases "get_claim name cl")
  case None
  with assms show ?thesis by (simp add: claim_Reconcile_def)
next
  case (Some c)
  have sets: "cl' = cl \<or> (\<exists>s. cl' = IpAlloc.set_status name s cl)" if "claim_updateStatus fails c status r cl = (cl', res)" for status r
    using claim_updateStatus_sets [of fails c status r cl] that get_claim_SomeD [OF Some] by auto
  show ?thesis
    using assms Some sets unfolding claim_Reconcile_def
    by (auto simp: Let_def bind_outcome_eq_Returns split: if_splits sum.splits option.splits prod.splits)
qed

lemma get_claim_part:
  "distinct (map cc_Name cs) \<Longrightarrow> c \<in> set cs \<Longrightarrow> get_claim (cc_Name c) (claims_cluster cs bs) = Some (claim_part c)"
  by (induction cs) (auto simp: get_claim_def claims_cluster_def image_iff)

lemma cluster_of_eq: "cluster_of m = claims_cluster (cp_claims (ms_plane m)) (ms_blocks m)"
  by (simp add: cluster_of_def claims_cluster_def)

lemma write_statuses_same:
  assumes "distinct (map cc_Name (cp_claims (ms_plane m)))"
  shows "write_statuses (cluster_of m) m = m"
proof -
  have "(case get_claim (cc_Name c) (cluster_of m) of None \<Rightarrow> c | Some d \<Rightarrow> c\<lparr>cc_Status := cc_Status d\<rparr>) = c"
    if "c \<in> set (cp_claims (ms_plane m))" for c
    using get_claim_part [OF assms that] by (simp add: cluster_of_eq)
  then have "map (\<lambda>c. case get_claim (cc_Name c) (cluster_of m) of None \<Rightarrow> c | Some d \<Rightarrow> c\<lparr>cc_Status := cc_Status d\<rparr>)
      (cp_claims (ms_plane m)) = cp_claims (ms_plane m)"
    by (rule map_idI)
  then show ?thesis by (simp add: write_statuses_def)
qed

lemma get_claim_set:
  "get_claim n (IpAlloc.set_status name s cl) =
     map_option (\<lambda>d. if n = name then d\<lparr>cc_Status := s\<rparr> else d) (get_claim n cl)"
proof -
  have "List.find (\<lambda>c. cc_Name c = n) (map (\<lambda>c. if cc_Name c = name then c\<lparr>cc_Status := s\<rparr> else c) cs) =
      map_option (\<lambda>d. if n = name then d\<lparr>cc_Status := s\<rparr> else d) (List.find (\<lambda>c. cc_Name c = n) cs)" for cs :: "'a cidr_claim list"
    by (induction cs) auto
  then show ?thesis by (simp add: get_claim_def IpAlloc.set_status_def)
qed

lemma write_statuses_set:
  assumes "distinct (map cc_Name (cp_claims (ms_plane m)))"
  shows "cp_claims (ms_plane (write_statuses (IpAlloc.set_status name s (cluster_of m)) m)) =
    map (\<lambda>c. if cc_Name c = name then c\<lparr>cc_Status := s\<rparr> else c) (cp_claims (ms_plane m))"
  using get_claim_part [OF assms, of _ "ms_blocks m"] by (auto simp: write_statuses_def get_claim_set cluster_of_eq)

lemma names_with_status [simp]:
  "map (cc_Name \<circ> (\<lambda>c. if cc_Name c = name then c\<lparr>cc_Status := s\<rparr> else c)) (cs :: 's node_claim list) = map cc_Name cs"
  by (induction cs) auto

lemma allocator_keeps_rest [simp]:
  "ms_blocks (write_statuses cl m) = ms_blocks m" "cp_templates (ms_plane (write_statuses cl m)) = cp_templates (ms_plane m)"
  "cp_peers (ms_plane (write_statuses cl m)) = cp_peers (ms_plane m)"
  by (simp_all add: write_statuses_def)

lemma allocator_refines:
  assumes "distinct (map cc_Name (cp_claims (ms_plane m)))"
    and "claim_Reconcile L asSelector shuffle fails name (cluster_of m) = Returns (cl', res)"
  shows "cluster_of (write_statuses cl' m) = cl' \<and> distinct (map cc_Name (cp_claims (ms_plane (write_statuses cl' m))))"
  using claim_Reconcile_sets [OF assms(2)]
proof (elim disjE exE)
  fix s assume cl': "cl' = IpAlloc.set_status name s (cluster_of m)"
  have "map claim_part (map (\<lambda>c. if cc_Name c = name then c\<lparr>cc_Status := s\<rparr> else c) (cp_claims (ms_plane m))) =
      map (\<lambda>c. if cc_Name c = name then c\<lparr>cc_Status := s\<rparr> else c) (map claim_part (cp_claims (ms_plane m)))"
    by (simp add: claim_part_def)
  then show ?thesis
    using assms(1) write_statuses_set [OF assms(1), of name s] unfolding cl'
    by (simp add: cluster_of_def [of "write_statuses _ _"] del: map_map)
      (simp add: cluster_of_def IpAlloc.set_status_def)
qed (use assms(1) write_statuses_same [OF assms(1)] in simp)

section \<open>What holds of the system\<close>

definition is_published :: "(Labels.labels \<Rightarrow> 's) \<Rightarrow> 's peer_node \<Rightarrow> bool" where
  "is_published mk p \<longleftrightarrow> (\<exists>r pc. p = published mk r pc)"

definition mesh_inv :: "'b ipaddr_lib \<Rightarrow> ('s \<Rightarrow> string + (Labels.labels \<Rightarrow> bool)) \<Rightarrow> (Labels.labels \<Rightarrow> 's)
    \<Rightarrow> (string \<Rightarrow> string) \<Rightarrow> 's mesh \<Rightarrow> bool" where
  "mesh_inv L asSelector mk block_cidr m \<longleftrightarrow>
     cluster_reachable L asSelector (cluster_of m) \<and> distinct (map cc_Name (cp_claims (ms_plane m))) \<and>
     (\<forall>t \<in> set (cp_templates (ms_plane m)). 0 \<le> ct_SizeBit t) \<and>
     (\<forall>b \<in> set (ms_blocks m). cb_Name b \<noteq> [] \<and> cb_CIDR b = block_cidr (cb_Name b)) \<and>
     (\<forall>p \<in> set (cp_peers (ms_plane m)). is_published mk p) \<and> distinct (map pn_Name (cp_peers (ms_plane m)))"

lemma cluster_reachable_steps:
  "(cluster_step L asSelector)\<^sup>*\<^sup>* cl cl' \<Longrightarrow> cluster_reachable L asSelector cl \<Longrightarrow> cluster_reachable L asSelector cl'"
  by (induction rule: rtranclp_induct) (auto intro: cluster_reachable.step)

lemma claims_change_inv:
  assumes "mesh_inv L asSelector mk block_cidr m" "claims_steps L asSelector (cp_claims (ms_plane m)) (cp_claims cp')"
    and "cp_templates cp' = cp_templates (ms_plane m)" "cp_peers cp' = cp_peers (ms_plane m)"
  shows "mesh_inv L asSelector mk block_cidr (m\<lparr>ms_plane := cp'\<rparr>)"
  using assms cluster_reachable_steps [of L asSelector "claims_cluster (cp_claims (ms_plane m)) (ms_blocks m)"
    "claims_cluster (cp_claims cp') (ms_blocks m)"]
  unfolding mesh_inv_def claims_steps_def cluster_of_eq by auto

lemma node_sync_peers:
  assumes "node_sync_Reconcile mk fail_upsert r cp = (cp', ok)"
    and "\<forall>p \<in> set (cp_peers cp). is_published mk p" "distinct (map pn_Name (cp_peers cp))"
  shows "cp_claims cp' = cp_claims cp \<and> cp_templates cp' = cp_templates cp \<and>
    (\<forall>p \<in> set (cp_peers cp'). is_published mk p) \<and> distinct (map pn_Name (cp_peers cp'))"
proof -
  have replaced: "map pn_Name (map (\<lambda>n. if pn_Name n = pn_Name node then node else n) ps) = map pn_Name ps"
    for node and ps :: "'a peer_node list"
    by (induction ps) auto
  show ?thesis
    using assms unfolding node_sync_Reconcile_def
    by (auto simp: Let_def is_published_def find_named_None split: if_splits option.splits simp del: map_map)
      (metis replaced)+
qed

lemma mesh_step_inv:
  assumes "mesh_step L asSelector mk block_cidr m m'" and inv: "mesh_inv L asSelector mk block_cidr m"
  shows "mesh_inv L asSelector mk block_cidr m'"
  using assms(1)
proof cases
  case (allocator shuffle fails name cl' res)
  from inv have "distinct (map cc_Name (cp_claims (ms_plane m)))"
    by (simp add: mesh_inv_def)
  note refines = allocator_refines [OF this allocator(3)]
  have "cluster_reachable L asSelector cl'"
    using inv cluster_step.reconcile [OF allocator(2,3)] cluster_reachable.step by (metis mesh_inv_def)
  with refines inv show ?thesis
    by (simp add: mesh_inv_def allocator(1))
next
  case (claimer r failures name cp' ok called)
  from inv have "\<forall>t \<in> set (cp_templates (ms_plane m)). 0 \<le> ct_SizeBit t"
    by (simp add: mesh_inv_def)
  from claimer_steps [OF this claimer(2), of L asSelector] show ?thesis
    unfolding claimer(1) by (intro claims_change_inv [OF inv]) simp_all
next
  case (extra q got fail_delete fail_node fails_at namespace name cp' ok)
  from inv have "\<forall>t \<in> set (cp_templates (ms_plane m)). 0 \<le> ct_SizeBit t"
    by (simp add: mesh_inv_def)
  from extra_steps [OF this extra(2), of L asSelector] show ?thesis
    unfolding extra(1) by (intro claims_change_inv [OF inv]) simp_all
next
  case (publication fail_upsert p cp' ok)
  with inv node_sync_peers [OF publication(2)] show ?thesis
    by (simp add: mesh_inv_def cluster_of_eq)
next
  case (templates ts)
  with inv show ?thesis by (simp add: mesh_inv_def cluster_of_eq)
next
  case (blocks bs)
  have "cluster_step L asSelector (cluster_of m) (cluster_of m')"
    using cluster_step.blocks [of L asSelector "cluster_of m" bs] by (simp add: blocks(1) cluster_of_def)
  with inv blocks show ?thesis
    by (auto simp: mesh_inv_def intro: cluster_reachable.step)
next
  case (delete_claim name)
  show ?thesis
    unfolding delete_claim by (rule claims_change_inv [OF inv]) (simp_all add: delete_one_step)
next
  case (delete_peer name)
  with inv show ?thesis by (simp add: mesh_inv_def cluster_of_eq distinct_map_filter)
qed

lemma mesh_reachable_inv: "mesh_reachable L asSelector mk block_cidr m \<Longrightarrow> mesh_inv L asSelector mk block_cidr m"
proof (induction rule: mesh_reachable.induct)
  case init
  then show ?case
    using cluster_reachable.init [of L asSelector "[]"] by (simp add: mesh_inv_def cluster_of_def no_claims_def)
next
  case (step m m')
  then show ?case using mesh_step_inv by blast
qed

section \<open>Where the claims lie\<close>

text \<open>A ready claim has a CIDR inside the block that it names.\<close>

definition placed :: "'b ipaddr_lib \<Rightarrow> ('b \<Rightarrow> nat set) \<Rightarrow> (string \<Rightarrow> string) \<Rightarrow> claim_status \<Rightarrow> bool" where
  "placed L den block_cidr s \<longleftrightarrow> (cs_State s = Ready \<longrightarrow> cs_CIDRBlockName s \<noteq> [] \<and>
     (\<exists>net. ia_GetAddress L (block_cidr (cs_CIDRBlockName s)) = Some net \<and>
        (\<forall>a. ia_GetAddress L (cs_CIDR s) = Some a \<longrightarrow> den a \<subseteq> den net)))"

definition all_placed :: "'b ipaddr_lib \<Rightarrow> ('b \<Rightarrow> nat set) \<Rightarrow> (string \<Rightarrow> string) \<Rightarrow> 's mesh \<Rightarrow> bool" where
  "all_placed L den block_cidr m \<longleftrightarrow> (\<forall>s \<in> cc_Status ` set (cp_claims (ms_plane m)). placed L den block_cidr s)"

lemma placed_no_status [simp]: "placed L den block_cidr no_status"
  by (simp add: placed_def no_status_def)

lemma same_allocation_placed: "same_allocation s t \<Longrightarrow> placed L den block_cidr t \<Longrightarrow> placed L den block_cidr s"
  by (simp add: same_allocation_def placed_def)

lemma reallocated_placed:
  assumes "reallocated L den asSelector cl c s" "\<forall>b \<in> set (cl_blocks cl). cb_Name b \<noteq> [] \<and> cb_CIDR b = block_cidr (cb_Name b)"
  shows "placed L den block_cidr s"
  using assms unfolding reallocated_def fits_def placed_def by fastforce

lemma claims_steps_placed:
  assumes "claims_steps L asSelector (cp_claims (ms_plane m)) (cp_claims (ms_plane m'))" "all_placed L' den block_cidr m"
  shows "all_placed L' den block_cidr m'"
  using assms unfolding claims_steps_def all_placed_def by force

lemma mesh_claims_inv:
  assumes "ipaddr_laws L den" "mesh_inv L asSelector mk block_cidr m"
  shows "claims_inv L den (cluster_of m)"
proof -
  from assms(2) have "cluster_reachable L asSelector (cluster_of m)"
    unfolding mesh_inv_def by (rule conjunct1)
  then show ?thesis by (rule reachable_claims_inv [OF assms(1)])
qed

lemma allocator_placed:
  assumes laws: "ipaddr_laws L den" and inv: "mesh_inv L asSelector mk block_cidr m" and placed: "all_placed L den block_cidr m"
    and shuffle: "\<forall>bs. set (shuffle bs) = set bs"
    and r: "claim_Reconcile L asSelector shuffle fails name (cluster_of m) = Returns (cl', res)"
  shows "all_placed L den block_cidr (write_statuses cl' m)"
proof -
  from inv have dist: "distinct (map cc_Name (cp_claims (ms_plane m)))"
    and blocks: "\<forall>b \<in> set (cl_blocks (cluster_of m)). cb_Name b \<noteq> [] \<and> cb_CIDR b = block_cidr (cb_Name b)"
    by (simp_all add: mesh_inv_def cluster_of_def)
  have "claims_inv L den (cluster_of m)"
    by (rule mesh_claims_inv [OF laws inv])
  then have "\<forall>c \<in> set (cl_claims (cluster_of m)). 0 \<le> cc_SizeBit c"
    by (simp add: claims_inv_def)
  from claim_Reconcile_effect [OF laws this shuffle, of asSelector name fails] r
  have "reconcile_effect L den asSelector name (cluster_of m) cl'"
    by (simp add: returns_effect_def)
  then consider "cl' = cluster_of m" | c s where "get_claim name (cluster_of m) = Some c"
      "cl' = IpAlloc.set_status name s (cluster_of m)"
      "same_allocation s (cc_Status c) \<or> reallocated L den asSelector (cluster_of m) c s"
    unfolding reconcile_effect_def by blast
  then show ?thesis
  proof cases
    case 1
    with placed write_statuses_same [OF dist] show ?thesis by simp
  next
    case (2 c s)
    from get_claim_SomeD [OF 2(1)] have "cc_Status c \<in> cc_Status ` set (cp_claims (ms_plane m))"
      by (auto simp: cluster_of_def)
    with placed have "placed L den block_cidr (cc_Status c)"
      unfolding all_placed_def by blast
    with 2(3) have "placed L den block_cidr s"
      by (elim disjE same_allocation_placed reallocated_placed [OF _ blocks])
    with placed show ?thesis
      unfolding 2(2) all_placed_def write_statuses_set [OF dist] by auto
  qed
qed

lemma mesh_step_placed:
  assumes laws: "ipaddr_laws L den" and "mesh_step L asSelector mk block_cidr m m'"
    and inv: "mesh_inv L asSelector mk block_cidr m" and placed: "all_placed L den block_cidr m"
  shows "all_placed L den block_cidr m'"
  using assms(2)
proof cases
  case (allocator shuffle fails name cl' res)
  then show ?thesis using allocator_placed [OF laws inv placed] by simp
next
  case (claimer r failures name cp' ok called)
  from inv have "\<forall>t \<in> set (cp_templates (ms_plane m)). 0 \<le> ct_SizeBit t"
    by (simp add: mesh_inv_def)
  from claimer_steps [OF this claimer(2), of L asSelector] show ?thesis
    using claims_steps_placed [OF _ placed, of L asSelector m'] by (simp add: claimer(1))
next
  case (extra q got fail_delete fail_node fails_at namespace name cp' ok)
  from inv have "\<forall>t \<in> set (cp_templates (ms_plane m)). 0 \<le> ct_SizeBit t"
    by (simp add: mesh_inv_def)
  from extra_steps [OF this extra(2), of L asSelector] show ?thesis
    using claims_steps_placed [OF _ placed, of L asSelector m'] by (simp add: extra(1))
next
  case (publication fail_upsert p cp' ok)
  from inv node_sync_peers [OF publication(2)] have "cp_claims cp' = cp_claims (ms_plane m)"
    by (simp add: mesh_inv_def)
  with placed show ?thesis by (simp add: publication(1) all_placed_def)
qed (use placed in \<open>auto simp: all_placed_def\<close>)

lemma mesh_reachable_placed:
  assumes "ipaddr_laws L den" "mesh_reachable L asSelector mk block_cidr m"
  shows "all_placed L den block_cidr m"
  using assms(2)
proof (induction rule: mesh_reachable.induct)
  case init
  then show ?case by (simp add: all_placed_def)
next
  case (step m m')
  with mesh_step_placed [OF assms(1) step(2) mesh_reachable_inv [OF step(1)]] show ?case by blast
qed

text \<open>Ready claims of different names have no common address, in whichever blocks they lie.\<close>

definition blocks_apart :: "'b ipaddr_lib \<Rightarrow> ('b \<Rightarrow> nat set) \<Rightarrow> (string \<Rightarrow> string) \<Rightarrow> bool" where
  "blocks_apart L den block_cidr \<longleftrightarrow> (\<forall>x y a b. x \<noteq> y \<longrightarrow> ia_GetAddress L (block_cidr x) = Some a \<longrightarrow>
     ia_GetAddress L (block_cidr y) = Some b \<longrightarrow> den a \<inter> den b = {})"

lemma ready_claims_disjoint:
  assumes laws: "ipaddr_laws L den" and m: "mesh_reachable L asSelector mk block_cidr m"
    and blocks: "blocks_apart L den block_cidr"
    and c: "c \<in> set (cp_claims (ms_plane m))" "ready c" "ia_GetAddress L (cs_CIDR (cc_Status c)) = Some a"
    and d: "d \<in> set (cp_claims (ms_plane m))" "ready d" "ia_GetAddress L (cs_CIDR (cc_Status d)) = Some b"
    and names: "cc_Name c \<noteq> cc_Name d"
  shows "den a \<inter> den b = {}"
proof (cases "cs_CIDRBlockName (cc_Status c) = cs_CIDRBlockName (cc_Status d)")
  case True
  from mesh_claims_inv [OF laws mesh_reachable_inv [OF m]] have "apart L den (cc_Status c) (cc_Status d)"
    using c(1) d(1) names by (simp add: claims_inv_def cluster_of_def)
  moreover have "cs_CIDRBlockName (cc_Status c) \<noteq> []"
    using mesh_reachable_placed [OF laws m] c by (auto simp: all_placed_def placed_def ready_def)
  ultimately show ?thesis
    using True c(3) d(3) by (simp add: apart_def)
next
  case False
  have inside: "\<exists>net. ia_GetAddress L (block_cidr (cs_CIDRBlockName (cc_Status x))) = Some net \<and> den u \<subseteq> den net"
    if "x \<in> set (cp_claims (ms_plane m))" "ready x" "ia_GetAddress L (cs_CIDR (cc_Status x)) = Some u" for x u
    using mesh_reachable_placed [OF laws m] that by (fastforce simp: all_placed_def placed_def ready_def)
  from inside [OF c] inside [OF d] blocks False show ?thesis unfolding blocks_apart_def by blast
qed

section \<open>What the peers are configured with\<close>

definition owned :: "'s peer_node \<Rightarrow> 's node_claim list \<Rightarrow> 's node_claim set" where
  "owned p claims = {c \<in> set claims. ready c \<and>
     (\<exists>cn n. pn_Name p = peerNodeName cn n \<and> pn_Labels p = ForNode cn n \<and> selects (ForNode cn n) (nc_Labels c))}"

lemma selects_ForNode_unique: "selects (ForNode c n) l \<Longrightarrow> selects (ForNode c' n') l \<Longrightarrow> c = c' \<and> n = n'"
  by (simp add: selects_def ForNode_def)

lemma owned_by_one:
  assumes "c \<in> owned p claims" "c \<in> owned q claims"
  shows "pn_Name p = pn_Name q"
proof -
  from assms(1) obtain cn n where p: "pn_Name p = peerNodeName cn n" "selects (ForNode cn n) (nc_Labels c)"
    unfolding owned_def by blast
  from assms(2) obtain cn' n' where q: "pn_Name q = peerNodeName cn' n'" "selects (ForNode cn' n') (nc_Labels c)"
    unfolding owned_def by blast
  from selects_ForNode_unique [OF p(2) q(2)] p(1) q(1) show ?thesis by simp
qed

lemma peer_configs_owned:
  assumes law: "\<And>l. asSelector (mk l) = Inr (selects l)"
    and "\<forall>p \<in> set ps. is_published mk p" "peer_configs asSelector fails claims ps = Some pcs"
  shows "list_all2 (\<lambda>p pc. pc_PublicKey pc = pn_PublicKey p \<and>
    set (pc_AllowedIPs pc) = set (pn_StaticRoutes p) \<union> (\<lambda>c. cs_CIDR (cc_Status c)) ` owned p claims) ps pcs"
  using assms(2,3)
proof (induction ps arbitrary: pcs)
  case (Cons p ps)
  from Cons.prems(1) obtain r pc where p: "p = published mk r pc"
    by (auto simp: is_published_def)
  let ?sel = "selects (ForNode (ps_ClusterName r) (ps_NodeName r))"
  from Cons.prems(2) obtain pcs' where pcs': "peer_configs asSelector fails claims ps = Some pcs'"
    "pcs = peer_config_of p (selects (NodeTypeForNode (ps_ClusterName r) (ps_NodeName r) []))
       (filter (\<lambda>c. ?sel (nc_Labels c)) claims) # pcs'"
    by (auto simp: p published_def law split: if_splits option.splits)
  have "owned p claims = {c \<in> set claims. ready c \<and> ?sel (nc_Labels c)}"
    by (auto simp: owned_def p published_def ForNode_def)
  with Cons.IH [OF _ pcs'(1)] Cons.prems(1) show ?case
    by (auto simp: pcs'(2) peer_config_of_def)
qed simp

lemma without_self_others:
  assumes "without_self ls ps = Some others"
  shows "set others \<subseteq> set ps \<and> (distinct (map pn_Name ps) \<longrightarrow> distinct (map pn_Name others))"
  using assms
proof (induction ps arbitrary: others)
  case (Cons p ps)
  show ?case
  proof (cases "has_labels ls (pn_Labels p)")
    case False
    with Cons.prems obtain rest where rest: "without_self ls ps = Some rest" "others = p # rest"
      by (auto split: option.splits)
    from Cons.IH [OF rest(1)] show ?thesis
      unfolding rest(2) by auto
  qed (use Cons.prems in auto)
qed simp

text \<open>
  No address belongs to two peers: in every reachable mesh whose blocks do not overlap, the
  configuration that a node makes for its engine allows no address for two different peers,
  static routes apart.
\<close>
lemma peers_apart:
  assumes laws: "ipaddr_laws L den" and law: "\<And>l. asSelector (mk l) = Inr (selects l)"
    and m: "mesh_reachable L asSelector mk block_cidr m"
    and blocks: "blocks_apart L den block_cidr"
    and run: "peers_Reconcile asSelector parse fails r (ms_plane m) = Reconfigured cfg"
    and peers: "i < length (tc_Peers cfg)" "j < length (tc_Peers cfg)" "i \<noteq> j"
    and s: "s \<in> set (pc_AllowedIPs (tc_Peers cfg ! i))" "ia_GetAddress L s = Some a"
    and s': "s' \<in> set (pc_AllowedIPs (tc_Peers cfg ! j))" "ia_GetAddress L s' = Some b"
    and static: "\<forall>p \<in> set (cp_peers (ms_plane m)). s \<notin> set (pn_StaticRoutes p) \<and> s' \<notin> set (pn_StaticRoutes p)"
  shows "den a \<inter> den b = {}"
proof -
  note inv = mesh_reachable_inv [OF m]
  let ?claims = "cp_claims (ms_plane m)"
  from run obtain others where others: "without_self (ForNode (sy_ClusterName r) (sy_NodeName r)) (cp_peers (ms_plane m)) = Some others"
    and pcs: "peer_configs asSelector (sf_list_claims fails) ?claims others = Some (tc_Peers cfg)"
    by (auto simp: peers_Reconcile_def split: if_splits option.splits)
  from without_self_others [OF others] inv have sub: "set others \<subseteq> set (cp_peers (ms_plane m))"
    and published: "\<forall>p \<in> set others. is_published mk p" and names: "distinct (map pn_Name others)"
    by (auto simp: mesh_inv_def)
  note all = peer_configs_owned [OF law published pcs]
  then have len: "length others = length (tc_Peers cfg)" by (rule list_all2_lengthD)
  have from_claim: "\<exists>c \<in> owned (others ! k) ?claims. t = cs_CIDR (cc_Status c)"
    if "k < length (tc_Peers cfg)" "t \<in> set (pc_AllowedIPs (tc_Peers cfg ! k))"
      "\<forall>p \<in> set (cp_peers (ms_plane m)). t \<notin> set (pn_StaticRoutes p)" for k t
  proof -
    have "others ! k \<in> set (cp_peers (ms_plane m))"
      using sub that(1) len by auto
    with list_all2_nthD2 [OF all that(1)] that(2,3) show ?thesis by blast
  qed
  from from_claim [OF peers(1) s(1)] static obtain c where c: "c \<in> owned (others ! i) ?claims" "s = cs_CIDR (cc_Status c)" by blast
  from from_claim [OF peers(2) s'(1)] static obtain d where d: "d \<in> owned (others ! j) ?claims" "s' = cs_CIDR (cc_Status d)" by blast
  have "pn_Name (others ! i) \<noteq> pn_Name (others ! j)"
    using names peers len by (simp add: distinct_conv_nth)
  with c(1) d(1) owned_by_one have "c \<noteq> d" by metis
  then have "cc_Name c \<noteq> cc_Name d"
    using inv c(1) d(1) by (auto simp: mesh_inv_def owned_def distinct_map dest: inj_onD)
  then show ?thesis
    using ready_claims_disjoint [OF laws m blocks, of c a d b] c d s(2) s'(2) by (simp add: owned_def)
qed

section \<open>An example\<close>

text \<open>Two nodes claim and get an address each; they and a third one publish themselves.\<close>

definition label_selector :: "Labels.labels \<Rightarrow> string + (Labels.labels \<Rightarrow> bool)" where
  "label_selector l = Inr (selects l)"

definition one_block :: "string \<Rightarrow> string" where
  "one_block name = (if name = ''b'' then ''/...'' else [])"

definition mesh_claim :: "string \<Rightarrow> claim_status \<Rightarrow> Labels.labels node_claim" where
  "mesh_claim n status = \<lparr>cc_Name = n, cc_Generation = 1, cc_Selector = [], cc_SizeBit = 0, cc_Status = status,
     nc_Labels = NodeTypeForNode ''c'' n ''t'', nc_Owners = []\<rparr>"

definition mesh_claimer :: "string \<Rightarrow> Labels.labels claimer" where
  "mesh_claimer n = \<lparr>cl_ClusterName = ''c'', cl_NodeName = n, cl_TemplateNames = [''t''], cl_ClaimNameGenerator = (\<lambda>_. n),
     cl_Labels = NodeTypeForNode ''c'' n, cl_AllocatedCallback = False\<rparr>"

definition mesh_node :: "string \<Rightarrow> peer_node_sync" where
  "mesh_node n = \<lparr>ps_ClusterName = ''c'', ps_NodeName = n, ps_StaticAdvertisedRoutes = [], ps_peerConfig = Some example_announcement\<rparr>"

definition mesh_peer :: "string \<Rightarrow> Labels.labels peer_node" where
  "mesh_peer n = published id (mesh_node n) example_announcement"

definition example_mesh :: "claim_status list \<Rightarrow> string list \<Rightarrow> Labels.labels mesh" where
  "example_mesh ss ns = \<lparr>ms_plane = \<lparr>cp_claims = map2 mesh_claim [''x'', ''y''] ss,
     cp_templates = [\<lparr>ct_Name = ''t'', ct_Selector = [], ct_SizeBit = 0\<rparr>], cp_peers = map mesh_peer ns\<rparr>,
     ms_blocks = example_blocks\<rparr>"

lemmas example_mesh_defs = example_mesh_def mesh_claim_def mesh_peer_def mesh_node_def mesh_claimer_def

lemma example_claims:
  "fst (claimer_Reconcile (mesh_claimer ''x'') no_claimer_failures ''t'' (ms_plane (example_mesh [] []))) =
     ms_plane (example_mesh [no_status] [])"
  "fst (claimer_Reconcile (mesh_claimer ''y'') no_claimer_failures ''t'' (ms_plane (example_mesh [no_status] []))) =
     ms_plane (example_mesh [no_status, no_status] [])"
  by (simp_all add: claimer_Reconcile_def example_mesh_defs no_claimer_failures_def find_named_def upsert_claim_def new_claim_def Let_def no_status_def)

lemma example_allocations:
  "claim_Reconcile range_lib label_selector id no_failures ''x'' (cluster_of (example_mesh [no_status, no_status] [])) =
     Returns (cluster_of (example_mesh [ready_at ''./'', no_status] []), Done)"
  "claim_Reconcile range_lib label_selector id no_failures ''y'' (cluster_of (example_mesh [ready_at ''./'', no_status] [])) =
     Returns (cluster_of (example_mesh [ready_at ''./'', ready_at ''../''] []), Done)"
  by code_simp+

lemma example_writes:
  "write_statuses (cluster_of (example_mesh [ready_at ''./'', no_status] [])) (example_mesh [no_status, no_status] []) =
     example_mesh [ready_at ''./'', no_status] []"
  "write_statuses (cluster_of (example_mesh [ready_at ''./'', ready_at ''../''] [])) (example_mesh [ready_at ''./'', no_status] []) =
     example_mesh [ready_at ''./'', ready_at ''../''] []"
  by (simp_all add: write_statuses_def cluster_of_def claim_part_def get_claim_def example_mesh_defs)

lemma example_publications:
  "node_sync_Reconcile id False (mesh_node ''x'') (ms_plane (example_mesh ss [])) = (ms_plane (example_mesh ss [''x'']), True)"
  "node_sync_Reconcile id False (mesh_node ''y'') (ms_plane (example_mesh ss [''x''])) = (ms_plane (example_mesh ss [''x'', ''y'']), True)"
  "node_sync_Reconcile id False (mesh_node ''z'') (ms_plane (example_mesh ss [''x'', ''y''])) =
     (ms_plane (example_mesh ss [''x'', ''y'', ''z'']), True)"
  by (simp_all add: node_sync_Reconcile_def example_mesh_defs published_def find_named_def peerNodeName_def)

lemma example_plane_update: "(example_mesh ss ns)\<lparr>ms_plane := ms_plane (example_mesh ss' ns')\<rparr> = example_mesh ss' ns'"
  by (simp add: example_mesh_def)

definition final_mesh :: "Labels.labels mesh" where
  "final_mesh = example_mesh [ready_at ''./'', ready_at ''../''] [''x'', ''y'', ''z'']"

lemma final_mesh_reachable: "mesh_reachable range_lib label_selector id one_block final_mesh"
proof -
  let ?R = "mesh_reachable range_lib label_selector id one_block"
  note step = mesh_reachable.step [where L = range_lib and asSelector = label_selector and mk = id and block_cidr = one_block]
  have plane: "?R m \<Longrightarrow> mesh_step range_lib label_selector id one_block m m' \<Longrightarrow> m' = m'' \<Longrightarrow> ?R m''" for m m' m''
    using step by blast
  have 1: "?R (example_mesh [] [])"
    by (rule plane [OF plane [OF mesh_reachable.init mesh_step.templates [of "[\<lparr>ct_Name = ''t'', ct_Selector = [], ct_SizeBit = 0\<rparr>]"] refl]
          mesh_step.blocks [of example_blocks]])
      (simp_all add: example_blocks_def one_block_def example_mesh_def)
  have claim: "?R (m\<lparr>ms_plane := fst (claimer_Reconcile r f name (ms_plane m))\<rparr>)" if "?R m" for m r f name
    using step [OF that mesh_step.claimer] by (metis prod_cases3 fst_conv)
  have 2: "?R (example_mesh [no_status, no_status] [])"
    using claim [OF claim [OF 1, of "mesh_claimer ''x''" no_claimer_failures "''t''", unfolded example_claims example_plane_update],
        of "mesh_claimer ''y''" no_claimer_failures "''t''"]
    unfolding example_claims example_plane_update .
  have id: "\<forall>bs :: cidr_block list. set (id bs) = set bs" by simp
  have 3: "?R (example_mesh [ready_at ''./'', ready_at ''../''] [])"
    using step [OF step [OF 2 mesh_step.allocator [OF id example_allocations(1)], unfolded example_writes]
        mesh_step.allocator [OF id example_allocations(2)], unfolded example_writes] .
  show ?thesis
    using step [OF step [OF step [OF 3 mesh_step.publication [OF example_publications(1)], unfolded example_plane_update]
          mesh_step.publication [OF example_publications(2)], unfolded example_plane_update]
        mesh_step.publication [OF example_publications(3)], unfolded example_plane_update]
    unfolding final_mesh_def .
qed

definition mesh_sync :: peers_sync where
  "mesh_sync = example_sync\<lparr>sy_NodeName := ''z''\<rparr>"

section \<open>Properties\<close>



end
