(* ===== verification/Traffic.thy ===== *)
theory Traffic
  imports Mesh TetraEngine
begin

text \<open>
  From the claims of the control plane to the WireGuard device: a node's reconciliation of its peers
  (\<open>tetrad/controllers\<close>), the engine's conversion of them (\<open>tetraengine\<close>) and the differences that it
  sends to the device (\<open>tetraengine/wgengine\<close>), taken together. WireGuard itself is a parameter; what
  is used of it is how it sets peers and which peer may have a packet for an address. The
  statements are about IPv4 addresses.
\<close>

section \<open>The device\<close>

definition covers :: "ip_net \<Rightarrow> 32 word \<Rightarrow> bool" where
  "covers n x = (case net_IP n of
     IP4 w \<Rightarrow> drop_bit (32 - net_ones n) w = drop_bit (32 - net_ones n) x
   | _ \<Rightarrow> False)"

definition text_covers :: "string \<Rightarrow> 32 word \<Rightarrow> bool" where
  "text_covers s x = (case ParsePrefix s of None \<Rightarrow> False | Some p \<Rightarrow> covers (IPNet (pre_addr p) (pre_bits p)) x)"

text \<open>Networks of different lengths are different entries, whatever bits are behind the prefix.\<close>

definition same_net :: "ip_net \<Rightarrow> ip_net \<Rightarrow> bool" where
  "same_net a b \<longleftrightarrow> net_ones a = net_ones b \<and>
     (case (net_IP a, net_IP b) of
        (IP4 v, IP4 w) \<Rightarrow> drop_bit (32 - net_ones a) v = drop_bit (32 - net_ones a) w
      | (IP6 v _, IP6 w _) \<Rightarrow> drop_bit (128 - net_ones a) v = drop_bit (128 - net_ones a) w
      | _ \<Rightarrow> False)"

text \<open>
  The allowed networks of every peer of the device. As documented, a configuration without
  \<open>replace_peers\<close> changes the peers it names, \<open>remove\<close> deletes a peer, \<open>replace_allowed_ips\<close> drops the
  networks a peer has, and a network that is given to a peer is taken from the one that had it.
\<close>

type_synonym device = "key \<Rightarrow> ip_net list option"

definition set_allowed :: "wg_peer \<Rightarrow> device \<Rightarrow> device" where
  "set_allowed p d = (if wp_Remove p then d(wp_PublicKey p := None)
     else (\<lambda>k. if k = wp_PublicKey p
               then Some ((if wp_ReplaceAllowedIPs p then [] else case d k of None \<Rightarrow> [] | Some ns \<Rightarrow> ns) @ wp_AllowedIPs p)
               else map_option (filter (\<lambda>n. \<not> list_ex (same_net n) (wp_AllowedIPs p))) (d k)))"

definition configure :: "wg_config \<Rightarrow> device \<Rightarrow> device" where
  "configure c d = fold set_allowed (wc_Peers c) (if wc_ReplacePeers c then (\<lambda>_. None) else d)"

definition device_law :: "'n kernel \<Rightarrow> ('n \<Rightarrow> device) \<Rightarrow> bool" where
  "device_law K dev \<longleftrightarrow> (\<forall>c n n'. nk_ConfigureDevice K c n = (n', True) \<longrightarrow> dev n' = configure c (dev n))"

definition allowed :: "ip_net list option \<Rightarrow> 32 word \<Rightarrow> bool" where
  "allowed ns x = (case ns of None \<Rightarrow> False | Some ns \<Rightarrow> list_ex (\<lambda>n. covers n x) ns)"

text \<open>The networks that a list of peers, with different keys, gives to a key.\<close>

definition nets_of :: "wg_peer list \<Rightarrow> key \<Rightarrow> ip_net list option" where
  "nets_of ps k = map_option wp_AllowedIPs (peers_of ps k)"

section \<open>The networks of one address\<close>

lemma covers_same_net: "same_net a b \<Longrightarrow> covers a x \<Longrightarrow> covers b x"
  by (auto simp: same_net_def covers_def split: ip_addr.splits)

lemma covers_same_text:
  assumes "ipnet_String a = ipnet_String b" "unmap (net_IP a) = net_IP a" "unmap (net_IP b) = net_IP b"
  shows "covers a x = covers b x"
proof -
  have "covers b x" if cov: "covers a x" and texts: "ipnet_String a = ipnet_String b" "unmap (net_IP b) = net_IP b" for a b
  proof -
    obtain w where w: "net_IP a = IP4 w"
      using cov by (cases "net_IP a") (simp_all add: covers_def)
    have "ipnet_String (IPNet (net_IP b) (net_ones b)) = ipnet_String (IPNet (IP4 w) (net_ones a))"
      using texts(1) w by (cases a; cases b) simp
    from ipnet_String_ip4 [OF this texts(2)] cov w show ?thesis
      by (simp add: covers_def)
  qed
  with assms show ?thesis by metis
qed

definition unmapped :: "wg_peer list \<Rightarrow> bool" where
  "unmapped ps \<longleftrightarrow> (\<forall>p \<in> set ps. \<forall>n \<in> set (wp_AllowedIPs p). unmap (net_IP n) = net_IP n)"

lemma unmappedD: "unmapped ps \<Longrightarrow> peers_of ps k = Some p \<Longrightarrow> n \<in> set (wp_AllowedIPs p) \<Longrightarrow> unmap (net_IP n) = net_IP n"
  by (force simp: unmapped_def peers_of_def dest!: map_of_SomeD)

lemma not_differs_allowed:
  assumes "\<not> peer_differs e c" "\<forall>n \<in> set (wp_AllowedIPs e). unmap (net_IP n) = net_IP n"
    "\<forall>n \<in> set (wp_AllowedIPs c). unmap (net_IP n) = net_IP n"
  shows "allowed (Some (wp_AllowedIPs e)) x = allowed (Some (wp_AllowedIPs c)) x"
proof -
  have "list_all2 (\<lambda>a b. ipnet_String a = ipnet_String b) (wp_AllowedIPs e) (wp_AllowedIPs c)"
    using assms(1) by (auto simp: peer_differs_def list_all2_iff list_ex_iff)
  then have "list_all2 (\<lambda>a b. covers a x = covers b x) (wp_AllowedIPs e) (wp_AllowedIPs c)"
    unfolding list_all2_conv_all_nth using assms(2,3) by (metis covers_same_text nth_mem)
  then have "list_ex (\<lambda>n. covers n x) (wp_AllowedIPs e) = list_ex (\<lambda>n. covers n x) (wp_AllowedIPs c)"
    by (induction rule: list_all2_induct) simp_all
  then show ?thesis by (simp add: allowed_def)
qed

text \<open>What a list of peers with different keys, of which at most one covers the address, does to the device.\<close>

lemma allowed_set_allowed:
  assumes "wp_Remove p \<or> wp_ReplaceAllowedIPs p"
    and "allowed (d k) x \<Longrightarrow> k \<noteq> wp_PublicKey p \<Longrightarrow> \<not> wp_Remove p \<Longrightarrow> \<not> allowed (Some (wp_AllowedIPs p)) x"
  shows "allowed (set_allowed p d k) x =
    (if k = wp_PublicKey p then \<not> wp_Remove p \<and> allowed (Some (wp_AllowedIPs p)) x else allowed (d k) x)"
proof (cases "k = wp_PublicKey p \<or> wp_Remove p")
  case True
  with assms(1) show ?thesis
    by (auto simp: set_allowed_def allowed_def)
next
  case False
  have "list_ex (\<lambda>n. covers n x) (filter (\<lambda>n. \<not> list_ex (same_net n) (wp_AllowedIPs p)) ns) = list_ex (\<lambda>n. covers n x) ns"
    if "d k = Some ns" for ns
  proof -
    have "\<not> list_ex (same_net n) (wp_AllowedIPs p)" if "n \<in> set ns" "covers n x" for n
      using assms(2) False that \<open>d k = Some ns\<close> covers_same_net
      by (force simp: allowed_def list_ex_iff)
    then show ?thesis by (auto simp: list_ex_iff)
  qed
  with False show ?thesis
    by (auto simp: set_allowed_def allowed_def split: option.split)
qed

definition after_peers :: "wg_peer list \<Rightarrow> device \<Rightarrow> 32 word \<Rightarrow> key \<Rightarrow> bool" where
  "after_peers ps d x k = (case peers_of ps k of None \<Rightarrow> allowed (d k) x
     | Some p \<Rightarrow> \<not> wp_Remove p \<and> allowed (Some (wp_AllowedIPs p)) x)"

lemma allowed_fold:
  assumes "distinct (map wp_PublicKey ps)" "\<forall>p \<in> set ps. wp_Remove p \<or> wp_ReplaceAllowedIPs p"
    and "\<And>k k'. after_peers ps d x k \<Longrightarrow> after_peers ps d x k' \<Longrightarrow> k = k'"
  shows "allowed (fold set_allowed ps d k) x = after_peers ps d x k"
  using assms
proof (induction ps arbitrary: d)
  case Nil
  then show ?case by (simp add: after_peers_def peers_of_def)
next
  case (Cons p ps)
  let ?d = "set_allowed p d"
  have same: "after_peers ps ?d x k = after_peers (p # ps) d x k" for k
  proof (cases "peers_of ps k")
    case (Some q)
    then have "q \<in> set ps" "wp_PublicKey q = k"
      using Cons.prems(1) by (simp_all add: peers_of_Some)
    moreover have "wp_PublicKey p \<notin> wp_PublicKey ` set ps"
      using Cons.prems(1) by simp
    ultimately have "k \<noteq> wp_PublicKey p" by (metis imageI)
    with Some show ?thesis
      by (simp add: after_peers_def peers_of_def)
  next
    case None
    have own: "after_peers (p # ps) d x (wp_PublicKey p) = (\<not> wp_Remove p \<and> allowed (Some (wp_AllowedIPs p)) x)"
      by (simp add: after_peers_def peers_of_def)
    have other: "after_peers (p # ps) d x k = allowed (d k) x" if "k \<noteq> wp_PublicKey p"
      using that None by (simp add: after_peers_def peers_of_def)
    have "allowed (?d k) x = (if k = wp_PublicKey p then \<not> wp_Remove p \<and> allowed (Some (wp_AllowedIPs p)) x else allowed (d k) x)"
      using Cons.prems(2,3) own other by (intro allowed_set_allowed) auto
    with None own other show ?thesis
      by (auto simp: after_peers_def)
  qed
  have "allowed (fold set_allowed ps ?d k) x = after_peers ps ?d x k"
    using Cons.prems by (intro Cons.IH) (simp_all add: same)
  then show ?case by (simp add: same)
qed

section \<open>The engine and the device\<close>

text \<open>
  If the device agrees with the configuration that the engine remembers, then after a successful
  \<open>reconfigWireguard\<close> it agrees with the new one, as far as an address goes that at most one new
  peer has.
\<close>

definition agrees :: "device \<Rightarrow> wg_peer list \<Rightarrow> 32 word \<Rightarrow> bool" where
  "agrees d ps x \<longleftrightarrow> (\<forall>k. allowed (d k) x = allowed (nets_of ps k) x)"

lemma rel_same_allowed:
  assumes "rel_option (\<lambda>e p. \<not> peer_differs e p) (peers_of E k) r" "unmapped E"
    and "\<And>p n. r = Some p \<Longrightarrow> n \<in> set (wp_AllowedIPs p) \<Longrightarrow> unmap (net_IP n) = net_IP n"
  shows "allowed (map_option wp_AllowedIPs r) x = allowed (nets_of E k) x"
proof (cases "peers_of E k")
  case None
  with assms(1) show ?thesis by (cases r) (simp_all add: nets_of_def)
next
  case (Some e)
  with assms(1) obtain p where p: "r = Some p" "\<not> peer_differs e p" by (cases r) auto
  from not_differs_allowed [OF p(2), of x] unmappedD [OF assms(2) Some] assms(3) [OF p(1)] Some p(1)
  show ?thesis by (simp add: nets_of_def)
qed

lemma diff_entry:
  assumes "distinct (map wp_PublicKey E)" "distinct (map wp_PublicKey C)" "\<forall>e \<in> set E. wp_ReplaceAllowedIPs e"
    and "p \<in> set (diffPeers E C)"
  shows "wp_Remove p \<or> wp_ReplaceAllowedIPs p \<and> (\<exists>e \<in> set E. wp_AllowedIPs p = wp_AllowedIPs e)"
  using assms(3,4) unfolding diffPeers_members(1) [OF assms(1,2)] peer_change_defs by auto

lemma device_follows:
  assumes law: "device_law K dev" and E: "distinct (map wp_PublicKey (wc_Peers config))"
    and C: "distinct (map wp_PublicKey (wc_Peers (we_prevConfig e)))"
    and sets: "\<forall>p \<in> set (wc_Peers config). \<not> wp_Remove p \<and> wp_ReplaceAllowedIPs p"
    and plain: "unmapped (wc_Peers config)" "unmapped (wc_Peers (we_prevConfig e))"
    and one: "\<And>k k'. allowed (nets_of (wc_Peers config) k) x \<Longrightarrow> allowed (nets_of (wc_Peers config) k') x \<Longrightarrow> k = k'"
    and agree: "agrees (dev (we_net e)) (wc_Peers (we_prevConfig e)) x"
    and step: "reconfigWireguard K config e = (e', True)"
  shows "agrees (dev (we_net e')) (wc_Peers config) x"
proof -
  let ?E = "wc_Peers config" and ?C = "wc_Peers (we_prevConfig e)"
  let ?ps = "diffPeers ?E ?C"
  note dist = diffPeers_members(2) [OF E C] and entry = diff_entry [OF E C]
  have result: "allowed (map_option wp_AllowedIPs (apply_peers ?ps (peers_of ?C) k)) x = allowed (nets_of ?E k) x" for k
  proof (rule rel_same_allowed [OF diffPeers_effect [OF E C] plain(1)])
    fix p n
    assume p: "apply_peers ?ps (peers_of ?C) k = Some p" "n \<in> set (wp_AllowedIPs p)"
    then have "peers_of ?C k = Some p \<or> p \<in> set ?ps \<and> \<not> wp_Remove p"
      by (auto simp: apply_peers_at [OF dist] peers_of_Some [OF dist] split: option.splits if_splits)
    then show "unmap (net_IP n) = net_IP n"
      using p(2) entry [of p] sets plain unmappedD [OF plain(2)] by (auto simp: unmapped_def)
  qed (use sets in simp)
  have after: "after_peers ?ps d x k = allowed (nets_of ?E k) x" if "agrees d ?C x" for d k
    using that result [of k] unfolding after_peers_def apply_peers_at [OF dist] agrees_def nets_of_def
    by (auto simp: allowed_def split: option.splits if_splits)
  have "allowed (fold set_allowed ?ps d k) x = allowed (nets_of ?E k) x" if d: "agrees d ?C x" for d k
    unfolding after [OF d, symmetric]
    by (rule allowed_fold [OF dist]) (use entry sets one in \<open>auto simp: after [OF d]\<close>)
  then have fold: "agrees (fold set_allowed ?ps d) ?E x" if "agrees d ?C x" for d
    using that by (simp add: agrees_def)
  have "agrees (\<lambda>_. None) ?C x" if "?C = []"
    using that by (simp add: agrees_def nets_of_def peers_of_def allowed_def)
  then have replaced: "agrees (if ?C = [] then (\<lambda>_. None) else dev (we_net e)) ?C x"
    using agree by simp
  obtain diff hasDiff where diff: "diffConfigs config (we_prevConfig e) = (diff, hasDiff)" by fastforce
  then have fields: "wc_Peers diff = ?ps" "wc_ReplacePeers diff = (?C = [])" "\<not> hasDiff \<Longrightarrow> ?ps = []"
    by (auto simp: diffConfigs_def Let_def)
  have "agrees (configure diff (dev (we_net e))) ?E x"
    using fold [OF replaced] unfolding configure_def fields .
  moreover have "dev (we_net e') = configure diff (dev (we_net e)) \<or> e' = e \<and> ?ps = []"
    using step law fields(3) by (auto simp: reconfigWireguard_def device_law_def diff split: prod.splits if_splits bool.splits)
  ultimately show ?thesis
    using fold [OF agree] by auto
qed

text \<open>A new engine has no peers to remember, and its interface has none.\<close>

lemma new_device_agrees: "(\<And>k. d k = None) \<Longrightarrow> agrees d [] x"
  by (simp add: agrees_def nets_of_def peers_of_def allowed_def)

section \<open>From the configuration to the peers of the device\<close>

lemma parse_all_Some: "parse_all f xs = Some ys \<Longrightarrow> list_all2 (\<lambda>x y. f x = Some y) xs ys"
  by (induction xs arbitrary: ys) (auto split: option.splits)

lemma parse_all_exists: "(\<exists>ys. parse_all f xs = Some ys) \<longleftrightarrow> (\<forall>x \<in> set xs. f x \<noteq> None)"
  by (induction xs) (auto split: option.splits)

definition usable :: "lib \<Rightarrow> peer_config \<Rightarrow> key \<Rightarrow> bool" where
  "usable T pc k \<longleftrightarrow> lib_ParseKey T (pc_PublicKey pc) = Some k \<and> (\<forall>s \<in> set (pc_AllowedIPs pc). ParsePrefix s \<noteq> None)"

lemma wg_peer_of_Some:
  assumes "wg_peer_of T statuses pc = Some w"
  shows "usable T pc (wp_PublicKey w) \<and> \<not> wp_Remove w \<and> wp_ReplaceAllowedIPs w \<and>
    allowed (Some (wp_AllowedIPs w)) x = list_ex (\<lambda>s. text_covers s x) (pc_AllowedIPs pc)"
proof -
  from assms obtain prefixes where ps: "parse_all ParsePrefix (pc_AllowedIPs pc) = Some prefixes"
    and w: "lib_ParseKey T (pc_PublicKey pc) = Some (wp_PublicKey w)" "\<not> wp_Remove w" "wp_ReplaceAllowedIPs w"
      "wp_AllowedIPs w = map (\<lambda>p. IPNet (pre_addr p) (pre_bits p)) prefixes"
    by (auto simp: wg_peer_of_def toWGConfig_def split: option.splits if_splits)
  from ps have "list_all2 (\<lambda>s p. ParsePrefix s = Some p) (pc_AllowedIPs pc) prefixes"
    by (rule parse_all_Some)
  then have "list_ex (\<lambda>n. covers n x) (map (\<lambda>p. IPNet (pre_addr p) (pre_bits p)) prefixes) = list_ex (\<lambda>s. text_covers s x) (pc_AllowedIPs pc)"
    by (induction rule: list_all2_induct) (simp_all add: text_covers_def)
  moreover have "\<forall>s \<in> set (pc_AllowedIPs pc). ParsePrefix s \<noteq> None"
    using ps parse_all_exists [of ParsePrefix "pc_AllowedIPs pc"] by simp
  ultimately show ?thesis
    unfolding usable_def allowed_def w(4) option.case using w(1-3) by blast
qed

lemma wg_peer_of_exists:
  assumes "usable T pc k"
  shows "\<exists>w. wg_peer_of T statuses pc = Some w \<and> wp_PublicKey w = k"
proof -
  obtain prefixes where "parse_all ParsePrefix (pc_AllowedIPs pc) = Some prefixes"
    using assms parse_all_exists [of ParsePrefix "pc_AllowedIPs pc"] by (auto simp: usable_def)
  moreover have "lib_ParseKey T (pc_PublicKey pc) = Some k"
    using assms by (simp add: usable_def)
  ultimately show ?thesis
    by (cases "getDiscoStatus statuses (pc_PublicDiscoKey pc)") (simp_all add: wg_peer_of_def toWGConfig_def)
qed

lemma device_peers:
  assumes "distinct (map wp_PublicKey (List.map_filter (wg_peer_of T statuses) pcs))"
  shows "allowed (nets_of (List.map_filter (wg_peer_of T statuses) pcs) k) x \<longleftrightarrow>
    (\<exists>pc \<in> set pcs. usable T pc k \<and> list_ex (\<lambda>s. text_covers s x) (pc_AllowedIPs pc))"
proof -
  let ?ps = "List.map_filter (wg_peer_of T statuses) pcs"
  have members: "w \<in> set ?ps \<longleftrightarrow> (\<exists>pc \<in> set pcs. wg_peer_of T statuses pc = Some w)" for w
    by (force simp: set_map_filter)
  have "allowed (nets_of ?ps k) x \<longleftrightarrow> (\<exists>w \<in> set ?ps. wp_PublicKey w = k \<and> allowed (Some (wp_AllowedIPs w)) x)"
  proof (cases "peers_of ?ps k")
    case None
    then show ?thesis
      using None [unfolded peers_of_None] by (auto simp: nets_of_def None allowed_def)
  next
    case (Some w)
    then have "nets_of ?ps k = Some (wp_AllowedIPs w)"
      by (simp add: nets_of_def)
    moreover have "p \<in> set ?ps \<and> wp_PublicKey p = k \<longleftrightarrow> p = w" for p
      unfolding peers_of_Some [OF assms, symmetric] Some by auto
    ultimately show ?thesis by metis
  qed
  also have "\<dots> \<longleftrightarrow> (\<exists>pc \<in> set pcs. usable T pc k \<and> list_ex (\<lambda>s. text_covers s x) (pc_AllowedIPs pc))"
  proof (intro iffI; elim bexE conjE)
    fix w assume w: "w \<in> set ?ps" "wp_PublicKey w = k" "allowed (Some (wp_AllowedIPs w)) x"
    then obtain pc where pc: "pc \<in> set pcs" "wg_peer_of T statuses pc = Some w"
      using members by blast
    from wg_peer_of_Some [OF pc(2), of x] pc(1) w(2,3)
    show "\<exists>pc \<in> set pcs. usable T pc k \<and> list_ex (\<lambda>s. text_covers s x) (pc_AllowedIPs pc)" by auto
  next
    fix pc assume pc: "pc \<in> set pcs" "usable T pc k" "list_ex (\<lambda>s. text_covers s x) (pc_AllowedIPs pc)"
    obtain w where w: "wg_peer_of T statuses pc = Some w" "wp_PublicKey w = k"
      using wg_peer_of_exists [OF pc(2)] by blast
    from wg_peer_of_Some [OF w(1), of x] pc(3) have "allowed (Some (wp_AllowedIPs w)) x" by simp
    with w pc(1) members show "\<exists>w \<in> set ?ps. wp_PublicKey w = k \<and> allowed (Some (wp_AllowedIPs w)) x" by blast
  qed
  finally show ?thesis .
qed

section \<open>From the claims to the peers\<close>

text \<open>Both parsers read an IPv4 network as the same addresses.\<close>

definition parsers_agree :: "'b ipaddr_lib \<Rightarrow> ('b \<Rightarrow> nat set) \<Rightarrow> bool" where
  "parsers_agree L den \<longleftrightarrow> (\<forall>s w n. ParsePrefix s = Some (Prefix (IP4 w) n) \<longrightarrow>
     (\<exists>a. ia_GetAddress L s = Some a \<and> (\<forall>x. covers (IPNet (IP4 w) n) x \<longrightarrow> unat x \<in> den a)))"

lemma text_covers_den:
  assumes "parsers_agree L den" "text_covers s x"
  shows "\<exists>a. ia_GetAddress L s = Some a \<and> unat x \<in> den a"
proof -
  from assms(2) obtain p where p: "ParsePrefix s = Some p" "covers (IPNet (pre_addr p) (pre_bits p)) x"
    by (auto simp: text_covers_def split: option.splits)
  then obtain w where "pre_addr p = IP4 w"
    by (cases "pre_addr p") (simp_all add: covers_def)
  with p assms(1) show ?thesis
    unfolding parsers_agree_def by (metis prefix.collapse)
qed

definition announced :: "'s peer_node \<Rightarrow> 's node_claim list \<Rightarrow> string set" where
  "announced q claims = set (pn_StaticRoutes q) \<union> (\<lambda>c. cs_CIDR (cc_Status c)) ` owned q claims"

text \<open>Some node other than the one with the given labels has the key and a ready claim of the address.\<close>

definition claimant :: "lib \<Rightarrow> 's control_plane \<Rightarrow> Labels.labels \<Rightarrow> 32 word \<Rightarrow> key \<Rightarrow> bool" where
  "claimant T cp self x k \<longleftrightarrow> (\<exists>q \<in> set (cp_peers cp). \<not> has_labels self (pn_Labels q) \<and>
     lib_ParseKey T (pn_PublicKey q) = Some k \<and> (\<forall>s \<in> announced q (cp_claims cp). ParsePrefix s \<noteq> None) \<and>
     (\<exists>c \<in> owned q (cp_claims cp). text_covers (cs_CIDR (cc_Status c)) x))"

lemma without_self_set:
  assumes "without_self (ForNode c n) ps = Some others" "distinct (map pn_Name ps)" "\<forall>p \<in> set ps. is_published mk p"
  shows "set others = {p \<in> set ps. \<not> has_labels (ForNode c n) (pn_Labels p)}"
  using assms
proof (induction ps arbitrary: others)
  case (Cons p ps)
  have name: "pn_Name q = peerNodeName c n" if "is_published mk q" "has_labels (ForNode c n) (pn_Labels q)" for q
    using that by (auto simp: is_published_def published_def has_labels_ForNode)
  show ?case
  proof (cases "has_labels (ForNode c n) (pn_Labels p)")
    case True
    have "\<not> has_labels (ForNode c n) (pn_Labels q)" if "q \<in> set ps" for q
      using that True name [of p] name [of q] Cons.prems(2,3) by force
    with True Cons.prems(1) show ?thesis by auto
  next
    case False
    with Cons.prems(1) obtain rest where "without_self (ForNode c n) ps = Some rest" "others = p # rest"
      by (auto split: option.splits)
    with Cons.IH [of rest] Cons.prems(2,3) False show ?thesis by auto
  qed
qed simp

lemma others_of_run:
  assumes "peers_Reconcile asSelector parse fails r cp = Reconfigured cfg"
  shows "\<exists>others. without_self (ForNode (sy_ClusterName r) (sy_NodeName r)) (cp_peers cp) = Some others \<and>
    peer_configs asSelector (sf_list_claims fails) (cp_claims cp) others = Some (tc_Peers cfg)"
  using assms by (auto simp: peers_Reconcile_def split: if_splits option.splits)

text \<open>The usable peers of a configuration that cover an address are its claimants, static routes apart.\<close>

lemma configured_claimants:
  assumes law: "\<And>l. asSelector (mk l) = Inr (selects l)"
    and m: "mesh_reachable L asSelector mk block_cidr m"
    and run: "peers_Reconcile asSelector parse fails r (ms_plane m) = Reconfigured cfg"
    and static: "\<forall>p \<in> set (cp_peers (ms_plane m)). \<forall>s \<in> set (pn_StaticRoutes p). \<not> text_covers s x"
  shows "(\<exists>pc \<in> set (tc_Peers cfg). usable T pc k \<and> list_ex (\<lambda>s. text_covers s x) (pc_AllowedIPs pc)) \<longleftrightarrow>
    claimant T (ms_plane m) (ForNode (sy_ClusterName r) (sy_NodeName r)) x k"
proof -
  let ?self = "ForNode (sy_ClusterName r) (sy_NodeName r)" and ?claims = "cp_claims (ms_plane m)"
  note inv = mesh_reachable_inv [OF m]
  from others_of_run [OF run] obtain others where others: "without_self ?self (cp_peers (ms_plane m)) = Some others"
    and pcs: "peer_configs asSelector (sf_list_claims fails) ?claims others = Some (tc_Peers cfg)" by blast
  have set_others: "set others = {q \<in> set (cp_peers (ms_plane m)). \<not> has_labels ?self (pn_Labels q)}"
    using inv by (intro without_self_set [OF others, of mk]) (simp_all add: mesh_inv_def)
  have "\<forall>p \<in> set others. is_published mk p"
    using inv by (simp add: set_others mesh_inv_def)
  from peer_configs_owned [OF law this pcs]
  have all: "list_all2 (\<lambda>q pc. pc_PublicKey pc = pn_PublicKey q \<and> set (pc_AllowedIPs pc) = announced q ?claims) others (tc_Peers cfg)"
    by (simp add: announced_def)
  have same: "usable T pc k \<and> list_ex (\<lambda>s. text_covers s x) (pc_AllowedIPs pc) \<longleftrightarrow>
      lib_ParseKey T (pn_PublicKey q) = Some k \<and> (\<forall>s \<in> announced q ?claims. ParsePrefix s \<noteq> None) \<and>
      (\<exists>c \<in> owned q ?claims. text_covers (cs_CIDR (cc_Status c)) x)"
    if "q \<in> set others" "pc_PublicKey pc = pn_PublicKey q" "set (pc_AllowedIPs pc) = announced q ?claims" for q pc
    using that static unfolding usable_def list_ex_iff that(2,3) set_others announced_def by auto
  from all same have "(\<exists>pc \<in> set (tc_Peers cfg). usable T pc k \<and> list_ex (\<lambda>s. text_covers s x) (pc_AllowedIPs pc)) \<longleftrightarrow>
      (\<exists>q \<in> set others. lib_ParseKey T (pn_PublicKey q) = Some k \<and> (\<forall>s \<in> announced q ?claims. ParsePrefix s \<noteq> None) \<and>
        (\<exists>c \<in> owned q ?claims. text_covers (cs_CIDR (cc_Status c)) x))"
    by (induction rule: list_all2_induct) auto
  then show ?thesis
    unfolding claimant_def set_others by auto
qed

lemma one_configured:
  assumes laws: "ipaddr_laws L den" and law: "\<And>l. asSelector (mk l) = Inr (selects l)"
    and parsers: "parsers_agree L den" and m: "mesh_reachable L asSelector mk block_cidr m"
    and blocks: "blocks_apart L den block_cidr"
    and run: "peers_Reconcile asSelector parse fails r (ms_plane m) = Reconfigured cfg"
    and static: "\<forall>p \<in> set (cp_peers (ms_plane m)). \<forall>s \<in> set (pn_StaticRoutes p). \<not> text_covers s x"
    and pc: "pc \<in> set (tc_Peers cfg)" "list_ex (\<lambda>s. text_covers s x) (pc_AllowedIPs pc)"
    and pc': "pc' \<in> set (tc_Peers cfg)" "list_ex (\<lambda>s. text_covers s x) (pc_AllowedIPs pc')"
  shows "pc = pc'"
proof -
  from pc obtain i s where i: "i < length (tc_Peers cfg)" "pc = tc_Peers cfg ! i" "s \<in> set (pc_AllowedIPs pc)" "text_covers s x"
    by (auto simp: in_set_conv_nth list_ex_iff)
  from pc' obtain j s' where j: "j < length (tc_Peers cfg)" "pc' = tc_Peers cfg ! j" "s' \<in> set (pc_AllowedIPs pc')" "text_covers s' x"
    by (auto simp: in_set_conv_nth list_ex_iff)
  from text_covers_den [OF parsers i(4)] obtain a where a: "ia_GetAddress L s = Some a" "unat x \<in> den a" by blast
  from text_covers_den [OF parsers j(4)] obtain b where b: "ia_GetAddress L s' = Some b" "unat x \<in> den b" by blast
  have "den a \<inter> den b = {}" if "i \<noteq> j"
    by (rule peers_apart [OF laws law m blocks run i(1) j(1) that _ a(1) _ b(1)]) (use i j static in auto)
  with a(2) b(2) i(2) j(2) show ?thesis by blast
qed

section \<open>An address library for IPv4\<close>

text \<open>A network is an address with the length of its prefix; the operations enumerate addresses.\<close>

definition v4_base :: "32 word \<times> nat \<Rightarrow> nat" where
  "v4_base b = unat (fst b) div 2 ^ (32 - snd b) * 2 ^ (32 - snd b)"

definition v4_addrs :: "32 word \<times> nat \<Rightarrow> nat list" where
  "v4_addrs b = [v4_base b ..< v4_base b + 2 ^ (32 - snd b)]"

definition v4_den :: "32 word \<times> nat \<Rightarrow> nat set" where
  "v4_den b = {v4_base b ..< v4_base b + 2 ^ (32 - snd b)}"

definition v4_lib :: "(32 word \<times> nat) ipaddr_lib" where
  "v4_lib = \<lparr>
     ia_GetAddress = (\<lambda>s. case ParsePrefix s of Some (Prefix (IP4 w) n) \<Rightarrow> Some (w, n) | _ \<Rightarrow> None),
     ia_String = (\<lambda>(w, n). prefix_String (Prefix (IP4 w) (min n 32))),
     ia_Subtract = (\<lambda>a b. map (\<lambda>x. (of_nat x, 32)) (filter (\<lambda>x. x \<notin> set (v4_addrs b)) (v4_addrs a))),
     ia_Span = (\<lambda>b. [b]),
     ia_Merge = (\<lambda>bs. bs),
     ia_GetBitCount = (\<lambda>_. 32),
     ia_GetPrefixLen = (\<lambda>b. Some (int (min (snd b) 32))),
     ia_FirstBlock = (\<lambda>b n. Some (of_nat (v4_base b), nat n)),
     ia_SetPrefixLenZeroed = (\<lambda>b n. Some (of_nat (v4_base b), nat n))\<rparr>"

lemma v4_base_bound: "v4_base b + 2 ^ (32 - snd b) \<le> 2 ^ 32"
proof -
  have "unat (fst b) < 2 ^ (32 - snd b) * 2 ^ (32 - (32 - snd b))"
    using unsigned_less [of "fst b", where ?'a = nat] by (simp flip: power_add)
  then have "unat (fst b) div 2 ^ (32 - snd b) < 2 ^ (32 - (32 - snd b))"
    by (simp add: less_mult_imp_div_less mult.commute)
  then have "(unat (fst b) div 2 ^ (32 - snd b) + 1) * 2 ^ (32 - snd b) \<le> 2 ^ (32 - (32 - snd b)) * 2 ^ (32 - snd b)"
    by (intro mult_right_mono) simp_all
  then show ?thesis
    by (simp add: v4_base_def flip: power_add)
qed

lemma v4_single:
  assumes "x < 2 ^ 32"
  shows "v4_base (of_nat x, 32) = x" "v4_den (of_nat x, 32) = {x}"
  using assms by (auto simp: v4_base_def v4_den_def unat_of_nat)

lemma v4_addr_bound: "x \<in> set (v4_addrs b) \<Longrightarrow> x < 2 ^ 32"
  using v4_base_bound [of b] by (auto simp: v4_addrs_def)

lemma v4_singles:
  assumes "\<And>x. x \<in> set xs \<Longrightarrow> x < 2 ^ 32"
  shows "\<Union> (v4_den ` set (map (\<lambda>x. (of_nat x, 32)) xs)) = set xs"
  using v4_single(2) [OF assms] by auto

lemma v4_first:
  assumes "min (snd b) 32 \<le> n" "n \<le> 32"
  shows "v4_base (of_nat (v4_base b), n) = v4_base b"
proof -
  have "v4_base b < 2 ^ 32"
    by (rule less_le_trans [OF _ v4_base_bound [of b]]) simp
  moreover have "(2::nat) ^ (32 - n) dvd v4_base b"
    unfolding v4_base_def using assms by (intro dvd_mult le_imp_power_dvd) simp
  ultimately show ?thesis
    by (simp add: v4_base_def [of "(of_nat (v4_base b), n)"] unat_of_nat)
qed

lemma v4_laws: "ipaddr_laws v4_lib v4_den"
  unfolding ipaddr_laws_def
proof (intro conjI)
  show "\<forall>b. v4_den b \<noteq> {}" by (simp add: v4_den_def)
  show "\<forall>a b. \<Union> (v4_den ` set (ia_Subtract v4_lib a b)) = v4_den a - v4_den b"
  proof (intro allI)
    fix a b
    have *: "\<Union> (v4_den ` set (ia_Subtract v4_lib a b)) = set (filter (\<lambda>x. x \<notin> set (v4_addrs b)) (v4_addrs a))"
      unfolding v4_lib_def ipaddr_lib.simps by (rule v4_singles) (rule v4_addr_bound [of _ a], simp)
    show "\<Union> (v4_den ` set (ia_Subtract v4_lib a b)) = v4_den a - v4_den b"
      unfolding * by (auto simp: v4_addrs_def v4_den_def)
  qed
  show "\<forall>b. \<Union> (v4_den ` set (ia_Span v4_lib b)) = v4_den b"
    by (simp add: v4_lib_def)
  have "nat (32 - min (int (snd b)) 32) = 32 - snd b" for b :: "32 word \<times> nat"
    by linarith
  then show "\<forall>bs. bs \<noteq> [] \<longrightarrow> \<Union> (v4_den ` set (ia_Merge v4_lib bs)) = \<Union> (v4_den ` set bs) \<and>
      (\<forall>b \<in> set (ia_Merge v4_lib bs). prefix_block v4_lib v4_den b)"
    by (auto simp: v4_lib_def prefix_block_def v4_den_def)
  show "\<forall>b p n. ia_GetPrefixLen v4_lib b = Some p \<and> p \<le> n \<and> n \<le> ia_GetBitCount v4_lib b \<longrightarrow>
      (\<exists>s. ia_FirstBlock v4_lib b n = Some s \<and> v4_den s \<subseteq> v4_den b \<and>
        card (v4_den s) = 2 ^ nat (ia_GetBitCount v4_lib b - n))"
  proof (intro allI impI)
    fix b p n
    assume "ia_GetPrefixLen v4_lib b = Some p \<and> p \<le> n \<and> n \<le> ia_GetBitCount v4_lib b"
    then have n: "int (min (snd b) 32) \<le> n" "n \<le> 32"
      by (simp_all add: v4_lib_def)
    then have len: "min (snd b) 32 \<le> nat n" "nat n \<le> 32" "nat (32 - n) = 32 - nat n"
      by linarith+
    then have "(2::nat) ^ (32 - nat n) \<le> 2 ^ (32 - snd b)"
      by (intro power_increasing) auto
    then have "v4_den (of_nat (v4_base b), nat n) \<subseteq> v4_den b"
      by (auto simp: v4_den_def v4_first [OF len(1,2)])
    then show "\<exists>s. ia_FirstBlock v4_lib b n = Some s \<and> v4_den s \<subseteq> v4_den b \<and>
        card (v4_den s) = 2 ^ nat (ia_GetBitCount v4_lib b - n)"
      by (simp add: v4_lib_def len(3)) (simp add: v4_den_def)
  qed
  show "\<forall>b. \<exists>b'. ia_GetAddress v4_lib (ia_String v4_lib b) = Some b' \<and> v4_den b' = v4_den b"
  proof
    fix b :: "32 word \<times> nat"
    have "32 - min (snd b) 32 = 32 - snd b" by linarith
    then show "\<exists>b'. ia_GetAddress v4_lib (ia_String v4_lib b) = Some b' \<and> v4_den b' = v4_den b"
      by (auto simp: v4_lib_def ParsePrefix_ip4 v4_den_def v4_base_def split_beta)
  qed
qed

lemma v4_parsers_agree: "parsers_agree v4_lib v4_den"
proof -
  have small: "take_bit 32 (unat v) = unat v" for v :: "32 word"
    using unsigned_less [of v, where ?'a = nat] by (simp add: take_bit_nat_eq_self)
  have "unat x \<in> v4_den (w, n)" if "covers (IPNet (IP4 w) n) x" for w n x
  proof -
    have "unat (drop_bit (32 - n) w) = unat (drop_bit (32 - n) x)"
      using that by (simp add: covers_def)
    then have "unat w div 2 ^ (32 - n) = unat x div 2 ^ (32 - n)"
      by (simp add: unsigned_drop_bit_eq) (simp add: drop_bit_eq_div small)
    moreover have "unat x < unat x div 2 ^ (32 - n) * 2 ^ (32 - n) + 2 ^ (32 - n)"
      using div_mult_mod_eq [of "unat x" "2 ^ (32 - n)"] mod_less_divisor [of "2 ^ (32 - n)" "unat x", OF zero_less_power [OF zero_less_numeral]]
      by linarith
    ultimately show ?thesis
      by (simp add: v4_den_def v4_base_def)
  qed
  then show ?thesis
    by (simp add: parsers_agree_def v4_lib_def)
qed

section \<open>An example\<close>

text \<open>Two nodes with a claim each, and a third one, which configures its device.\<close>

definition v4_announcement :: "string \<Rightarrow> peer_config" where
  "v4_announcement n = example_announcement\<lparr>pc_PublicKey := n\<rparr>"

definition v4_node :: "string \<Rightarrow> peer_node_sync" where
  "v4_node n = \<lparr>ps_ClusterName = ''c'', ps_NodeName = n, ps_StaticAdvertisedRoutes = [], ps_peerConfig = Some (v4_announcement n)\<rparr>"

definition v4_blocks :: "cidr_block list" where
  "v4_blocks = [\<lparr>cb_Name = ''b'', cb_Labels = [], cb_CIDR = ''0.0.0.0/30''\<rparr>]"

definition v4_block_cidr :: "string \<Rightarrow> string" where
  "v4_block_cidr name = (if name = ''b'' then ''0.0.0.0/30'' else [])"

definition v4_mesh :: "claim_status list \<Rightarrow> string list \<Rightarrow> Labels.labels mesh" where
  "v4_mesh ss ns = \<lparr>ms_plane = \<lparr>cp_claims = map2 mesh_claim [''x'', ''y''] ss,
     cp_templates = [\<lparr>ct_Name = ''t'', ct_Selector = [], ct_SizeBit = 0\<rparr>],
     cp_peers = map (\<lambda>n. published id (v4_node n) (v4_announcement n)) ns\<rparr>, ms_blocks = v4_blocks\<rparr>"

lemmas v4_mesh_defs = v4_mesh_def mesh_claim_def v4_node_def mesh_claimer_def v4_announcement_def example_announcement_def

definition v4_final :: "Labels.labels mesh" where
  "v4_final = v4_mesh [ready_at ''0.0.0.1/32'', ready_at ''0.0.0.2/32''] [''x'', ''y'', ''z'']"

lemma v4_claims:
  "fst (claimer_Reconcile (mesh_claimer ''x'') no_claimer_failures ''t'' (ms_plane (v4_mesh [] []))) = ms_plane (v4_mesh [no_status] [])"
  "fst (claimer_Reconcile (mesh_claimer ''y'') no_claimer_failures ''t'' (ms_plane (v4_mesh [no_status] []))) =
     ms_plane (v4_mesh [no_status, no_status] [])"
  by (simp_all add: claimer_Reconcile_def v4_mesh_defs no_claimer_failures_def find_named_def upsert_claim_def new_claim_def Let_def no_status_def)

lemma v4_allocations:
  "claim_Reconcile v4_lib label_selector id no_failures ''x'' (cluster_of (v4_mesh [no_status, no_status] [])) =
     Returns (cluster_of (v4_mesh [ready_at ''0.0.0.1/32'', no_status] []), Done)"
  "claim_Reconcile v4_lib label_selector id no_failures ''y'' (cluster_of (v4_mesh [ready_at ''0.0.0.1/32'', no_status] [])) =
     Returns (cluster_of (v4_mesh [ready_at ''0.0.0.1/32'', ready_at ''0.0.0.2/32''] []), Done)"
  by code_simp+

lemma v4_writes:
  "write_statuses (cluster_of (v4_mesh [s, t] [])) (v4_mesh [s', t'] []) = v4_mesh [s, t] []"
  by (simp add: write_statuses_def cluster_of_def claim_part_def get_claim_def v4_mesh_defs)

lemma v4_publications:
  "node_sync_Reconcile id False (v4_node ''x'') (ms_plane (v4_mesh ss [])) = (ms_plane (v4_mesh ss [''x'']), True)"
  "node_sync_Reconcile id False (v4_node ''y'') (ms_plane (v4_mesh ss [''x''])) = (ms_plane (v4_mesh ss [''x'', ''y'']), True)"
  "node_sync_Reconcile id False (v4_node ''z'') (ms_plane (v4_mesh ss [''x'', ''y''])) = (ms_plane (v4_mesh ss [''x'', ''y'', ''z'']), True)"
  by (simp_all add: node_sync_Reconcile_def v4_mesh_defs published_def find_named_def peerNodeName_def)

lemma v4_plane_update: "(v4_mesh ss ns)\<lparr>ms_plane := ms_plane (v4_mesh ss' ns')\<rparr> = v4_mesh ss' ns'"
  by (simp add: v4_mesh_def)

lemma v4_reachable: "mesh_reachable v4_lib label_selector id v4_block_cidr v4_final"
proof -
  let ?R = "mesh_reachable v4_lib label_selector id v4_block_cidr"
  note step = mesh_reachable.step [where L = v4_lib and asSelector = label_selector and mk = id and block_cidr = v4_block_cidr]
  have plane: "?R m \<Longrightarrow> mesh_step v4_lib label_selector id v4_block_cidr m m' \<Longrightarrow> m' = m'' \<Longrightarrow> ?R m''" for m m' m''
    using step by blast
  have 1: "?R (v4_mesh [] [])"
    by (rule plane [OF plane [OF mesh_reachable.init mesh_step.templates [of "[\<lparr>ct_Name = ''t'', ct_Selector = [], ct_SizeBit = 0\<rparr>]"] refl]
          mesh_step.blocks [of v4_blocks]])
      (simp_all add: v4_blocks_def v4_block_cidr_def v4_mesh_def)
  have claim: "?R (m\<lparr>ms_plane := fst (claimer_Reconcile r f name (ms_plane m))\<rparr>)" if "?R m" for m r f name
    using step [OF that mesh_step.claimer] by (metis prod_cases3 fst_conv)
  have 2: "?R (v4_mesh [no_status, no_status] [])"
    using claim [OF claim [OF 1, of "mesh_claimer ''x''" no_claimer_failures "''t''", unfolded v4_claims v4_plane_update],
        of "mesh_claimer ''y''" no_claimer_failures "''t''"]
    unfolding v4_claims v4_plane_update .
  have id: "\<forall>bs :: cidr_block list. set (id bs) = set bs" by simp
  have 3: "?R (v4_mesh [ready_at ''0.0.0.1/32'', ready_at ''0.0.0.2/32''] [])"
    using step [OF step [OF 2 mesh_step.allocator [OF id v4_allocations(1)], unfolded v4_writes]
        mesh_step.allocator [OF id v4_allocations(2)], unfolded v4_writes] .
  show ?thesis
    using step [OF step [OF step [OF 3 mesh_step.publication [OF v4_publications(1)], unfolded v4_plane_update]
          mesh_step.publication [OF v4_publications(2)], unfolded v4_plane_update]
        mesh_step.publication [OF v4_publications(3)], unfolded v4_plane_update]
    unfolding v4_final_def .
qed

lemma v4_blocks_apart: "blocks_apart v4_lib v4_den v4_block_cidr"
proof -
  have "ia_GetAddress v4_lib [] = None"
    by code_simp
  then show ?thesis
    by (auto simp: blocks_apart_def v4_block_cidr_def split: if_splits)
qed

definition v4_config :: te_config where
  "v4_config = \<lparr>tc_PrivateKey = ''p'', tc_ListenPort = 1, tc_STUNEndpoint = ''s'', tc_Addresses = [],
     tc_Peers = map (\<lambda>(k, a). \<lparr>pc_Endpoints = [''e''], pc_PublicKey = k, pc_PublicDiscoKey = ''d'', pc_Addresses = [a], pc_AllowedIPs = [a]\<rparr>)
       [(''x'', ''0.0.0.1/32''), (''y'', ''0.0.0.2/32'')]\<rparr>"

lemma v4_run: "peers_Reconcile label_selector (\<lambda>_. None) no_sync_failures mesh_sync (ms_plane v4_final) = Reconfigured v4_config"
  by code_simp

text \<open>A key is its first character, repeated; the device is WireGuard's state itself.\<close>

definition v4_keys :: lib where
  "v4_keys = \<lparr>lib_ParseKey = (\<lambda>s. if s = [] then None else Some (replicate 32 (of_char (hd s)))), lib_PublicKey = id,
     lib_addr_String = (\<lambda>_. [])\<rparr>"

definition v4_kernel :: "device kernel" where
  "v4_kernel = \<lparr>nk_AddrList = (\<lambda>_. None), nk_AddrDel = (\<lambda>_ n. (n, True)), nk_AddrAdd = (\<lambda>_ n. (n, True)),
     nk_RouteList = (\<lambda>_ _ _. None), nk_RouteDel = (\<lambda>_ n. (n, True)), nk_RouteAdd = (\<lambda>_ n. (n, True)),
     nk_ConfigureDevice = (\<lambda>c n. (configure c n, True))\<rparr>"

definition v4_engine :: "device wg_engine" where
  "v4_engine = \<lparr>we_link = 5, we_prevConfig = \<lparr>wc_PrivateKey = None, wc_ListenPort = None, wc_FirewallMark = None,
     wc_ReplacePeers = False, wc_Peers = []\<rparr>, we_net = (\<lambda>_. None)\<rparr>"

definition v4_wg :: wg_config where
  "v4_wg = toWGDevice v4_keys [] v4_config (replicate 32 1)"

lemma v4_peers: "map (\<lambda>p. (wp_PublicKey p, wp_AllowedIPs p)) (wc_Peers v4_wg) =
    [(replicate 32 120, [IPNet (IP4 1) 32]), (replicate 32 121, [IPNet (IP4 2) 32])]"
  by code_simp

section \<open>Properties\<close>



end
