(* ===== verification/XdpControl.thy ===== *)
theory XdpControl
  imports Receivers
begin

text \<open>
  The XDP receivers of a node (\<open>pkg/hijack/receiver/xdprecv\<close>): how one is opened and closed, and how
  the controller keeps one goroutine for each interface, with a second goroutine that closes
  the receiver when its interface is gone or the controller is closed.
\<close>

section \<open>The kernel objects of a receiver\<close>

text \<open>The fields of a receiver, as far as they are not nil, and which calls of its construction succeed.\<close>

record xdp_objects =
  xo_objs :: bool
  xo_link :: bool
  xo_ringReader :: bool

record xdp_calls =
  xk_loadBpf :: bool
  xk_RewriteConstants :: bool
  xk_LoadAndAssign :: bool
  xk_AttachXDP :: bool
  xk_NewReader :: bool

definition nothing_open :: xdp_objects where
  "nothing_open = \<lparr>xo_objs = False, xo_link = False, xo_ringReader = False\<rparr>"

text \<open>\<open>Close\<close> closes every field that is set; closing the channel a second time is recovered.\<close>

definition close_objects :: "xdp_objects \<Rightarrow> xdp_objects" where
  "close_objects x = (let x = (if xo_objs x then x\<lparr>xo_objs := False\<rparr> else x);
       x = (if xo_link x then x\<lparr>xo_link := False\<rparr> else x)
     in if xo_ringReader x then x\<lparr>xo_ringReader := False\<rparr> else x)"

text \<open>The result: the objects that are open afterwards, and whether there is a receiver.\<close>

definition NewXDPReceiver :: "xdp_calls \<Rightarrow> xdp_objects \<times> bool" where
  "NewXDPReceiver ok =
     (if \<not> xk_loadBpf ok then (nothing_open, False)
      else if \<not> xk_RewriteConstants ok then (nothing_open, False)
      else
        let r = nothing_open
        in if \<not> xk_LoadAndAssign ok then (close_objects r, False)
           else let r = r\<lparr>xo_objs := True\<rparr>
             in if \<not> xk_AttachXDP ok then (close_objects r, False)
                else let r = r\<lparr>xo_link := True\<rparr>
                  in if \<not> xk_NewReader ok then (close_objects r, False)
                     else (r\<lparr>xo_ringReader := True\<rparr>, True))"

lemma close_objects_all [simp]: "close_objects x = nothing_open"
  by (cases x) (simp add: close_objects_def nothing_open_def Let_def)

text \<open>A construction that fails leaves no program, no link and no reader behind.\<close>

lemma NewXDPReceiver_leaks_nothing:
  "NewXDPReceiver ok = (x, created) \<Longrightarrow> x = (if created then \<lparr>xo_objs = True, xo_link = True, xo_ringReader = True\<rparr> else nothing_open)"
  by (auto simp: NewXDPReceiver_def nothing_open_def Let_def split: if_splits)

section \<open>The goroutines of an interface\<close>

text \<open>
  The goroutine that \<open>Run\<close> starts for the interface with an index opens the receiver (\<open>Opening\<close>)
  and then receives; the goroutine it starts (\<open>health\<close>) subscribes to the alarm, whose channel
  holds one token, and ends after it has closed the receiver.
\<close>

datatype health = Unsubscribed | Subscribed bool | HealthEnded

datatype flow = Opening nat | Receiving nat health

text \<open>The health check: the interface is looked up by its name, with a call that may fail.\<close>

definition RunHealthCheck :: "bool \<Rightarrow> string \<Rightarrow> (string \<times> nat) list \<Rightarrow> bool" where
  "RunHealthCheck fails name ifaces \<longleftrightarrow> \<not> fails \<and> name \<in> fst ` set ifaces"

text \<open>
  The steps of the goroutines of one interface, given whether the controller is closed and the
  interfaces of the system; \<open>None\<close> is the end of both. A program can be attached only to an index
  that exists. \<open>Recv\<close> fails once the receiver is closed.
\<close>

inductive flow_step :: "bool \<Rightarrow> (string \<times> nat) list \<Rightarrow> string \<Rightarrow> flow \<Rightarrow> flow option \<Rightarrow> bool"
  for closed ifaces name where
  opened: "NewXDPReceiver ok = (x, True) \<Longrightarrow> i \<in> snd ` set ifaces \<Longrightarrow>
     flow_step closed ifaces name (Opening i) (Some (Receiving i Unsubscribed))"
| not_opened: "NewXDPReceiver ok = (x, False) \<Longrightarrow> flow_step closed ifaces name (Opening i) None"
| subscribed: "flow_step closed ifaces name (Receiving i Unsubscribed) (Some (Receiving i (Subscribed False)))"
| healthy: "RunHealthCheck fails name ifaces \<Longrightarrow>
     flow_step closed ifaces name (Receiving i (Subscribed True)) (Some (Receiving i (Subscribed False)))"
| unhealthy: "\<not> RunHealthCheck fails name ifaces \<Longrightarrow>
     flow_step closed ifaces name (Receiving i (Subscribed True)) (Some (Receiving i HealthEnded))"
| controller_closed: "closed \<Longrightarrow>
     flow_step closed ifaces name (Receiving i (Subscribed token)) (Some (Receiving i HealthEnded))"
| recv_failed: "flow_step closed ifaces name (Receiving i HealthEnded) None"

inductive_cases flow_step_cases: "flow_step closed ifaces name f r"

section \<open>The controller\<close>

text \<open>
  \<open>Refresh\<close> is called by one goroutine only: it wakes the subscribers, lists the interfaces (or
  fails) and starts a goroutine for each name that has none.
\<close>

datatype refresh_pc = RefreshIdle | RefreshWoken | RefreshStarting "(string \<times> nat) list"

record xdp_sys =
  xs_ifaces :: "(string \<times> nat) list"
  xs_group :: "(string, flow) syncmap"
  xs_refresh :: refresh_pc
  xs_closed :: bool

fun wake_flow :: "flow \<Rightarrow> flow" where
  "wake_flow (Receiving i (Subscribed token)) = Receiving i (Subscribed True)"
| "wake_flow f = f"

definition start_flow :: "string \<times> nat \<Rightarrow> (string, flow) syncmap \<Rightarrow> (string, flow) syncmap" where
  "start_flow iface grp = (case sm_LoadOrStore (fst iface) (Opening (snd iface)) grp of (grp', _, _) \<Rightarrow> grp')"

definition update_flow :: "string \<Rightarrow> flow option \<Rightarrow> (string, flow) syncmap \<Rightarrow> (string, flow) syncmap" where
  "update_flow name r grp = (case r of None \<Rightarrow> sm_Delete name grp | Some f \<Rightarrow> sm_Store name f grp)"

inductive goroutine_step :: "xdp_sys \<Rightarrow> xdp_sys \<Rightarrow> bool" where
  flow: "sm_Load name (xs_group s) = Some f \<Longrightarrow> flow_step (xs_closed s) (xs_ifaces s) name f r \<Longrightarrow>
     goroutine_step s (s\<lparr>xs_group := update_flow name r (xs_group s)\<rparr>)"

inductive xdp_step :: "xdp_sys \<Rightarrow> xdp_sys \<Rightarrow> bool" where
  goroutine: "goroutine_step s s' \<Longrightarrow> xdp_step s s'"
| interfaces: "xdp_step s (s\<lparr>xs_ifaces := ifaces\<rparr>)"
| wake_all: "xs_refresh s = RefreshIdle \<Longrightarrow>
     xdp_step s (s\<lparr>xs_group := map (\<lambda>(name, f). (name, wake_flow f)) (xs_group s), xs_refresh := RefreshWoken\<rparr>)"
| list_fails: "xs_refresh s = RefreshWoken \<Longrightarrow> xdp_step s (s\<lparr>xs_refresh := RefreshIdle\<rparr>)"
| listed: "xs_refresh s = RefreshWoken \<Longrightarrow> xdp_step s (s\<lparr>xs_refresh := RefreshStarting (xs_ifaces s)\<rparr>)"
| start: "xs_refresh s = RefreshStarting (iface # rest) \<Longrightarrow>
     xdp_step s (s\<lparr>xs_group := start_flow iface (xs_group s), xs_refresh := RefreshStarting rest\<rparr>)"
| refreshed: "xs_refresh s = RefreshStarting [] \<Longrightarrow> xdp_step s (s\<lparr>xs_refresh := RefreshIdle\<rparr>)"
| close: "xdp_step s (s\<lparr>xs_closed := True\<rparr>)"

inductive xdp_reachable :: "xdp_sys \<Rightarrow> bool" where
  init: "xdp_reachable \<lparr>xs_ifaces = ifaces, xs_group = [], xs_refresh = RefreshIdle, xs_closed = False\<rparr>"
| step: "xdp_reachable s \<Longrightarrow> xdp_step s s' \<Longrightarrow> xdp_reachable s'"

text \<open>The group is the one of \<open>bgsingleflight\<close>, with the place of each goroutine.\<close>

lemma start_flow_is_Run:
  "map (\<lambda>(name, _). (name, ())) (start_flow iface grp) = fst (sf_Run (fst iface) (map (\<lambda>(name, _). (name, ())) grp))"
proof -
  have "map_of (map (\<lambda>(name, _). (name, ())) grp) n = map_option (\<lambda>_. ()) (map_of grp n)" for n
    by (induction grp) auto
  moreover have "map (\<lambda>(name, _). (name, ())) (AList.update n f grp) = AList.update n () (map (\<lambda>(name, _). (name, ())) grp)" for n f
    by (induction grp) auto
  ultimately show ?thesis
    by (auto simp: start_flow_def sf_Run_def sm_LoadOrStore_def split: option.splits)
qed

lemma update_flow_ok: "sm_ok grp \<Longrightarrow> sm_ok (update_flow name r grp)"
  by (simp add: update_flow_def syncmap.invar_store syncmap.invar_delete split: option.split)

lemma xdp_step_ok:
  assumes "xdp_step s s'" "sm_ok (xs_group s)"
  shows "sm_ok (xs_group s')"
  using assms
proof cases
  case goroutine
  with assms(2) show ?thesis by (auto simp: goroutine_step.simps update_flow_ok)
next
  case wake_all
  with assms(2) show ?thesis by (simp add: sm_ok_def split_beta comp_def)
next
  case (start iface rest)
  with assms(2) show ?thesis
    by (auto simp: start_flow_def intro: syncmap.invar_load_or_store split: prod.split)
qed simp_all

lemma xdp_reachable_ok: "xdp_reachable s \<Longrightarrow> sm_ok (xs_group s)"
proof (induction rule: xdp_reachable.induct)
  case (step s s')
  then show ?case using xdp_step_ok by blast
qed (simp add: sm_ok_def)

section \<open>Progress of the goroutines\<close>

fun flow_rank :: "flow \<Rightarrow> nat" where
  "flow_rank (Opening i) = 5"
| "flow_rank (Receiving i Unsubscribed) = 4"
| "flow_rank (Receiving i (Subscribed token)) = (if token then 3 else 2)"
| "flow_rank (Receiving i HealthEnded) = 1"

definition group_rank :: "(string, flow) syncmap \<Rightarrow> nat" where
  "group_rank grp = sum_list (map (\<lambda>(name, f). flow_rank f) grp)"

definition rank_after :: "flow option \<Rightarrow> nat" where
  "rank_after r = (case r of None \<Rightarrow> 0 | Some f \<Rightarrow> flow_rank f)"

lemma flow_step_decreases: "flow_step closed ifaces name f r \<Longrightarrow> rank_after r < flow_rank f"
  by (auto simp: rank_after_def elim!: flow_step_cases)

lemma flow_step_exists: "\<exists>r. flow_step True ifaces name f r"
proof (cases f)
  case (Opening i)
  have "NewXDPReceiver \<lparr>xk_loadBpf = False, xk_RewriteConstants = True, xk_LoadAndAssign = True, xk_AttachXDP = True,
      xk_NewReader = True\<rparr> = (nothing_open, False)"
    by (simp add: NewXDPReceiver_def)
  then show ?thesis using flow_step.not_opened Opening by metis
next
  case (Receiving i h)
  then show ?thesis
    by (cases h) (auto intro: flow_step.subscribed flow_step.controller_closed flow_step.recv_failed)
qed

lemma group_rank_update:
  assumes "sm_ok grp" "sm_Load name grp = Some f"
  shows "group_rank (update_flow name r grp) + flow_rank f = group_rank grp + rank_after r"
  using assms
proof (induction grp)
  case (Cons p grp)
  obtain n g where p: "p = (n, g)" by (cases p)
  show ?case
  proof (cases "n = name")
    case True
    with Cons.prems have "name \<notin> fst ` set grp" "g = f"
      by (simp_all add: p sm_ok_def sm_Load_def)
    then show ?thesis
      using True by (simp add: p group_rank_def update_flow_def rank_after_def sm_Delete_def sm_Store_def delete_id split: option.split)
  next
    case False
    with Cons show ?thesis
      by (simp add: p group_rank_def update_flow_def sm_Delete_def sm_Store_def sm_ok_def sm_Load_def split: option.splits)
  qed
qed (simp add: sm_Load_def)

lemma goroutine_step_keeps: "goroutine_step s s' \<Longrightarrow> xs_closed s' = xs_closed s \<and> (sm_ok (xs_group s) \<longrightarrow> sm_ok (xs_group s'))"
  by (auto simp: goroutine_step.simps update_flow_ok)

lemma goroutine_step_decreases:
  assumes "sm_ok (xs_group s)" "goroutine_step s s'"
  shows "group_rank (xs_group s') < group_rank (xs_group s)"
  using assms(2)
proof cases
  case (flow name f r)
  from group_rank_update [OF assms(1) flow(2), of r] flow_step_decreases [OF flow(3)] show ?thesis
    by (simp add: flow(1))
qed

lemma goroutine_step_exists:
  assumes "xs_closed s" "xs_group s \<noteq> []"
  shows "\<exists>s'. goroutine_step s s'"
proof -
  from assms(2) obtain p rest where "xs_group s = p # rest"
    by (cases "xs_group s") simp_all
  then have "sm_Load (fst p) (xs_group s) = Some (snd p)"
    by (cases p) (simp add: sm_Load_def)
  moreover obtain r where "flow_step (xs_closed s) (xs_ifaces s) (fst p) (snd p) r"
    using flow_step_exists [of "xs_ifaces s" "fst p" "snd p"] assms(1) by auto
  ultimately show ?thesis by (blast intro: goroutine_step.flow)
qed

lemma goroutine_steps_rank:
  assumes "goroutine_step\<^sup>*\<^sup>* s s'" "sm_ok (xs_group s)"
  shows "sm_ok (xs_group s') \<and> xs_closed s' = xs_closed s"
  using assms(1)
proof (induction rule: rtranclp_induct)
  case (step t u)
  with goroutine_step_keeps [OF step(2)] show ?case by simp
qed (simp add: assms(2))

lemma goroutine_run_rank:
  assumes "sm_ok (xs_group (run 0))" "\<forall>k. goroutine_step (run k) (run (Suc k))"
  shows "sm_ok (xs_group (run k)) \<and> group_rank (xs_group (run k)) + k \<le> group_rank (xs_group (run 0))"
proof (induction k)
  case (Suc k)
  from assms(2) have step: "goroutine_step (run k) (run (Suc k))" by blast
  from goroutine_step_keeps [OF step] goroutine_step_decreases [OF _ step] Suc show ?case by simp
qed (simp add: assms(1))

section \<open>An interface that goes\<close>

text \<open>Once its goroutine has a token, a receiver whose interface is gone is closed by its next step and then ends.\<close>

lemma gone_interface_is_released:
  assumes "name \<notin> fst ` set ifaces"
  shows "flow_step closed ifaces name (Receiving i (Subscribed True)) r \<longleftrightarrow> r = Some (Receiving i HealthEnded)"
    and "flow_step closed ifaces name (Receiving i HealthEnded) r \<longleftrightarrow> r = None"
  using assms by (auto simp: RunHealthCheck_def elim!: flow_step_cases intro: flow_step.unhealthy flow_step.recv_failed)

text \<open>
  The check goes by the name only: where another interface of this name has come, the receiver of
  the old one stays, and \<open>Run\<close> starts none for the new one.
\<close>

lemma recreated_interface_is_missed:
  assumes "(name, j) \<in> set ifaces" "sm_Load name grp = Some (Receiving i (Subscribed token))"
  shows "RunHealthCheck False name ifaces \<and> start_flow (name, j) grp = grp"
  using assms by (auto simp: RunHealthCheck_def start_flow_def sm_LoadOrStore_def sm_Load_def image_iff intro: rev_bexI)

text \<open>A token that is sent before the goroutine has subscribed is lost.\<close>

lemma early_token_is_lost: "wake_flow (Receiving i Unsubscribed) = Receiving i Unsubscribed"
  by simp

section \<open>An example\<close>

definition xdp_example :: "(string, flow) syncmap \<Rightarrow> refresh_pc \<Rightarrow> bool \<Rightarrow> xdp_sys" where
  "xdp_example grp pc closed = \<lparr>xs_ifaces = [(''eth0'', 2)], xs_group = grp, xs_refresh = pc, xs_closed = closed\<rparr>"

lemma xdp_example_reachable: "xdp_reachable (xdp_example [(''eth0'', Receiving 2 (Subscribed False))] (RefreshStarting []) True)"
proof -
  have go: "xdp_reachable s \<Longrightarrow> xdp_step s t \<Longrightarrow> t = u \<Longrightarrow> xdp_reachable u" for s t u
    using xdp_reachable.step by blast
  have 0: "xdp_reachable (xdp_example [] RefreshIdle False)"
    unfolding xdp_example_def by (rule xdp_reachable.init)
  have 1: "xdp_reachable (xdp_example [] RefreshWoken False)"
    by (rule go [OF 0 xdp_step.wake_all]) (simp_all add: xdp_example_def)
  have 2: "xdp_reachable (xdp_example [] (RefreshStarting [(''eth0'', 2)]) False)"
    by (rule go [OF 1 xdp_step.listed]) (simp_all add: xdp_example_def)
  have 3: "xdp_reachable (xdp_example [(''eth0'', Opening 2)] (RefreshStarting []) False)"
    by (rule go [OF 2 xdp_step.start [of _ "(''eth0'', 2)" "[]"]]) (simp_all add: xdp_example_def start_flow_def sm_LoadOrStore_def)
  have ok: "NewXDPReceiver \<lparr>xk_loadBpf = True, xk_RewriteConstants = True, xk_LoadAndAssign = True, xk_AttachXDP = True,
      xk_NewReader = True\<rparr> = (\<lparr>xo_objs = True, xo_link = True, xo_ringReader = True\<rparr>, True)"
    by (simp add: NewXDPReceiver_def nothing_open_def Let_def)
  have 4: "xdp_reachable (xdp_example [(''eth0'', Receiving 2 Unsubscribed)] (RefreshStarting []) False)"
    by (rule go [OF 3 xdp_step.goroutine [OF goroutine_step.flow [where name = "''eth0''" and f = "Opening 2", OF _ flow_step.opened [OF ok]]]],
        (simp_all add: xdp_example_def sm_Load_def update_flow_def sm_Store_def)+)
  have 5: "xdp_reachable (xdp_example [(''eth0'', Receiving 2 (Subscribed False))] (RefreshStarting []) False)"
    by (rule go [OF 4 xdp_step.goroutine [OF goroutine_step.flow [where name = "''eth0''" and f = "Receiving 2 Unsubscribed", OF _ flow_step.subscribed]]],
        (simp_all add: xdp_example_def sm_Load_def update_flow_def sm_Store_def)+)
  show ?thesis
    by (rule go [OF 5 xdp_step.close]) (simp add: xdp_example_def)
qed

section \<open>Properties\<close>

text \<open>
  C27. A closed controller releases its receivers: in every reachable state in which it is closed,
  and with no further \<open>Refresh\<close>, the goroutines of the interfaces cannot run for ever, and where none
  of them can go on, none is left: every receiver that was opened has been closed.
\<close>
theorem receivers_are_released:
  assumes "xdp_reachable s" "xs_closed s"
  shows "\<not> (\<exists>run. run 0 = s \<and> (\<forall>k. goroutine_step (run k) (run (Suc k)))) \<and>
    (\<forall>s'. goroutine_step\<^sup>*\<^sup>* s s' \<and> \<not> (\<exists>s''. goroutine_step s' s'') \<longrightarrow> xs_group s' = [])"
proof (intro conjI allI impI notI; elim exE conjE)
  note ok = xdp_reachable_ok [OF assms(1)]
  show False if "run 0 = s" "\<forall>k. goroutine_step (run k) (run (Suc k))" for run
    using goroutine_run_rank [of run "Suc (group_rank (xs_group s))"] that ok by simp
  show "xs_group s' = []" if "goroutine_step\<^sup>*\<^sup>* s s'" "\<not> (\<exists>s''. goroutine_step s' s'')" for s'
    using goroutine_steps_rank [OF that(1) ok] goroutine_step_exists [of s'] that(2) assms(2) by blast
qed

theorem receivers_are_released_witness:
  "\<exists>s. xs_group s \<noteq> [] \<and> \<not> (\<exists>run. run 0 = s \<and> (\<forall>k. goroutine_step (run k) (run (Suc k))))"
proof -
  let ?s = "xdp_example [(''eth0'', Receiving 2 (Subscribed False))] (RefreshStarting []) True"
  have "xs_closed ?s" "xs_group ?s \<noteq> []" by (simp_all add: xdp_example_def)
  with receivers_are_released [OF xdp_example_reachable] show ?thesis by blast
qed

end
