(* ===== verification/Config.thy ===== *)
theory Config
  imports Labels
begin

text \<open>
  The configuration of the daemon, \<open>tetrad/api/v1alpha1/cniconfig_types.go\<close>: what the file says,
  overridden by the environment, completed by defaults; the choice of the control plane's
  address in \<open>tetrad/main.go\<close>; and the environment of the container's entry point. Strings and
  numbers of the standard library are modelled here or in \<open>NetText\<close>; keys are generated by a
  parameter. An unset variable of the environment reads as the empty string.
\<close>

section \<open>The environment\<close>

type_synonym env = "string \<Rightarrow> string"

definition loadFromEnv :: "env \<Rightarrow> string \<Rightarrow> string \<Rightarrow> string" where
  "loadFromEnv env key v = (let value = env key in if value = [] then v else value)"

definition ParseBool :: "string \<Rightarrow> bool option" where
  "ParseBool s =
     (if s \<in> set [''1'', ''t'', ''T'', ''TRUE'', ''true'', ''True''] then Some True
      else if s \<in> set [''0'', ''f'', ''F'', ''FALSE'', ''false'', ''False''] then Some False else None)"

text \<open>It parses the name of the variable and not its value; the result of an error is \<open>false\<close>.\<close>

definition loadFromEnvBool :: "env \<Rightarrow> string \<Rightarrow> bool \<Rightarrow> bool" where
  "loadFromEnvBool env key v =
     (let value = env key
      in if value = [] then v else case ParseBool key of None \<Rightarrow> False | Some b \<Rightarrow> b)"

definition loadFromEnvArray :: "env \<Rightarrow> string \<Rightarrow> string list \<Rightarrow> string list" where
  "loadFromEnvArray env key v =
     (let value = env key in if value = [] then v else v @ map TrimSpace (split_on (CHR '','') value))"

section \<open>Paths\<close>

text \<open>
  \<open>path/filepath\<close> on Unix: \<open>Clean\<close> drops empty elements and dots and resolves double dots;
  the stack holds the elements kept so far, the last one first.
\<close>

definition IsAbs :: "string \<Rightarrow> bool" where
  "IsAbs p \<longleftrightarrow> p \<noteq> [] \<and> hd p = CHR ''/''"

fun clean_elems :: "bool \<Rightarrow> string list \<Rightarrow> string list \<Rightarrow> string list" where
  "clean_elems rooted stack [] = rev stack"
| "clean_elems rooted stack (e # es) =
     (if e = [] \<or> e = ''.'' then clean_elems rooted stack es
      else if e = ''..'' then
        (if stack \<noteq> [] \<and> hd stack \<noteq> ''..'' then clean_elems rooted (tl stack) es
         else if rooted then clean_elems rooted stack es
         else clean_elems rooted (e # stack) es)
      else clean_elems rooted (e # stack) es)"

fun join_elems :: "string list \<Rightarrow> string" where
  "join_elems [] = []"
| "join_elems [e] = e"
| "join_elems (e # es) = e @ ''/'' @ join_elems es"

definition Clean :: "string \<Rightarrow> string" where
  "Clean p =
     (if p = [] then ''.''
      else let out = (if IsAbs p then ''/'' else []) @ join_elems (clean_elems (IsAbs p) [] (split_on (CHR ''/'') p))
           in if out = [] then ''.'' else out)"

text \<open>Up to and with the last slash, cleaned.\<close>

definition Dir :: "string \<Rightarrow> string" where
  "Dir p = Clean (rev (dropWhile (\<lambda>c. c \<noteq> CHR ''/'') (rev p)))"

definition Join2 :: "string \<Rightarrow> string \<Rightarrow> string" where
  "Join2 a b =
     (if a \<noteq> [] then Clean (a @ ''/'' @ b) else if b \<noteq> [] then Clean b else [])"

section \<open>The parts of the configuration\<close>

record 'c kube_config =
  kc_File :: string
  kc_Inline :: "'c option"
  kc_Context :: string

definition KubeConfig_Load :: "string \<Rightarrow> 'c kube_config \<Rightarrow> 'c kube_config" where
  "KubeConfig_Load configPath kc =
     (if kc_File kc \<noteq> [] \<and> kc_File kc \<noteq> ''in-cluster'' \<and> \<not> IsAbs (kc_File kc)
      then kc\<lparr>kc_File := Join2 (Dir configPath) (kc_File kc)\<rparr> else kc)"

record 'c cp_config =
  cpc_APIEndpoint :: string
  cpc_RootCACert :: string
  cpc_Token :: string
  cpc_Namespace :: string
  cpc_KubeConfig :: "'c kube_config"
  cpc_AddressClaimTemplates :: "string list"

definition ControlPlane_Load :: "env \<Rightarrow> string \<Rightarrow> 'c cp_config \<Rightarrow> 'c cp_config" where
  "ControlPlane_Load env configPath cp =
     (let cp = cp\<lparr>cpc_APIEndpoint := loadFromEnv env ''TETRAPOD_CONTROLPLANE_APIENDPOINT'' (cpc_APIEndpoint cp),
                 cpc_RootCACert := loadFromEnv env ''TETRAPOD_CONTROLPLANE_ROOT_CA_CERT'' (cpc_RootCACert cp),
                 cpc_Token := loadFromEnv env ''TETRAPOD_CONTROLPLANE_TOKEN'' (cpc_Token cp),
                 cpc_Namespace := loadFromEnv env ''TETRAPOD_CONTROLPLANE_NAMESPACE'' (cpc_Namespace cp),
                 cpc_KubeConfig := (cpc_KubeConfig cp)
                   \<lparr>kc_File := loadFromEnv env ''TETRAPOD_CONTROLPLANE_KUBECONFIG'' (kc_File (cpc_KubeConfig cp)),
                    kc_Context := loadFromEnv env ''TETRAPOD_CONTROLPLANE_CONTEXT'' (kc_Context (cpc_KubeConfig cp))\<rparr>,
                 cpc_AddressClaimTemplates := loadFromEnvArray env ''TETRAPOD_CONTROLPLANE_TEMPLATES'' (cpc_AddressClaimTemplates cp)\<rparr>;
          cp = (if cpc_Namespace cp = [] then cp\<lparr>cpc_Namespace := ''default''\<rparr> else cp)
      in cp\<lparr>cpc_KubeConfig := KubeConfig_Load configPath (cpc_KubeConfig cp)\<rparr>)"

record wg_section =
  ws_PrivateKey :: string
  ws_ListenPort :: int
  ws_STUNEndpoint :: string
  ws_Name :: string
  ws_Netns :: string

text \<open>
  The key file before and after (\<open>None\<close> if it cannot be read); \<open>generated\<close> is what the generator of
  keys returns. Writing may fail silently, which \<open>written\<close> says.
\<close>

definition loadPrivateKeyFromDisk :: "string option \<Rightarrow> bool \<Rightarrow> string option \<Rightarrow> wg_section \<Rightarrow> (wg_section \<times> string option) outcome" where
  "loadPrivateKeyFromDisk generated written disk wg =
     (let wg = (case disk of
                  None \<Rightarrow> wg
                | Some b \<Rightarrow> if length b \<noteq> 0 then wg\<lparr>ws_PrivateKey := TrimSpace b\<rparr> else wg)
      in case generated of
           None \<Rightarrow> Panics ExplicitPanic
         | Some key \<Rightarrow> Returns (wg\<lparr>ws_PrivateKey := key\<rparr>, if written then Some key else disk))"

definition load_ListenPort :: "env \<Rightarrow> wg_section \<Rightarrow> wg_section outcome" where
  "load_ListenPort env wg =
     (let listenPort = loadFromEnv env ''TETRAPOD_WG_LISTEN_PORT'' []
      in if listenPort \<noteq> [] then case Atoi listenPort of None \<Rightarrow> Panics ExplicitPanic | Some p \<Rightarrow> Returns (wg\<lparr>ws_ListenPort := p\<rparr>)
         else Returns wg)"

definition wg_defaults :: "wg_section \<Rightarrow> wg_section" where
  "wg_defaults wg = wg\<lparr>ws_STUNEndpoint := or_default (ws_STUNEndpoint wg) ''stun.l.google.com:19302'',
     ws_Name := or_default (ws_Name wg) ''tetrapod0'', ws_Netns := or_default (ws_Netns wg) ''tetrapod''\<rparr>"

definition Wireguard_Load :: "env \<Rightarrow> string option \<Rightarrow> bool \<Rightarrow> string option \<Rightarrow> wg_section \<Rightarrow> (wg_section \<times> string option) outcome" where
  "Wireguard_Load env generated written disk wg =
     bind_outcome
       (load_ListenPort env
         (wg\<lparr>ws_PrivateKey := loadFromEnv env ''TETRAPOD_WG_PRIVATE_KEY'' (ws_PrivateKey wg),
             ws_STUNEndpoint := loadFromEnv env ''TETRAPOD_WG_STUN_ENDPOINT'' (ws_STUNEndpoint wg)\<rparr>))
       (\<lambda>wg.
         let wg = (if ws_ListenPort wg = 0 then wg\<lparr>ws_ListenPort := 54321\<rparr> else wg)
         in bind_outcome
              (if ws_PrivateKey wg = [] then loadPrivateKeyFromDisk generated written disk wg else Returns (wg, disk))
              (\<lambda>(wg, disk). Returns (wg_defaults wg, disk)))"

record 'c cnid_config =
  cnid_AddressClaimTemplates :: "string list"
  cnid_Extra :: bool
  cnid_SocketPath :: string
  cnid_KubeConfig :: "'c kube_config"

definition CNIDConfig_Load :: "env \<Rightarrow> string \<Rightarrow> 'c cnid_config \<Rightarrow> 'c cnid_config" where
  "CNIDConfig_Load env configPath c =
     (let c = c\<lparr>cnid_AddressClaimTemplates := loadFromEnvArray env ''TETRAPOD_CNI_POD_TEMPLATES'' (cnid_AddressClaimTemplates c),
                cnid_Extra := loadFromEnvBool env ''TETRAPOD_CNI_ENABLE_EXTRA_CLAIMS'' (cnid_Extra c)\<rparr>;
          c = (if cnid_SocketPath c = [] then c\<lparr>cnid_SocketPath := ''/run/tetrapod/cni.sock''\<rparr> else c);
          c = (if kc_File (cnid_KubeConfig c) = [] \<and> kc_Inline (cnid_KubeConfig c) = None
               then c\<lparr>cnid_KubeConfig := (cnid_KubeConfig c)\<lparr>kc_File := ''in-cluster''\<rparr>\<rparr> else c)
      in c\<lparr>cnid_KubeConfig := KubeConfig_Load configPath (cnid_KubeConfig c)\<rparr>)"

record 'c cni_config =
  cfg_ClusterName :: string
  cfg_NodeName :: string
  cfg_ControlPlane :: "'c cp_config"
  cfg_NetworkNamespace :: string
  cfg_Wireguard :: wg_section
  cfg_Cleanup :: bool
  cfg_StaticAdvertisedRoutes :: "string list"
  cfg_CNID :: "'c cnid_config"

text \<open>The result says whether every static route can be parsed.\<close>

definition CNIConfig_Load :: "(string \<Rightarrow> bool) \<Rightarrow> env \<Rightarrow> string option \<Rightarrow> bool \<Rightarrow> string \<Rightarrow> string option \<Rightarrow> 'c cni_config
    \<Rightarrow> ('c cni_config \<times> string option \<times> bool) outcome" where
  "CNIConfig_Load is_cidr env generated written configPath disk cc =
     (let cc = cc\<lparr>cfg_ClusterName := loadFromEnv env ''TETRAPOD_CLUSTER_NAME'' (cfg_ClusterName cc),
                 cfg_NodeName := loadFromEnv env ''TETRAPOD_NODE_NAME'' (cfg_NodeName cc),
                 cfg_NetworkNamespace := loadFromEnv env ''TETRAPOD_NETNS'' (cfg_NetworkNamespace cc),
                 cfg_ControlPlane := ControlPlane_Load env configPath (cfg_ControlPlane cc)\<rparr>
      in bind_outcome (Wireguard_Load env generated written disk (cfg_Wireguard cc)) (\<lambda>(wg, disk).
           let cc = cc\<lparr>cfg_Wireguard := wg, cfg_CNID := CNIDConfig_Load env configPath (cfg_CNID cc)\<rparr>
           in Returns (cc, disk, list_all is_cidr (cfg_StaticAdvertisedRoutes cc))))"

section \<open>What the daemon does with it\<close>

text \<open>Where the client of the control plane gets its address and credentials from.\<close>

datatype 'c rest_source = Endpoint string string string | Inline 'c | InCluster | KubeFile string string

definition loadRestConfigFromKubeConfig :: "'c kube_config \<Rightarrow> 'c rest_source option" where
  "loadRestConfigFromKubeConfig kc =
     (case kc_Inline kc of
        Some c \<Rightarrow> Some (Inline c)
      | None \<Rightarrow>
          if kc_File kc = ''in-cluster'' then Some InCluster
          else if kc_File kc \<noteq> [] then Some (KubeFile (kc_File kc) (kc_Context kc)) else None)"

definition rest_config :: "'c cp_config \<Rightarrow> 'c rest_source option" where
  "rest_config cp =
     (if cpc_APIEndpoint cp \<noteq> [] then Some (Endpoint (cpc_APIEndpoint cp) (cpc_Token cp) (cpc_RootCACert cp))
      else loadRestConfigFromKubeConfig (cpc_KubeConfig cp))"

text \<open>The parts that \<open>SetupCNId\<close> starts; \<open>None\<close> is the end of the process.\<close>

datatype 'c cni_part = PodCIDRSync "string list" | ExtraSync "'c rest_source" | CNIServer string bool "string list"

definition SetupCNId :: "'c cnid_config \<Rightarrow> 'c cni_part list option" where
  "SetupCNId c =
     (if length (cnid_AddressClaimTemplates c) = 0 then Some []
      else if cnid_Extra c then
        (case loadRestConfigFromKubeConfig (cnid_KubeConfig c) of
           None \<Rightarrow> None
         | Some src \<Rightarrow> Some [PodCIDRSync (cnid_AddressClaimTemplates c), ExtraSync src,
                             CNIServer (cnid_SocketPath c) True (cnid_AddressClaimTemplates c)])
      else Some [PodCIDRSync (cnid_AddressClaimTemplates c), CNIServer (cnid_SocketPath c) False (cnid_AddressClaimTemplates c)])"

section \<open>The entry point of the container\<close>

text \<open>
  \<open>tetrad/cmd/tetrad-entrypoint\<close>: it copies the plugins and their configuration unless told not
  to, and then runs the command of its arguments. \<open>ok\<close> says which copies succeed, \<open>exit\<close> is the
  code with which the command ends. The result has what was done and the exit code.
\<close>

definition loadEnv :: "env \<Rightarrow> string \<Rightarrow> string \<Rightarrow> string" where
  "loadEnv env key defaultValue = (let value = env key in if value \<noteq> [] then value else defaultValue)"

definition loadEnvBool :: "env \<Rightarrow> string \<Rightarrow> bool \<Rightarrow> bool option" where
  "loadEnvBool env key defaultValue = ParseBool (loadEnv env key (if defaultValue then ''true'' else ''false''))"

datatype entry_action = CopyFiles string string | RunCommand "string list"

definition copyPlugins :: "env \<Rightarrow> entry_action" where
  "copyPlugins env = CopyFiles (loadEnv env ''PLUGIN_DIR_SRC'' ''/plugins'') (loadEnv env ''PLUGIN_DIR_DST'' ''/opt/cni/bin/'')"

definition copyConf :: "env \<Rightarrow> entry_action" where
  "copyConf env = CopyFiles (loadEnv env ''CONFIG_DIR_SRC'' ''/config'') (loadEnv env ''CONFIG_DIR_DST'' ''/etc/cni/net.d/'')"

definition copy_unless :: "bool option \<Rightarrow> (entry_action \<Rightarrow> bool) \<Rightarrow> entry_action \<Rightarrow> entry_action list \<times> bool" where
  "copy_unless skip ok a = (case skip of None \<Rightarrow> ([], False) | Some True \<Rightarrow> ([], True) | Some False \<Rightarrow> ([a], ok a))"

definition entry_main :: "env \<Rightarrow> (entry_action \<Rightarrow> bool) \<Rightarrow> (string list \<Rightarrow> int) \<Rightarrow> string list \<Rightarrow> (entry_action list \<times> int) outcome" where
  "entry_main env ok exit args =
     (case copy_unless (loadEnvBool env ''SKIP_COPY_PLUGINS'' False) ok (copyPlugins env) of
        (as, False) \<Rightarrow> Returns (as, 1)
      | (as, True) \<Rightarrow>
          (case copy_unless (loadEnvBool env ''SKIP_COPY_CONFIG'' False) ok (copyConf env) of
             (bs, False) \<Rightarrow> Returns (as @ bs, 1)
           | (bs, True) \<Rightarrow>
               if args = [] then Panics IndexOutOfRange else Returns (as @ bs @ [RunCommand args], exit args)))"

text \<open>The command runs only behind all copies that were asked for, each of which succeeded.\<close>

lemma entry_main_runs:
  assumes "entry_main env ok exit args = Returns (as, code)" "RunCommand cmd \<in> set as"
  shows "cmd = args \<and> code = exit args \<and> (\<forall>a \<in> set (butlast as). ok a) \<and> last as = RunCommand args"
  using assms by (auto simp: entry_main_def copy_unless_def copyPlugins_def copyConf_def split: option.splits bool.splits if_splits)

section \<open>Absolute paths\<close>

lemma IsAbs_Cons [simp]: "IsAbs (c # s) \<longleftrightarrow> c = CHR ''/''"
  by (simp add: IsAbs_def)

lemma IsAbs_append [simp]: "IsAbs (a @ b) \<longleftrightarrow> (if a = [] then IsAbs b else IsAbs a)"
  by (simp add: IsAbs_def)

lemma IsAbs_Nil [simp]: "\<not> IsAbs []"
  by (simp add: IsAbs_def)

lemma IsAbs_Clean: "IsAbs p \<Longrightarrow> IsAbs (Clean p)"
  by (auto simp: Clean_def Let_def)

lemma IsAbs_Dir: "IsAbs p \<Longrightarrow> IsAbs (Dir p)"
proof -
  assume "IsAbs p"
  then obtain s where p: "p = CHR ''/'' # s" by (cases p) simp_all
  have "\<exists>d. dropWhile (\<lambda>c. c \<noteq> CHR ''/'') (rev s @ [CHR ''/'']) = d @ [CHR ''/'']"
    by (simp add: dropWhile_append)
  then obtain d where "dropWhile (\<lambda>c. c \<noteq> CHR ''/'') (rev s @ [CHR ''/'']) = d @ [CHR ''/'']" ..
  then have "rev (dropWhile (\<lambda>c. c \<noteq> CHR ''/'') (rev s @ [CHR ''/''])) = CHR ''/'' # rev d"
    by simp
  then show "IsAbs (Dir p)"
    unfolding Dir_def p by (auto intro!: IsAbs_Clean)
qed

lemma IsAbs_Join2: "IsAbs a \<Longrightarrow> IsAbs (Join2 a b)"
  by (cases "a = []") (simp_all add: Join2_def IsAbs_Clean)

definition usable_file :: "string \<Rightarrow> bool" where
  "usable_file f \<longleftrightarrow> f = [] \<or> f = ''in-cluster'' \<or> IsAbs f"

lemma KubeConfig_Load_file:
  "IsAbs configPath \<Longrightarrow> usable_file (kc_File (KubeConfig_Load configPath kc))"
  by (simp add: KubeConfig_Load_def usable_file_def IsAbs_Join2 IsAbs_Dir)

lemma KubeConfig_Load_source:
  assumes "IsAbs configPath" "kc_File kc \<noteq> [] \<or> kc_Inline kc \<noteq> None"
  shows "loadRestConfigFromKubeConfig (KubeConfig_Load configPath kc) \<noteq> None"
proof -
  have "Join2 (Dir configPath) (kc_File kc) \<noteq> []"
    using IsAbs_Join2 [OF IsAbs_Dir [OF assms(1)], of "kc_File kc"] by auto
  with assms(2) show ?thesis
    by (auto simp: KubeConfig_Load_def loadRestConfigFromKubeConfig_def split: option.split)
qed

section \<open>Property\<close>

lemma load_ListenPort_keeps:
  "load_ListenPort env wg = Returns wg' \<Longrightarrow> ws_PrivateKey wg' = ws_PrivateKey wg"
  by (auto simp: load_ListenPort_def Let_def split: if_splits option.splits)

lemma loadPrivateKeyFromDisk_ok:
  "loadPrivateKeyFromDisk generated written disk wg = Returns (wg', disk') \<Longrightarrow>
     ws_ListenPort wg' = ws_ListenPort wg \<and> generated = Some (ws_PrivateKey wg') \<and> disk' = (if written then generated else disk)"
  by (cases generated) (auto simp: loadPrivateKeyFromDisk_def Let_def split: option.splits)

lemma bind_map_fst:
  "bind_outcome m (\<lambda>(a, b). Returns (f a, b)) = Returns (x, y) \<longleftrightarrow> (\<exists>a. m = Returns (a, y) \<and> x = f a)"
  by (auto simp: bind_outcome_eq_Returns)

lemma Wireguard_Load_ok:
  assumes "Wireguard_Load env generated written disk wg = Returns (wg', disk')"
  shows "ws_ListenPort wg' \<noteq> 0 \<and> ws_STUNEndpoint wg' \<noteq> [] \<and> ws_Name wg' \<noteq> [] \<and> ws_Netns wg' \<noteq> [] \<and>
    (if loadFromEnv env ''TETRAPOD_WG_PRIVATE_KEY'' (ws_PrivateKey wg) \<noteq> []
     then ws_PrivateKey wg' = loadFromEnv env ''TETRAPOD_WG_PRIVATE_KEY'' (ws_PrivateKey wg) \<and> disk' = disk
     else generated = Some (ws_PrivateKey wg') \<and> disk' = (if written then generated else disk))"
proof -
  let ?key = "loadFromEnv env ''TETRAPOD_WG_PRIVATE_KEY'' (ws_PrivateKey wg)"
  obtain w1 w2 where w1: "ws_PrivateKey w1 = ?key" "ws_ListenPort w1 \<noteq> 0"
    and w2: "(if ws_PrivateKey w1 = [] then loadPrivateKeyFromDisk generated written disk w1 else Returns (w1, disk)) = Returns (w2, disk')"
    and wg': "wg' = wg_defaults w2"
  proof -
    from assms obtain w where w: "load_ListenPort env (wg\<lparr>ws_PrivateKey := ?key,
          ws_STUNEndpoint := loadFromEnv env ''TETRAPOD_WG_STUN_ENDPOINT'' (ws_STUNEndpoint wg)\<rparr>) = Returns w"
      and rest: "(let wg = (if ws_ListenPort w = 0 then w\<lparr>ws_ListenPort := 54321\<rparr> else w)
         in bind_outcome
              (if ws_PrivateKey wg = [] then loadPrivateKeyFromDisk generated written disk wg else Returns (wg, disk))
              (\<lambda>(wg, disk). Returns (wg_defaults wg, disk))) = Returns (wg', disk')"
      unfolding Wireguard_Load_def bind_outcome_eq_Returns by blast
    let ?w1 = "if ws_ListenPort w = 0 then w\<lparr>ws_ListenPort := 54321\<rparr> else w"
    from rest obtain w2 where "(if ws_PrivateKey ?w1 = [] then loadPrivateKeyFromDisk generated written disk ?w1 else Returns (?w1, disk)) = Returns (w2, disk')"
      "wg' = wg_defaults w2"
      unfolding Let_def bind_map_fst by blast
    moreover have "ws_PrivateKey ?w1 = ?key" "ws_ListenPort ?w1 \<noteq> 0"
      using load_ListenPort_keeps [OF w] by simp_all
    ultimately show ?thesis using that by blast
  qed
  have "ws_ListenPort w2 \<noteq> 0" and "if ?key \<noteq> [] then ws_PrivateKey w2 = ?key \<and> disk' = disk
      else generated = Some (ws_PrivateKey w2) \<and> disk' = (if written then generated else disk)"
    using w1 w2 loadPrivateKeyFromDisk_ok [of generated written disk w1 w2 disk'] by (auto split: if_splits)
  then show ?thesis
    by (simp add: wg' wg_defaults_def or_default_def)
qed

text \<open>
  A loaded configuration is complete: if loading returns, from a configuration file with an
  absolute path, the namespace, the port, the STUN server, the interface, its namespace and the
  socket are set; files with credentials have absolute paths; and the parts for CNI can be set
  up. A private key that is configured is used; if there is none, the key is a new one,
  whatever the key file holds, and the file is overwritten. The variable for extra claims cannot
  switch them on: if it is set to anything, they are off.
\<close>
lemma loaded_configuration_is_complete:
  assumes "CNIConfig_Load is_cidr env generated written configPath disk cc = Returns (cc', disk', ok)" "IsAbs configPath"
  shows "cpc_Namespace (cfg_ControlPlane cc') \<noteq> [] \<and> ws_ListenPort (cfg_Wireguard cc') \<noteq> 0 \<and> ws_STUNEndpoint (cfg_Wireguard cc') \<noteq> [] \<and>
    ws_Name (cfg_Wireguard cc') \<noteq> [] \<and> ws_Netns (cfg_Wireguard cc') \<noteq> [] \<and> cnid_SocketPath (cfg_CNID cc') \<noteq> [] \<and>
    usable_file (kc_File (cpc_KubeConfig (cfg_ControlPlane cc'))) \<and> usable_file (kc_File (cnid_KubeConfig (cfg_CNID cc'))) \<and>
    SetupCNId (cfg_CNID cc') \<noteq> None \<and>
    (if loadFromEnv env ''TETRAPOD_WG_PRIVATE_KEY'' (ws_PrivateKey (cfg_Wireguard cc)) \<noteq> []
     then ws_PrivateKey (cfg_Wireguard cc') = loadFromEnv env ''TETRAPOD_WG_PRIVATE_KEY'' (ws_PrivateKey (cfg_Wireguard cc)) \<and> disk' = disk
     else generated = Some (ws_PrivateKey (cfg_Wireguard cc')) \<and> disk' = (if written then generated else disk)) \<and>
    (env ''TETRAPOD_CNI_ENABLE_EXTRA_CLAIMS'' \<noteq> [] \<longrightarrow> \<not> cnid_Extra (cfg_CNID cc'))"
proof -
  obtain wg where wg: "Wireguard_Load env generated written disk (cfg_Wireguard cc) = Returns (wg, disk')"
    and cc': "cfg_Wireguard cc' = wg" "cfg_ControlPlane cc' = ControlPlane_Load env configPath (cfg_ControlPlane cc)"
      "cfg_CNID cc' = CNIDConfig_Load env configPath (cfg_CNID cc)"
    using assms(1) by (auto simp: CNIConfig_Load_def bind_outcome_eq_Returns Let_def)
  have plane: "cpc_Namespace (ControlPlane_Load env configPath (cfg_ControlPlane cc)) \<noteq> []"
    "usable_file (kc_File (cpc_KubeConfig (ControlPlane_Load env configPath (cfg_ControlPlane cc))))"
    by (simp_all add: ControlPlane_Load_def Let_def KubeConfig_Load_file [OF assms(2)])
  let ?c = "CNIDConfig_Load env configPath (cfg_CNID cc)"
  have cnid: "cnid_SocketPath ?c \<noteq> []" "usable_file (kc_File (cnid_KubeConfig ?c))"
    by (simp_all add: CNIDConfig_Load_def Let_def KubeConfig_Load_file [OF assms(2)])
  have "loadRestConfigFromKubeConfig (cnid_KubeConfig ?c) \<noteq> None"
    by (auto simp: CNIDConfig_Load_def Let_def intro!: KubeConfig_Load_source [OF assms(2)] simp del: not_None_eq)
  then have "SetupCNId ?c \<noteq> None"
    by (auto simp: SetupCNId_def)
  moreover have "env ''TETRAPOD_CNI_ENABLE_EXTRA_CLAIMS'' \<noteq> [] \<longrightarrow> \<not> cnid_Extra ?c"
    by (simp add: CNIDConfig_Load_def Let_def loadFromEnvBool_def ParseBool_def)
  ultimately show ?thesis
    unfolding cc' using Wireguard_Load_ok [OF wg] plane cnid by blast
qed

end
