(* ===== verification/Startup.thy ===== *)
theory Startup
  imports XdpControl Sender SplitConn Links Config Controllers
begin

text \<open>
  The start of a daemon: the construction of the connection (\<open>pkg/hijack\<close>) and of the collector, the
  initialisation of the engine, during which answers of STUN servers may already arrive, and
  the main function of \<open>tetrad\<close>. What is modelled is which resources are open after every outcome of
  the calls.
\<close>

section \<open>The sender\<close>

text \<open>
  The two raw sockets: what \<open>socket\<close> returns, and the answers of the router. \<open>open\<close> is the list of
  the open descriptors of the process; a field that holds 0 counts as not set.
\<close>

record 'r sender_calls =
  sd_Socket4 :: "int option"
  sd_Socket6 :: "int option"
  sd_routing :: "nat \<Rightarrow> 'r option"

definition close_fd :: "int \<Rightarrow> int list \<Rightarrow> int list" where
  "close_fd fd open_fds = filter (\<lambda>d. d \<noteq> fd) open_fds"

definition sender_Close :: "int \<times> int \<Rightarrow> int list \<Rightarrow> int list" where
  "sender_Close s open_fds =
     (let open_fds = (if fst s \<noteq> 0 then close_fd (fst s) open_fds else open_fds)
      in if snd s \<noteq> 0 then close_fd (snd s) open_fds else open_fds)"

definition NewSender :: "'r sender_calls \<Rightarrow> int list \<Rightarrow> int list \<times> (int \<times> int) option" where
  "NewSender K open_fds =
     (case sd_Socket4 K of
        None \<Rightarrow> (sender_Close (0, 0) open_fds, None)
      | Some fdv4 \<Rightarrow>
          let open_fds = fdv4 # open_fds
          in case sd_Socket6 K of
               None \<Rightarrow> (sender_Close (fdv4, 0) open_fds, None)
             | Some fdv6 \<Rightarrow>
                 let open_fds = fdv6 # open_fds
                 in case sender_Refresh (sd_routing K) None of
                      (router, False) \<Rightarrow> (sender_Close (fdv4, fdv6) open_fds, None)
                    | (router, True) \<Rightarrow> (open_fds, Some (fdv4, fdv6)))"

text \<open>The kernel hands out descriptors that are not open; 0 is standard input, which is.\<close>

definition fresh_fds :: "'r sender_calls \<Rightarrow> int list \<Rightarrow> bool" where
  "fresh_fds K open_fds \<longleftrightarrow> 0 \<in> set open_fds \<and>
     (\<forall>fd. sd_Socket4 K = Some fd \<longrightarrow> fd \<notin> set open_fds) \<and>
     (\<forall>fd fd'. sd_Socket6 K = Some fd \<longrightarrow> fd \<notin> set open_fds \<and> (sd_Socket4 K = Some fd' \<longrightarrow> fd \<noteq> fd'))"

lemma close_fresh: "fd \<notin> set open_fds \<Longrightarrow> close_fd fd open_fds = open_fds"
  by (auto simp: close_fd_def filter_id_conv)

lemma close_fd_Cons [simp]: "close_fd fd (d # open_fds) = (if d = fd then close_fd fd open_fds else d # close_fd fd open_fds)"
  by (simp add: close_fd_def)

lemma NewSender_releases:
  assumes "fresh_fds K open_fds" "NewSender K open_fds = (open', None)"
  shows "open' = open_fds"
proof -
  have nonzero: "fd \<noteq> 0" if "sd_Socket4 K = Some fd \<or> sd_Socket6 K = Some fd" for fd
    using assms(1) that by (auto simp: fresh_fds_def)
  show ?thesis
    using assms nonzero unfolding NewSender_def fresh_fds_def
    by (auto simp: sender_Close_def Let_def close_fresh split: option.splits prod.splits bool.splits)
qed

section \<open>The receivers\<close>

record raw_calls =
  rk_NewTPacket :: bool
  rk_Assemble :: bool
  rk_SetBPF :: bool
  rk_InterfaceAddrs :: "byte list list option"

definition fresh_raw :: raw_receiver where
  "fresh_raw = \<lparr>rr_layers = \<lparr>ip4_SrcIP = [], ip4_DstIP = [], ip6_SrcIP = [], ip6_DstIP = [], udp_SrcPort = 0, payload_bytes = []\<rparr>,
     rr_ch = [], rr_addrs = [], rr_closed = False\<rparr>"

text \<open>The result has the number of packet sockets that are open; a failure does not close the socket.\<close>

definition raw_New :: "raw_calls \<Rightarrow> nat \<Rightarrow> nat \<times> raw_receiver option" where
  "raw_New K sockets =
     (if \<not> rk_NewTPacket K then (sockets, None)
      else let sockets = sockets + 1
        in if \<not> rk_Assemble K then (sockets, None)
           else if \<not> rk_SetBPF K then (sockets, None)
           else case raw_Refresh (rk_InterfaceAddrs K) fresh_raw of
                  (r, False) \<Rightarrow> (sockets, None)
                | (r, True) \<Rightarrow> (sockets, Some r))"

definition fresh_controller :: xdp_controller where
  "fresh_controller = \<lparr>xc_ch = [], xc_addrs = [], xc_closed = False, xc_group = []\<rparr>"

text \<open>The interfaces whose goroutines are started, and the controller.\<close>

definition NewXDPController :: "byte list list option \<Rightarrow> string list option \<Rightarrow> string list \<times> xdp_controller option" where
  "NewXDPController netAddrs ifaces =
     (case xc_Refresh netAddrs ifaces fresh_controller of
        (ctrl, started, ok) \<Rightarrow> (started, if ok then Some ctrl else None))"

lemma NewXDPController_fails: "NewXDPController netAddrs ifaces = (started, None) \<Longrightarrow> started = []"
  by (auto simp: NewXDPController_def xc_Refresh_def Let_def split: option.splits prod.splits if_splits)

section \<open>The connection\<close>

text \<open>A controller is given by its place among those of the process.\<close>

datatype recver = RawReceiver raw_receiver | XdpController nat

text \<open>
  The resources of the process: descriptors of raw sockets, packet sockets, and the controllers with
  goroutines, of which those that are closed end by themselves.
\<close>

record resources =
  rs_fds :: "int list"
  rs_sockets :: nat
  rs_controllers :: "xdp_controller list"

text \<open>\<open>Close\<close> of the connection closes the parts that are there.\<close>

definition close_recver :: "recver option \<Rightarrow> resources \<Rightarrow> resources" where
  "close_recver r R =
     (case r of
        None \<Rightarrow> R
      | Some (RawReceiver _) \<Rightarrow> R\<lparr>rs_sockets := rs_sockets R - 1\<rparr>
      | Some (XdpController c) \<Rightarrow> R\<lparr>rs_controllers := (rs_controllers R)[c := xc_Close (rs_controllers R ! c)]\<rparr>)"

definition conn_Close :: "recver option \<Rightarrow> (int \<times> int) option \<Rightarrow> resources \<Rightarrow> resources" where
  "conn_Close recver sender R =
     (let R = close_recver recver R
      in case sender of None \<Rightarrow> R | Some s \<Rightarrow> R\<lparr>rs_fds := sender_Close s (rs_fds R)\<rparr>)"

record 'r conn_calls =
  ck_raw :: raw_calls
  ck_addrs :: "byte list list option"
  ck_ifaces :: "string list option"
  ck_sender :: "'r sender_calls"

text \<open>Which receiver, by the environment; an unreadable value counts as false.\<close>

definition disable_xdp :: "env \<Rightarrow> bool" where
  "disable_xdp env = (case ParseBool (env ''TETRAPOD_DISABLE_XDP'') of None \<Rightarrow> False | Some b \<Rightarrow> b)"

definition new_recver :: "env \<Rightarrow> 'r conn_calls \<Rightarrow> resources \<Rightarrow> resources \<times> recver option" where
  "new_recver env K R =
     (if disable_xdp env
      then (case raw_New (ck_raw K) (rs_sockets R) of
              (sockets, r) \<Rightarrow> (R\<lparr>rs_sockets := sockets\<rparr>, map_option RawReceiver r))
      else (case NewXDPController (ck_addrs K) (ck_ifaces K) of
              (started, None) \<Rightarrow> (R, None)
            | (started, Some ctrl) \<Rightarrow> (R\<lparr>rs_controllers := rs_controllers R @ [ctrl]\<rparr>, Some (XdpController (length (rs_controllers R))))))"

definition NewConnWithLogger :: "env \<Rightarrow> 'r conn_calls \<Rightarrow> resources \<Rightarrow> resources \<times> (recver \<times> int \<times> int) option" where
  "NewConnWithLogger env K R =
     (case new_recver env K R of
        (R, None) \<Rightarrow> (conn_Close None None R, None)
      | (R, Some recver) \<Rightarrow>
          (case NewSender (ck_sender K) (rs_fds R) of
             (fds, None) \<Rightarrow> (conn_Close (Some recver) None (R\<lparr>rs_fds := fds\<rparr>), None)
           | (fds, Some s) \<Rightarrow> (R\<lparr>rs_fds := fds\<rparr>, Some (recver, s))))"

text \<open>The packet socket that a failed construction of the raw receiver leaves open.\<close>

definition raw_leak :: "env \<Rightarrow> 'r conn_calls \<Rightarrow> nat" where
  "raw_leak env K = (if disable_xdp env \<and> rk_NewTPacket (ck_raw K) \<and>
     \<not> (rk_Assemble (ck_raw K) \<and> rk_SetBPF (ck_raw K) \<and> rk_InterfaceAddrs (ck_raw K) \<noteq> None) then 1 else 0)"

lemma raw_New_sockets:
  "raw_New K n = (n', r) \<Longrightarrow> n' = (if rk_NewTPacket K then n + 1 else n) \<and>
     (r \<noteq> None \<longleftrightarrow> rk_NewTPacket K \<and> rk_Assemble K \<and> rk_SetBPF K \<and> rk_InterfaceAddrs K \<noteq> None)"
  by (auto simp: raw_New_def raw_Refresh_def Let_def split: if_splits option.splits)

lemma new_recver_fails:
  "new_recver env K R = (R', None) \<Longrightarrow> R' = R\<lparr>rs_sockets := rs_sockets R + raw_leak env K\<rparr>"
  using raw_New_sockets [of "ck_raw K" "rs_sockets R"]
  by (auto simp: new_recver_def raw_leak_def split: if_splits prod.splits option.splits)

lemma new_recver_then_closed:
  assumes "new_recver env K R = (R', Some recver)" "\<forall>c \<in> set (rs_controllers R). xc_closed c"
  shows "rs_fds R' = rs_fds R \<and> raw_leak env K = 0 \<and> rs_sockets (close_recver (Some recver) R') = rs_sockets R \<and>
    (\<forall>c \<in> set (rs_controllers (close_recver (Some recver) R')). xc_closed c)"
proof (cases "disable_xdp env")
  case True
  from assms(1) True obtain n r where r: "raw_New (ck_raw K) (rs_sockets R) = (n, Some r)" "R' = R\<lparr>rs_sockets := n\<rparr>" "recver = RawReceiver r"
    by (auto simp: new_recver_def split: prod.splits)
  with raw_New_sockets [OF r(1)] True assms(2) show ?thesis
    by (simp add: close_recver_def raw_leak_def)
next
  case False
  with assms(1) obtain ctrl where "R' = R\<lparr>rs_controllers := rs_controllers R @ [ctrl]\<rparr>"
    "recver = XdpController (length (rs_controllers R))"
    by (auto simp: new_recver_def split: prod.splits option.splits)
  with False assms(2) show ?thesis
    by (auto simp: close_recver_def raw_leak_def xc_Close_def)
qed

section \<open>The collector and the engine\<close>

text \<open>\<open>NewSTUN\<close> looks the server up and makes a client, for whose sake it starts a goroutine.\<close>

definition NewSTUN :: "(string \<Rightarrow> byte list list option) \<Rightarrow> (nat \<Rightarrow> nat) \<Rightarrow> bool \<Rightarrow> string \<Rightarrow> bool \<Rightarrow> addr_port option" where
  "NewSTUN LookupIP Intn client_ok endpoint isV6 =
     (case lookup LookupIP Intn endpoint isV6 of
        Inl err \<Rightarrow> None
      | Inr addr \<Rightarrow> if client_ok then Some addr else None)"

text \<open>What runs after a construction: the engine's parts that nothing has closed.\<close>

datatype part = WgEngine | HijackConn | STUNClient bool

definition collector_Close :: "bool \<Rightarrow> bool \<Rightarrow> part set \<Rightarrow> part set" where
  "collector_Close hasV4 hasV6 parts =
     (let parts = (if hasV4 then parts - {STUNClient False} else parts)
      in if hasV6 then parts - {STUNClient True} else parts)"

definition NewCollector :: "(string \<Rightarrow> byte list list option) \<Rightarrow> (nat \<Rightarrow> nat) \<Rightarrow> bool \<Rightarrow> bool \<Rightarrow> string \<Rightarrow> part set
    \<Rightarrow> part set \<times> bool" where
  "NewCollector LookupIP Intn client4 client6 endpoint parts =
     (case NewSTUN LookupIP Intn client4 endpoint False of
        None \<Rightarrow> (collector_Close False False parts, False)
      | Some _ \<Rightarrow>
          let parts = insert (STUNClient False) parts
          in case NewSTUN LookupIP Intn client6 endpoint True of
               None \<Rightarrow> (collector_Close True False parts, False)
             | Some _ \<Rightarrow> (insert (STUNClient True) parts, True))"

text \<open>A failed collector leaves no client; and it fails unless the server has addresses of both families.\<close>

lemma NewCollector_fails:
  "STUNClient False \<notin> parts \<Longrightarrow> NewCollector LookupIP Intn client4 client6 endpoint parts = (parts', False) \<Longrightarrow> parts' = parts"
  by (auto simp: NewCollector_def collector_Close_def Let_def split: option.splits)

lemma collector_needs_both_families:
  assumes "NewCollector LookupIP Intn client4 client6 endpoint parts = (parts', True)"
  shows "\<exists>host ips. LookupIP host = Some ips \<and> family_addrs False ips \<noteq> [] \<and> family_addrs True ips \<noteq> []"
  using assms
  by (auto simp: NewCollector_def NewSTUN_def lookup_def Let_def split: option.splits sum.splits prod.splits if_splits)

record 'r engine_calls =
  ek_wgctrl :: bool
  ek_init :: init_failures
  ek_ifindex :: nat
  ek_key :: bool
  ek_conn :: "'r conn_calls"
  ek_client4 :: bool
  ek_client6 :: bool

definition NewNetns :: "bool \<Rightarrow> init_failures \<Rightarrow> nat \<Rightarrow> string \<Rightarrow> wg_links \<Rightarrow> wg_links \<times> bool" where
  "NewNetns wgctrl_ok F i ifaceName k = (if \<not> wgctrl_ok then (k, False) else wg_init F i ifaceName k)"

datatype init_error = WgEngineFailed | KeyFailed | HijackFailed | CollectorFailed

text \<open>\<open>init\<close> of the engine closes nothing when it fails.\<close>

definition te_init :: "env \<Rightarrow> (string \<Rightarrow> byte list list option) \<Rightarrow> (nat \<Rightarrow> nat) \<Rightarrow> 'r engine_calls \<Rightarrow> string \<Rightarrow> string
    \<Rightarrow> wg_links \<Rightarrow> resources \<Rightarrow> (wg_links \<times> resources \<times> part set) \<times> init_error option" where
  "te_init env LookupIP Intn K ifaceName endpoint k R =
     (case NewNetns (ek_wgctrl K) (ek_init K) (ek_ifindex K) ifaceName k of
        (k, False) \<Rightarrow> ((k, R, {}), Some WgEngineFailed)
      | (k, True) \<Rightarrow>
          if \<not> ek_key K then ((k, R, {WgEngine}), Some KeyFailed)
          else (case NewConnWithLogger env (ek_conn K) R of
                  (R, None) \<Rightarrow> ((k, R, {WgEngine}), Some HijackFailed)
                | (R, Some conn) \<Rightarrow>
                    (case NewCollector LookupIP Intn (ek_client4 K) (ek_client6 K) endpoint {WgEngine, HijackConn} of
                       (parts, False) \<Rightarrow> ((k, R, parts), Some CollectorFailed)
                     | (parts, True) \<Rightarrow> ((k, R, parts), None))))"

text \<open>What a failed start leaves running, by the stage at which it failed.\<close>

lemma te_init_leaves:
  assumes "te_init env LookupIP Intn K ifaceName endpoint k R = ((k', R', parts), Some err)"
  shows "parts = (case err of WgEngineFailed \<Rightarrow> {} | KeyFailed \<Rightarrow> {WgEngine} | HijackFailed \<Rightarrow> {WgEngine}
    | CollectorFailed \<Rightarrow> {WgEngine, HijackConn})"
proof -
  have "parts = {WgEngine, HijackConn}"
    if "NewCollector LookupIP Intn client4 client6 endpoint {WgEngine, HijackConn} = (parts, False)" for client4 client6
    using NewCollector_fails [OF _ that] by simp
  then show ?thesis
    using assms unfolding te_init_def by (auto split: prod.splits bool.splits if_splits option.splits)
qed

text \<open>
  The end of the engine: its parts are closed one after the other, and then the channel of the
  trigger. \<open>Close\<close> of the WireGuard engine deletes the name of its namespace, with the links in it
  as far as a later start is concerned, and ignores errors.
\<close>

definition wg_Close :: "bool \<Rightarrow> wg_links \<Rightarrow> wg_links" where
  "wg_Close deleted k = (if deleted then k\<lparr>wl_exists := False, wl_wg := []\<rparr> else k)"

definition engine_Close :: "part set \<Rightarrow> tetra_engine \<Rightarrow> part set \<times> tetra_engine outcome" where
  "engine_Close parts e =
     (let parts = parts - {WgEngine};
          parts = collector_Close True True parts;
          parts = parts - {HijackConn}
      in (parts, te_Close e))"

lemma engine_Close_all: "engine_Close parts e = ({}, te_Close e)"
proof -
  have "p \<in> {WgEngine, HijackConn, STUNClient False, STUNClient True}" for p
    by (cases p) auto
  then show ?thesis by (auto simp: engine_Close_def collector_Close_def Let_def)
qed

lemma start_after_Close:
  assumes "wl_ok n k"
  shows "\<exists>k2. wg_init Links.no_failures j n (wg_Close deleted k) = (k2, True) \<and> interface_up n k2"
proof -
  have "wl_ok n (wg_Close deleted k)"
    using assms by (auto simp: wl_ok_def wg_Close_def)
  from wg_init_works [OF this] show ?thesis .
qed

section \<open>Answers during the start\<close>

text \<open>
  \<open>init\<close> step by step from the first STUN client on, named by the statement that comes next. The
  clients run from their construction, so that answers may come at any time after it.
\<close>

datatype boot_pc = MakeV4 | NotifyV4 | MakeV6 | NotifyV6 | NotifyCollector | MakeDisco | StoreConfig | Started

text \<open>The statements in the order in which they run.\<close>

fun boot_rank :: "boot_pc \<Rightarrow> nat" where
  "boot_rank MakeV4 = 0"
| "boot_rank NotifyV4 = 1"
| "boot_rank MakeV6 = 2"
| "boot_rank NotifyV6 = 3"
| "boot_rank NotifyCollector = 4"
| "boot_rank MakeDisco = 5"
| "boot_rank StoreConfig = 6"
| "boot_rank Started = 7"

instantiation boot_pc :: linorder
begin

definition less_eq_boot_pc :: "boot_pc \<Rightarrow> boot_pc \<Rightarrow> bool" where
  "less_eq_boot_pc x y \<longleftrightarrow> boot_rank x \<le> boot_rank y"

definition less_boot_pc :: "boot_pc \<Rightarrow> boot_pc \<Rightarrow> bool" where
  "less_boot_pc x y \<longleftrightarrow> boot_rank x < boot_rank y"

instance
proof
  fix x y :: boot_pc
  show "x \<le> y \<Longrightarrow> y \<le> x \<Longrightarrow> x = y"
    by (cases x; cases y) (simp_all add: less_eq_boot_pc_def)
qed (auto simp: less_eq_boot_pc_def less_boot_pc_def)

end

lemmas boot_order = less_eq_boot_pc_def less_boot_pc_def

record boot =
  bt_pc :: boot_pc
  bt_collector :: collector
  bt_fn4 :: bool
  bt_fn6 :: bool
  bt_callback :: bool
  bt_config :: "te_config option"
  bt_endpoints :: "(addr_port list \<times> addr_port list) option"

definition boot_start :: "int \<Rightarrow> boot" where
  "boot_start listenPort = \<lparr>bt_pc = MakeV4, bt_collector = \<lparr>co_listenPort = listenPort, co_addrV4 = None, co_addrV6 = None\<rparr>,
     bt_fn4 = False, bt_fn6 = False, bt_callback = False, bt_config = None, bt_endpoints = None\<rparr>"

fun boot_next :: "te_config \<Rightarrow> boot_pc \<Rightarrow> boot \<Rightarrow> boot" where
  "boot_next cfg MakeV4 b = b\<lparr>bt_pc := NotifyV4\<rparr>"
| "boot_next cfg NotifyV4 b = b\<lparr>bt_pc := MakeV6, bt_fn4 := True\<rparr>"
| "boot_next cfg MakeV6 b = b\<lparr>bt_pc := NotifyV6\<rparr>"
| "boot_next cfg NotifyV6 b = b\<lparr>bt_pc := NotifyCollector, bt_fn6 := True\<rparr>"
| "boot_next cfg NotifyCollector b = b\<lparr>bt_pc := MakeDisco, bt_callback := True\<rparr>"
| "boot_next cfg MakeDisco b = b\<lparr>bt_pc := StoreConfig\<rparr>"
| "boot_next cfg StoreConfig b = b\<lparr>bt_pc := Started, bt_config := Some cfg\<rparr>"
| "boot_next cfg Started b = b"

definition client_runs :: "bool \<Rightarrow> boot_pc \<Rightarrow> bool" where
  "client_runs isV6 pc \<longleftrightarrow> (if isV6 then MakeV6 else MakeV4) < pc"

text \<open>
  The end of \<open>endpointsCallback\<close>, \<open>notify\<close> of the engine, reads the configuration through a pointer.
  No callback of the daemon is set before the engine is returned.
\<close>

definition boot_notify :: "nacl_box \<Rightarrow> lib \<Rightarrow> key \<Rightarrow> boot \<Rightarrow> boot outcome" where
  "boot_notify B L discoKey b =
     (case bt_config b of
        None \<Rightarrow> Panics NilDereference
      | Some cfg \<Rightarrow> bind_outcome (notify B L ((init_engine discoKey cfg)\<lparr>te_endpoints := map_option fst (bt_endpoints b)\<rparr>))
                      (\<lambda>_. Returns b))"

text \<open>An answer: the client calls its function, which calls the collector's callback if it is set.\<close>

definition stun_answer :: "nacl_box \<Rightarrow> lib \<Rightarrow> key \<Rightarrow> bool \<Rightarrow> addr_port \<Rightarrow> byte list list option \<Rightarrow> boot \<Rightarrow> boot outcome" where
  "stun_answer B L discoKey isV6 addr netAddrs b =
     (if \<not> (if isV6 then bt_fn6 b else bt_fn4 b) then Panics NilDereference
      else case (if isV6 then notifyV6 else notifyV4) netAddrs addr (bt_collector b) of
             (c, eps) \<Rightarrow>
               if bt_callback b then boot_notify B L discoKey (b\<lparr>bt_collector := c, bt_endpoints := Some eps\<rparr>)
               else Returns (b\<lparr>bt_collector := c\<rparr>))"

inductive boot_reachable :: "nacl_box \<Rightarrow> lib \<Rightarrow> key \<Rightarrow> te_config \<Rightarrow> boot \<Rightarrow> bool" for B L discoKey cfg where
  init: "boot_reachable B L discoKey cfg (boot_start (tc_ListenPort cfg))"
| go_on: "boot_reachable B L discoKey cfg b \<Longrightarrow> boot_reachable B L discoKey cfg (boot_next cfg (bt_pc b) b)"
| answer: "boot_reachable B L discoKey cfg b \<Longrightarrow> client_runs isV6 (bt_pc b) \<Longrightarrow>
     stun_answer B L discoKey isV6 addr netAddrs b = Returns b' \<Longrightarrow> boot_reachable B L discoKey cfg b'"

definition boot_inv :: "te_config \<Rightarrow> boot \<Rightarrow> bool" where
  "boot_inv cfg b \<longleftrightarrow> bt_fn4 b = (NotifyV4 < bt_pc b) \<and> bt_fn6 b = (NotifyV6 < bt_pc b) \<and>
     bt_callback b = (NotifyCollector < bt_pc b) \<and> bt_config b = (if StoreConfig < bt_pc b then Some cfg else None)"

lemma stun_answer_keeps:
  "stun_answer B L discoKey isV6 addr netAddrs b = Returns b' \<Longrightarrow>
     bt_pc b' = bt_pc b \<and> bt_fn4 b' = bt_fn4 b \<and> bt_fn6 b' = bt_fn6 b \<and> bt_callback b' = bt_callback b \<and> bt_config b' = bt_config b"
  by (auto simp: stun_answer_def boot_notify_def bind_outcome_eq_Returns split: if_splits prod.splits option.splits)

lemma boot_next_inv: "boot_inv cfg b \<Longrightarrow> boot_inv cfg (boot_next cfg (bt_pc b) b)"
  by (cases "bt_pc b") (simp_all add: boot_inv_def boot_order)

lemma boot_reachable_inv: "boot_reachable B L discoKey cfg b \<Longrightarrow> boot_inv cfg b"
proof (induction rule: boot_reachable.induct)
  case init
  show ?case by (simp add: boot_inv_def boot_start_def boot_order)
next
  case (go_on b)
  then show ?case by (simp add: boot_next_inv)
next
  case (answer b isV6 addr netAddrs b')
  with stun_answer_keeps [OF answer(3)] show ?case by (simp add: boot_inv_def)
qed

lemma boot_notify_works:
  assumes "tc_Addresses cfg = []" "bt_config b = Some cfg"
  shows "boot_notify B L discoKey b = Returns b"
  using assms by (simp add: boot_notify_def notify_def init_engine_def Let_def split: option.split)

section \<open>The main function of the daemon\<close>

record daemon_calls =
  dk_GeneratePrivateKey :: "string option"
  dk_engine :: bool
  dk_monitor :: bool
  dk_NewManager :: bool
  dk_CIDRClaimer :: bool
  dk_PeerNodeSync :: bool
  dk_PeersSync :: bool
  dk_cni :: bool
  dk_healthz :: bool
  dk_readyz :: bool
  dk_Start :: bool

datatype main_end = Exits nat | MainReturns | MainPanics go_panic

text \<open>The configuration that the engine starts with has no addresses and no peers.\<close>

definition engine_config :: "string \<Rightarrow> wg_section \<Rightarrow> te_config" where
  "engine_config privateKey wg =
     \<lparr>tc_PrivateKey = privateKey, tc_ListenPort = ws_ListenPort wg, tc_STUNEndpoint = ws_STUNEndpoint wg,
      tc_Addresses = [], tc_Peers = []\<rparr>"

text \<open>The controllers that are registered with the manager, made from the configuration.\<close>

datatype 's controller = NodeAddressSync "'s claimer" | PeerNodeSync peer_node_sync | PeersSync peers_sync

definition node_address_sync :: "(string \<Rightarrow> string) \<Rightarrow> 'c cni_config \<Rightarrow> 's claimer" where
  "node_address_sync hash cc =
     \<lparr>cl_ClusterName = cfg_ClusterName cc, cl_NodeName = cfg_NodeName cc,
      cl_TemplateNames = cpc_AddressClaimTemplates (cfg_ControlPlane cc),
      cl_ClaimNameGenerator = node_claim_name hash (cfg_ClusterName cc) (cfg_NodeName cc),
      cl_Labels = NodeTypeForNode (cfg_ClusterName cc) (cfg_NodeName cc), cl_AllocatedCallback = False\<rparr>"

definition peer_node_sync_of :: "'c cni_config \<Rightarrow> peer_node_sync" where
  "peer_node_sync_of cc =
     \<lparr>ps_ClusterName = cfg_ClusterName cc, ps_NodeName = cfg_NodeName cc,
      ps_StaticAdvertisedRoutes = cfg_StaticAdvertisedRoutes cc, ps_peerConfig = None\<rparr>"

definition peers_sync_of :: "string \<Rightarrow> 'c cni_config \<Rightarrow> peers_sync" where
  "peers_sync_of privateKey cc =
     \<lparr>sy_ClusterName = cfg_ClusterName cc, sy_NodeName = cfg_NodeName cc, sy_PrivateKey = privateKey,
      sy_ListenPort = ws_ListenPort (cfg_Wireguard cc), sy_STUNEndpoint = ws_STUNEndpoint (cfg_Wireguard cc)\<rparr>"

text \<open>Registration goes on while it succeeds; the result has what is registered and whether all are.\<close>

fun register :: "('a \<times> bool) list \<Rightarrow> 'a list \<times> bool" where
  "register [] = ([], True)"
| "register ((c, ok) # cs) = (if \<not> ok then ([], False) else case register cs of (rs, all) \<Rightarrow> (c # rs, all))"

text \<open>
  From the monitor on; \<open>dk_cni\<close> says whether the calls of \<open>SetupCNId\<close> succeed. \<open>os.Exit\<close> ends the process
  at once.
\<close>

definition daemon_run :: "(string \<Rightarrow> string) \<Rightarrow> daemon_calls \<Rightarrow> string \<Rightarrow> 'c cni_config \<Rightarrow> 's controller list \<times> main_end" where
  "daemon_run hash K privateKey cc =
     (if \<not> dk_monitor K then ([], Exits 1)
      else if rest_config (cfg_ControlPlane cc) = None then ([], Exits 1)
      else if \<not> dk_NewManager K then ([], Exits 1)
      else case register [(NodeAddressSync (node_address_sync hash cc), dk_CIDRClaimer K),
                          (PeerNodeSync (peer_node_sync_of cc), dk_PeerNodeSync K),
                          (PeersSync (peers_sync_of privateKey cc), dk_PeersSync K)] of
             (cs, False) \<Rightarrow> (cs, Exits 1)
           | (cs, True) \<Rightarrow>
               if SetupCNId (cfg_CNID cc) = None \<or> (SetupCNId (cfg_CNID cc) \<noteq> Some [] \<and> \<not> dk_cni K) then (cs, Exits 1)
               else if \<not> dk_healthz K then (cs, Exits 1)
               else if \<not> dk_readyz K then (cs, Exits 1)
               else if \<not> dk_Start K then (cs, Exits 1)
               else (cs, MainReturns))"

text \<open>
  The result: how the process ends, and, where the engine was made, its first configuration,
  whether the deferred call closed it, which runs only when \<open>main\<close> returns, and the controllers.
\<close>

definition daemon_main :: "(string \<Rightarrow> string) \<Rightarrow> daemon_calls \<Rightarrow> ('c cni_config \<times> string option \<times> bool) outcome 
    \<Rightarrow> main_end \<times> (te_config \<times> bool \<times> 's controller list) option" where
  "daemon_main hash K loaded =
     (case loaded of
        Panics p \<Rightarrow> (MainPanics p, None)
      | Returns (cc, disk, ok) \<Rightarrow>
          if \<not> ok then (Exits 1, None)
          else (case (if ws_PrivateKey (cfg_Wireguard cc) = [] then dk_GeneratePrivateKey K
                      else Some (ws_PrivateKey (cfg_Wireguard cc))) of
                  None \<Rightarrow> (Exits 1, None)
                | Some privateKey \<Rightarrow>
                    if \<not> dk_engine K then (Exits 1, None)
                    else (case daemon_run hash K privateKey cc of
                            (cs, end_of_run) \<Rightarrow>
                              (end_of_run, Some (engine_config privateKey (cfg_Wireguard cc),
                                 end_of_run = MainReturns \<and> cfg_Cleanup cc, cs)))))"

text \<open>An engine that was made is not closed where the process exits with an error, whatever was asked for.\<close>

lemma exit_skips_cleanup:
  "daemon_main hash K loaded = (Exits n, Some (cfg, closed, cs)) \<Longrightarrow> \<not> closed"
  by (auto simp: daemon_main_def split: outcome.splits option.splits if_splits prod.splits)

text \<open>The engine starts with a key, a port and a server, so that the assumption on its first configuration holds.\<close>

lemma engine_gets_complete_config:
  assumes "daemon_main hash K (CNIConfig_Load is_cidr env generated written configPath disk cc) = (e, Some (cfg, closed, cs))"
    and "dk_GeneratePrivateKey K \<noteq> Some []"
  shows "tc_PrivateKey cfg \<noteq> [] \<and> tc_ListenPort cfg \<noteq> 0 \<and> tc_STUNEndpoint cfg \<noteq> [] \<and> tc_Addresses cfg = []"
proof -
  obtain cc' disk' ok where load: "CNIConfig_Load is_cidr env generated written configPath disk cc = Returns (cc', disk', ok)"
    using assms(1) by (cases "CNIConfig_Load is_cidr env generated written configPath disk cc") (auto simp: daemon_main_def)
  obtain key where cfg: "cfg = engine_config key (cfg_Wireguard cc')" "key \<noteq> []"
    using assms unfolding load daemon_main_def by (auto split: if_splits option.splits prod.splits)
  from load obtain wg where "Wireguard_Load env generated written disk (cfg_Wireguard cc) = Returns (wg, disk')" "cfg_Wireguard cc' = wg"
    by (auto simp: CNIConfig_Load_def bind_outcome_eq_Returns Let_def)
  with Wireguard_Load_ok cfg show ?thesis
    by (auto simp: engine_config_def)
qed

text \<open>The controllers of one daemon speak of the same node, and its engine gets the keys of its reconciler.\<close>

lemma controllers_agree:
  "sync_node (peer_node_sync_of cc) = (sy_ClusterName (peers_sync_of key cc), sy_NodeName (peers_sync_of key cc))"
  "cl_Labels (node_address_sync hash cc) t = origin_labels (NodeClaim (cfg_ClusterName cc) (cfg_NodeName cc) t)"
  "tc_PrivateKey (engine_config key (cfg_Wireguard cc)) = sy_PrivateKey (peers_sync_of key cc)"
  by (simp_all add: sync_node_def peer_node_sync_of_def peers_sync_of_def node_address_sync_def engine_config_def)

section \<open>Properties\<close>

text \<open>
  C30. A connection that cannot be made is released: whichever call fails, the descriptors of the raw
  sockets are those that were open before and every XDP controller is closed, so that its
  goroutines end. The only thing left is the packet socket of a raw receiver whose own
  construction failed behind its opening.
\<close>
theorem failed_connection_is_released:
  assumes "NewConnWithLogger env K R = (R', None)" "fresh_fds (ck_sender K) (rs_fds R)" "\<forall>c \<in> set (rs_controllers R). xc_closed c"
  shows "rs_fds R' = rs_fds R \<and> (\<forall>c \<in> set (rs_controllers R'). xc_closed c) \<and> rs_sockets R' = rs_sockets R + raw_leak env K"
proof (cases "new_recver env K R")
  case (Pair R1 r)
  show ?thesis
  proof (cases r)
    case None
    with assms(1) Pair have "R' = R1"
      by (simp add: NewConnWithLogger_def conn_Close_def close_recver_def)
    with new_recver_fails [of env K R R1] Pair None assms(3) show ?thesis by simp
  next
    case (Some recver)
    note closed = new_recver_then_closed [OF Pair [unfolded Some] assms(3)]
    obtain fds where fds: "NewSender (ck_sender K) (rs_fds R1) = (fds, None)"
      "R' = conn_Close (Some recver) None (R1\<lparr>rs_fds := fds\<rparr>)"
      using assms(1) Pair Some by (auto simp: NewConnWithLogger_def split: prod.splits option.splits)
    have "fds = rs_fds R"
      using NewSender_releases [OF _ fds(1)] closed assms(2) by simp
    with closed show ?thesis
      unfolding fds(2) by (cases recver) (simp_all add: conn_Close_def close_recver_def)
  qed
qed

definition example_raw_calls :: raw_calls where
  "example_raw_calls = \<lparr>rk_NewTPacket = True, rk_Assemble = True, rk_SetBPF = True, rk_InterfaceAddrs = Some []\<rparr>"

definition example_conn_calls :: "unit conn_calls" where
  "example_conn_calls = \<lparr>ck_raw = example_raw_calls, ck_addrs = Some [], ck_ifaces = Some [''eth0''],
     ck_sender = \<lparr>sd_Socket4 = Some 5, sd_Socket6 = Some 6, sd_routing = (\<lambda>_. None)\<rparr>\<rparr>"

definition example_resources :: resources where
  "example_resources = \<lparr>rs_fds = [0, 1, 2], rs_sockets = 0, rs_controllers = []\<rparr>"

lemma example_connection:
  "NewConnWithLogger (\<lambda>_. []) example_conn_calls example_resources =
     (example_resources\<lparr>rs_controllers := [xc_Close (fresh_controller\<lparr>xc_group := [(''eth0'', ())]\<rparr>)]\<rparr>, None)"
  by code_simp

theorem failed_connection_is_released_witness:
  "rs_fds (example_resources\<lparr>rs_controllers := [xc_Close (fresh_controller\<lparr>xc_group := [(''eth0'', ())]\<rparr>)]\<rparr>) = [0, 1, 2]"
proof -
  have "fresh_fds (ck_sender example_conn_calls) (rs_fds example_resources)" "\<forall>c \<in> set (rs_controllers example_resources). xc_closed c"
    by (simp_all add: fresh_fds_def example_conn_calls_def example_resources_def)
  from failed_connection_is_released [OF example_connection this] show ?thesis
    by (simp add: example_resources_def)
qed

text \<open>
  C31. Answers of a STUN server during the start of the engine: an answer for a family makes the
  daemon panic exactly if it arrives before the function of its client is set, or between the
  callback of the collector and the first configuration; at every other moment it is taken.
\<close>
theorem answers_during_start:
  assumes "boot_reachable B L discoKey cfg b" "tc_Addresses cfg = []" "client_runs isV6 (bt_pc b)"
  shows "stun_answer B L discoKey isV6 addr netAddrs b = Panics NilDereference \<and>
      bt_pc b \<in> {if isV6 then NotifyV6 else NotifyV4, MakeDisco, StoreConfig} \<or>
    (\<exists>b'. stun_answer B L discoKey isV6 addr netAddrs b = Returns b') \<and>
      bt_pc b \<notin> {if isV6 then NotifyV6 else NotifyV4, MakeDisco, StoreConfig}"
proof -
  note inv = boot_reachable_inv [OF assms(1)]
  have works: "boot_notify B L discoKey (b\<lparr>bt_collector := c, bt_endpoints := Some eps\<rparr>) =
      Returns (b\<lparr>bt_collector := c, bt_endpoints := Some eps\<rparr>)" if "bt_pc b = Started" for c eps
    using boot_notify_works [OF assms(2)] inv that by (simp add: boot_inv_def boot_order)
  have early: "boot_notify B L discoKey (b\<lparr>bt_collector := c, bt_endpoints := Some eps\<rparr>) = Panics NilDereference"
    if "bt_pc b = MakeDisco \<or> bt_pc b = StoreConfig" for c eps
    using inv that by (auto simp: boot_notify_def boot_inv_def boot_order)
  show ?thesis
    using inv assms(3) works early
    by (cases "bt_pc b"; cases isV6) (simp_all add: boot_inv_def client_runs_def stun_answer_def boot_order split_beta)
qed

definition example_boot_config :: te_config where
  "example_boot_config = \<lparr>tc_PrivateKey = [], tc_ListenPort = 1, tc_STUNEndpoint = ''s'', tc_Addresses = [], tc_Peers = []\<rparr>"

definition boot_after :: "nat \<Rightarrow> boot" where
  "boot_after n = ((\<lambda>b. boot_next example_boot_config (bt_pc b) b) ^^ n) (boot_start 1)"

lemma boot_after_reachable: "boot_reachable B L discoKey example_boot_config (boot_after n)"
proof (induction n)
  case 0
  show ?case
    using boot_reachable.init [of B L discoKey example_boot_config] by (simp add: boot_after_def example_boot_config_def)
next
  case (Suc n)
  from boot_reachable.go_on [OF this] show ?case by (simp add: boot_after_def)
qed

theorem answers_during_start_witness:
  "stun_answer example_box example_lib (replicate 32 0) True zero_addr_port None (boot_after 6) = Panics NilDereference \<and>
   (\<exists>b'. stun_answer example_box example_lib (replicate 32 0) True zero_addr_port None (boot_after 7) = Returns b')"
proof
  have pc: "bt_pc (boot_after 6) = StoreConfig" "bt_pc (boot_after 7) = Started"
    by (simp_all add: boot_after_def boot_start_def numeral_eq_Suc)
  have "tc_Addresses example_boot_config = []" by (simp add: example_boot_config_def)
  note start = answers_during_start [OF boot_after_reachable this]
  show "stun_answer example_box example_lib (replicate 32 0) True zero_addr_port None (boot_after 6) = Panics NilDereference"
    using start [of True 6] by (simp add: pc client_runs_def boot_order)
  show "\<exists>b'. stun_answer example_box example_lib (replicate 32 0) True zero_addr_port None (boot_after 7) = Returns b'"
    using start [of True 7] by (simp add: pc client_runs_def boot_order)
qed

end
