(* ===== verification/NsExec.thy ===== *)
theory NsExec
  imports Links
begin

text \<open>
  The creation of named namespaces by a child process (\<open>pkg/nsutil\<close>), and the plugin
  \<open>tetracni/cmd/nsexec\<close>, which runs another plugin with its own input in a sandbox namespace.
\<close>

section \<open>Named namespaces\<close>

text \<open>
  Every program that links the package runs its \<open>init\<close>: the child of \<open>CreateNamespace\<close> finds a name in
  its environment, makes the namespace (which fails if the name is taken) and exits. The state is the
  list of the names.
\<close>

datatype init_end = GoesOn | ExitsWithSuccess | InitPanics

definition nsutil_init :: "bool \<Rightarrow> string \<Rightarrow> string list \<Rightarrow> string list \<times> init_end" where
  "nsutil_init fails nsName names =
     (if nsName = [] then (names, GoesOn)
      else if fails \<or> nsName \<in> set names then (names, InitPanics)
      else (names @ [nsName], ExitsWithSuccess))"

text \<open>
  Which calls fail; \<open>nx_main_ok\<close> says whether the child ends well where its \<open>init\<close> goes on into the
  program itself.
\<close>

record ns_create_calls =
  nx_Start :: bool
  nx_NewNamed_fails :: bool
  nx_main_ok :: bool
  nx_GetFromName :: bool

text \<open>The handle of a namespace is its name; \<open>None\<close> is an error.\<close>

definition GetFromName :: "bool \<Rightarrow> string \<Rightarrow> string list \<Rightarrow> string option" where
  "GetFromName works name names = (if works \<and> name \<in> set names then Some name else None)"

definition CreateNamespace :: "ns_create_calls \<Rightarrow> string \<Rightarrow> string list \<Rightarrow> string list \<times> string option" where
  "CreateNamespace K name names =
     (if \<not> nx_Start K then (names, None)
      else case nsutil_init (nx_NewNamed_fails K) name names of
             (names', InitPanics) \<Rightarrow> (names', None)
           | (names', GoesOn) \<Rightarrow> (names', if nx_main_ok K then GetFromName (nx_GetFromName K) name names' else None)
           | (names', ExitsWithSuccess) \<Rightarrow> (names', GetFromName (nx_GetFromName K) name names'))"

lemma CreateNamespace_names:
  "CreateNamespace K name names = (names', h) \<Longrightarrow> set names \<subseteq> set names' \<and> set names' \<subseteq> insert name (set names) \<and>
     (distinct names \<longrightarrow> distinct names')"
  by (auto simp: CreateNamespace_def nsutil_init_def split: if_splits)

section \<open>nsexec\<close>

record ns_conf =
  nsc_Plugin :: string
  nsc_Sandbox :: string

record 's nsexec_env =
  ne_parseConf :: "string \<Rightarrow> ns_conf option"
  ne_create :: ns_create_calls
  ne_GetFromName :: bool
  ne_FindInPath :: "string \<Rightarrow> string option"
  ne_calls :: ns_calls
  ne_exec :: "string \<Rightarrow> string \<Rightarrow> string \<Rightarrow> 's \<Rightarrow> 's \<times> bool"

text \<open>
  \<open>ne_exec path namespace stdin\<close> is the run of the plugin. The error of \<open>CreateNamespace\<close> is ignored, as
  the namespace may exist. The result has the names of the namespaces, the state after the
  plugin, and whether there was no error.
\<close>

definition nsexec_cmd :: "'s nsexec_env \<Rightarrow> string thread \<Rightarrow> string \<Rightarrow> string list \<times> 's \<Rightarrow> (string list \<times> 's) \<times> bool" where
  "nsexec_cmd E th stdin = (\<lambda>(names, s).
     case ne_parseConf E stdin of
       None \<Rightarrow> ((names, s), False)
     | Some netConf \<Rightarrow>
         (case CreateNamespace (ne_create E) (nsc_Sandbox netConf) names of
            (names, _) \<Rightarrow>
              (case GetFromName (ne_GetFromName E) (nsc_Sandbox netConf) names of
                 None \<Rightarrow> ((names, s), False)
               | Some handle \<Rightarrow>
                   (case ne_FindInPath E (nsc_Plugin netConf) of
                      None \<Rightarrow> ((names, s), False)
                    | Some pluginPath \<Rightarrow>
                        (case RunInNamespace (ne_calls E) handle (\<lambda>ns. ne_exec E pluginPath ns stdin) th s of
                           (s, ok, _) \<Rightarrow> ((names, s), ok))))))"

text \<open>
  The plugin runs at most once, in the sandbox only and with the input that nsexec got; where
  nsexec reports success it has run and succeeded, and the sandbox exists.
\<close>

lemma nsexec_runs_in_sandbox:
  assumes "nsexec_cmd E th stdin (names, s) = ((names', s'), ok)"
  shows "(s' = s \<and> \<not> ok) \<or>
    (\<exists>conf path. ne_parseConf E stdin = Some conf \<and> ne_FindInPath E (nsc_Plugin conf) = Some path \<and>
       nsc_Sandbox conf \<in> set names' \<and> ne_exec E path (nsc_Sandbox conf) stdin s = (s', ok))"
proof -
  have run: "t = s \<and> \<not> okay \<or> ne_exec E path h stdin s = (t, okay)"
    if "RunInNamespace (ne_calls E) h (\<lambda>ns. ne_exec E path ns stdin) th s = (t, okay, th')" for h path t okay th'
    using runs_in_namespace [OF that] by (auto split: if_splits)
  show ?thesis
    using assms unfolding nsexec_cmd_def GetFromName_def
    by (auto split: option.splits prod.splits if_splits dest!: run)
qed

text \<open>A second command finds the namespace of the first one and fails for no reason of its own.\<close>

lemma nsexec_again:
  assumes "nsexec_cmd E th stdin (names, s) = ((names', s'), True)" "ne_parseConf E stdin = Some conf"
    and "ne_exec E path (nsc_Sandbox conf) stdin s' = (s'', True)" "ne_FindInPath E (nsc_Plugin conf) = Some path"
  shows "\<exists>names''. nsexec_cmd E th stdin (names', s') = ((names'', s''), True)"
proof -
  obtain names1 h where create: "CreateNamespace (ne_create E) (nsc_Sandbox conf) names = (names1, h)"
    by (cases "CreateNamespace (ne_create E) (nsc_Sandbox conf) names")
  obtain t okay th' where first: "RunInNamespace (ne_calls E) (nsc_Sandbox conf) (\<lambda>ns. ne_exec E path ns stdin) th s = (t, okay, th')"
    by (metis prod_cases3)
  from assms(1,2,4) create first have names': "names' = names1" "ne_GetFromName E" "nsc_Sandbox conf \<in> set names'" "okay"
    by (auto simp: nsexec_cmd_def GetFromName_def split: if_splits)
  have calls: "nc_get (ne_calls E) \<and> nc_set (ne_calls E)"
    using runs_in_namespace [OF first] names'(4) by (simp split: if_splits)
  obtain t2 ok2 th2 where second: "RunInNamespace (ne_calls E) (nsc_Sandbox conf) (\<lambda>ns. ne_exec E path ns stdin) th s' = (t2, ok2, th2)"
    by (metis prod_cases3)
  have "t2 = s'' \<and> ok2"
    using runs_in_namespace [OF second] calls assms(3) by simp
  moreover obtain names2 h2 where create2: "CreateNamespace (ne_create E) (nsc_Sandbox conf) names' = (names2, h2)"
    by (cases "CreateNamespace (ne_create E) (nsc_Sandbox conf) names'")
  moreover have "nsc_Sandbox conf \<in> set names2"
    using CreateNamespace_names [OF create2] names'(3) by blast
  ultimately show ?thesis
    using assms(2,4) names'(2) second by (simp add: nsexec_cmd_def GetFromName_def)
qed

end
