(* ===== verification/Wrappers.thy ===== *)
theory Wrappers
  imports Prelude
begin

text \<open>
  The typed wrappers \<open>pkg/types\<close> (a packet connection over \<open>net.PacketConn\<close>) and \<open>pkg/syncpool\<close> (a
  pool over \<open>sync.Pool\<close>).
\<close>

section \<open>Packet connections\<close>

text \<open>The addresses that a \<open>net.PacketConn\<close> may return; a read below that fails is \<open>None\<close>.\<close>

datatype net_addr = UDPAddr addr_port | TCPAddr addr_port | OtherAddr

text \<open>
  The error for an unsupported address prints the result \<open>addr\<close>, which is still the zero value,
  and not the address.
\<close>

datatype read_error = ReadFailed | UnsupportedAddr addr_port

definition types_ReadFrom :: "(nat \<times> net_addr) option \<Rightarrow> read_error + nat \<times> addr_port" where
  "types_ReadFrom r =
     (case r of
        None \<Rightarrow> Inl ReadFailed
      | Some (n, UDPAddr addr) \<Rightarrow> Inr (n, addr)
      | Some (n, TCPAddr addr) \<Rightarrow> Inr (n, addr)
      | Some (n, OtherAddr) \<Rightarrow> Inl (UnsupportedAddr zero_addr_port))"

definition types_WriteTo :: "(byte list \<Rightarrow> net_addr \<Rightarrow> 'r) \<Rightarrow> byte list \<Rightarrow> addr_port \<Rightarrow> 'r" where
  "types_WriteTo write p addr = write p (UDPAddr addr)"

text \<open>A datagram written through one wrapper is read through another with its address.\<close>

lemma write_then_read: "types_WriteTo (\<lambda>p a. types_ReadFrom (Some (length p, a))) p addr = Inr (length p, addr)"
  by (simp add: types_WriteTo_def types_ReadFrom_def)

section \<open>Pools\<close>

text \<open>
  \<open>Get\<close> takes any value that was put, or makes one, as the garbage collector may have emptied the
  pool: \<open>pick\<close> is the position taken. A pool whose \<open>New\<close> is not set panics when it is asked to make one.
\<close>

definition pool_Get :: "nat \<Rightarrow> 'a option \<Rightarrow> 'a list \<Rightarrow> ('a \<times> 'a list) outcome" where
  "pool_Get pick new pool =
     (if pick < length pool then Returns (pool ! pick, take pick pool @ drop (Suc pick) pool)
      else case new of None \<Rightarrow> Panics NilDereference | Some x \<Rightarrow> Returns (x, pool))"

definition pool_Put :: "'a \<Rightarrow> 'a list \<Rightarrow> 'a list" where
  "pool_Put x pool = x # pool"

text \<open>With \<open>New\<close> set, a value that comes from the pool was made or put, and nothing else is lost.\<close>

lemma pool_Get_source:
  assumes "pool_Get pick (Some x) pool = Returns (y, pool')"
  shows "mset pool = mset pool' + (if pick < length pool then {#y#} else {#}) \<and> (y \<in> set pool \<or> y = x)"
proof (cases "pick < length pool")
  case True
  then have "mset pool = mset (take pick pool @ pool ! pick # drop (Suc pick) pool)"
    by (simp add: id_take_nth_drop [symmetric])
  with True assms show ?thesis by (auto simp: pool_Get_def)
qed (use assms in \<open>auto simp: pool_Get_def\<close>)

lemma pool_Get_no_panic: "pool_Get pick (Some x) pool \<noteq> Panics p"
  by (simp add: pool_Get_def)

end
