(* ===== verification/Cond.thy ===== *)
theory Cond
  imports Prelude
begin

text \<open>
  \<open>pkg/syncutil\<close>: a condition variable whose subscribers receive the wake-ups from a channel. Every
  subscriber has a goroutine that sleeps in \<open>Wait\<close> and then offers one token, or ends when the
  variable or the subscriber has been closed. \<open>sync.Cond\<close> is that of the standard library: \<open>Wait\<close>
  joins the list of waiters and then gives the mutex back, and a notified waiter takes it again.
\<close>

section \<open>The condition variable\<close>

text \<open>
  Where the goroutine of a subscriber is: before \<open>Lock\<close>; with the mutex before \<open>Wait\<close>; asleep;
  notified, without the mutex; with the mutex behind \<open>Wait\<close>; in the \<open>select\<close>; at its end, with the
  channel \<open>C\<close> closed.
\<close>

datatype sub_pc = Begins | Locked | Sleeps | Notified | Relocked | Selecting | Ended

text \<open>\<open>su_receivers\<close> counts the goroutines that wait for a token of \<open>C\<close>, \<open>su_delivered\<close> the tokens.\<close>

record cond_sub =
  su_pc :: sub_pc
  su_sclosed :: bool
  su_receivers :: nat
  su_delivered :: nat

record cond =
  cd_lock :: "nat option"
  cd_waiters :: "nat list"
  cd_closed :: bool
  cd_subs :: "cond_sub list"

definition cond_New :: cond where
  "cond_New = \<lparr>cd_lock = None, cd_waiters = [], cd_closed = False, cd_subs = []\<rparr>"

definition set_sub :: "nat \<Rightarrow> (cond_sub \<Rightarrow> cond_sub) \<Rightarrow> cond \<Rightarrow> cond" where
  "set_sub i f c = c\<lparr>cd_subs := (cd_subs c)[i := f (cd_subs c ! i)]\<rparr>"

abbreviation goes_to :: "sub_pc \<Rightarrow> cond_sub \<Rightarrow> cond_sub" where
  "goes_to p \<equiv> su_pc_update (\<lambda>_. p)"

definition Broadcast :: "cond \<Rightarrow> cond" where
  "Broadcast c = (fold (\<lambda>i. set_sub i (goes_to Notified)) (cd_waiters c) c)\<lparr>cd_waiters := []\<rparr>"

text \<open>The waiter that has waited longest is notified.\<close>

definition Signal :: "cond \<Rightarrow> cond" where
  "Signal c = (case cd_waiters c of [] \<Rightarrow> c | i # ws \<Rightarrow> (set_sub i (goes_to Notified) c)\<lparr>cd_waiters := ws\<rparr>)"

definition NewSubscriber :: "cond \<Rightarrow> cond" where
  "NewSubscriber c = c\<lparr>cd_subs := cd_subs c @
     [\<lparr>su_pc = Begins, su_sclosed = False, su_receivers = 0, su_delivered = 0\<rparr>]\<rparr>"

text \<open>\<open>Close\<close> closes the channel and then calls \<open>Broadcast\<close>; other goroutines can run in between.\<close>

definition cond_close_ch :: "cond \<Rightarrow> cond outcome" where
  "cond_close_ch c = (if cd_closed c then Panics CloseOfClosedChannel else Returns (c\<lparr>cd_closed := True\<rparr>))"

definition cond_Close :: "cond \<Rightarrow> cond outcome" where
  "cond_Close c = bind_outcome (cond_close_ch c) (\<lambda>c. Returns (Broadcast c))"

definition cond_sub_Close :: "nat \<Rightarrow> cond \<Rightarrow> cond outcome" where
  "cond_sub_Close i c =
     (if su_sclosed (cd_subs c ! i) then Panics CloseOfClosedChannel
      else Returns (set_sub i (su_sclosed_update (\<lambda>_. True)) c))"

section \<open>The goroutine of a subscriber\<close>

text \<open>The \<open>select\<close> takes any case that is ready: a closed channel, or a waiting receiver.\<close>

inductive sub_step :: "nat \<Rightarrow> cond \<Rightarrow> cond \<Rightarrow> bool" for i where
  lock: "i < length (cd_subs c) \<Longrightarrow> su_pc (cd_subs c ! i) = Begins \<Longrightarrow> cd_lock c = None \<Longrightarrow>
     sub_step i c ((set_sub i (goes_to Locked) c)\<lparr>cd_lock := Some i\<rparr>)"
| wait: "i < length (cd_subs c) \<Longrightarrow> su_pc (cd_subs c ! i) = Locked \<Longrightarrow>
     sub_step i c ((set_sub i (goes_to Sleeps) c)\<lparr>cd_waiters := cd_waiters c @ [i], cd_lock := None\<rparr>)"
| relock: "i < length (cd_subs c) \<Longrightarrow> su_pc (cd_subs c ! i) = Notified \<Longrightarrow> cd_lock c = None \<Longrightarrow>
     sub_step i c ((set_sub i (goes_to Relocked) c)\<lparr>cd_lock := Some i\<rparr>)"
| unlock: "i < length (cd_subs c) \<Longrightarrow> su_pc (cd_subs c ! i) = Relocked \<Longrightarrow>
     sub_step i c ((set_sub i (goes_to Selecting) c)\<lparr>cd_lock := None\<rparr>)"
| ended: "i < length (cd_subs c) \<Longrightarrow> su_pc (cd_subs c ! i) = Selecting \<Longrightarrow>
     cd_closed c \<or> su_sclosed (cd_subs c ! i) \<Longrightarrow>
     sub_step i c (set_sub i (\<lambda>s. s\<lparr>su_pc := Ended, su_receivers := 0\<rparr>) c)"
| deliver: "i < length (cd_subs c) \<Longrightarrow> su_pc (cd_subs c ! i) = Selecting \<Longrightarrow>
     su_receivers (cd_subs c ! i) = Suc n \<Longrightarrow>
     sub_step i c (set_sub i (\<lambda>s. s\<lparr>su_pc := Begins, su_receivers := n, su_delivered := su_delivered s + 1\<rparr>) c)"

inductive_cases sub_stepE: "sub_step i c c'"

definition subs_step :: "cond \<Rightarrow> cond \<Rightarrow> bool" where
  "subs_step c c' \<longleftrightarrow> (\<exists>i. sub_step i c c')"

text \<open>The users of the variable, in any order with the goroutines. \<open>NewSubscriber\<close> starts a goroutine.\<close>

inductive cond_step :: "cond \<Rightarrow> cond \<Rightarrow> bool" where
  subscribe: "cond_step c (NewSubscriber c)"
| broadcast: "cond_step c (Broadcast c)"
| signal: "cond_step c (Signal c)"
| close_ch: "cond_close_ch c = Returns c' \<Longrightarrow> cond_step c c'"
| close_sub: "i < length (cd_subs c) \<Longrightarrow> cond_sub_Close i c = Returns c' \<Longrightarrow> cond_step c c'"
| receive: "i < length (cd_subs c) \<Longrightarrow> su_pc (cd_subs c ! i) \<noteq> Ended \<Longrightarrow>
     cond_step c (set_sub i (su_receivers_update Suc) c)"
| run: "sub_step i c c' \<Longrightarrow> cond_step c c'"

inductive cond_reachable :: "cond \<Rightarrow> bool" where
  init: "cond_reachable cond_New"
| step: "cond_reachable c \<Longrightarrow> cond_step c c' \<Longrightarrow> cond_reachable c'"

section \<open>Invariant\<close>

definition pc_of :: "cond \<Rightarrow> nat \<Rightarrow> sub_pc" where
  "pc_of c i = su_pc (cd_subs c ! i)"

text \<open>The list of waiters holds each sleeper once; the mutex belongs to the goroutine that has it.\<close>

definition cond_inv :: "cond \<Rightarrow> bool" where
  "cond_inv c \<longleftrightarrow> distinct (cd_waiters c) \<and>
     (\<forall>i. i \<in> set (cd_waiters c) \<longleftrightarrow> i < length (cd_subs c) \<and> pc_of c i = Sleeps) \<and>
     (\<forall>i. cd_lock c = Some i \<longleftrightarrow> i < length (cd_subs c) \<and> pc_of c i \<in> {Locked, Relocked})"

lemma set_sub_simps [simp]:
  "cd_lock (set_sub i f c) = cd_lock c" "cd_waiters (set_sub i f c) = cd_waiters c"
  "cd_closed (set_sub i f c) = cd_closed c" "length (cd_subs (set_sub i f c)) = length (cd_subs c)"
  by (simp_all add: set_sub_def)

lemma set_sub_nth:
  "k < length (cd_subs c) \<Longrightarrow> cd_subs (set_sub i f c) ! k = (if k = i then f (cd_subs c ! i) else cd_subs c ! k)"
  by (simp add: set_sub_def nth_list_update)

lemma notify_all:
  fixes ws c
  defines "d \<equiv> fold (\<lambda>i. set_sub i (goes_to Notified)) ws c"
  shows "cd_lock d = cd_lock c" "cd_closed d = cd_closed c" "length (cd_subs d) = length (cd_subs c)"
    and "k < length (cd_subs c) \<Longrightarrow>
      cd_subs d ! k = (if k \<in> set ws then (cd_subs c ! k)\<lparr>su_pc := Notified\<rparr> else cd_subs c ! k)"
  unfolding d_def by (induction ws arbitrary: c) (simp_all add: set_sub_nth)

lemma Broadcast_simps [simp]:
  "cd_lock (Broadcast c) = cd_lock c" "cd_closed (Broadcast c) = cd_closed c" "cd_waiters (Broadcast c) = []"
  "length (cd_subs (Broadcast c)) = length (cd_subs c)"
  by (simp_all add: Broadcast_def notify_all)

lemma Broadcast_nth:
  assumes "cond_inv c" "k < length (cd_subs c)"
  shows "cd_subs (Broadcast c) ! k = (cd_subs c ! k)\<lparr>su_pc := if pc_of c k = Sleeps then Notified else pc_of c k\<rparr>"
  using assms by (auto simp: Broadcast_def notify_all cond_inv_def pc_of_def)

lemma cond_invD:
  assumes "cond_inv c"
  shows "distinct (cd_waiters c)" "i \<in> set (cd_waiters c) \<longleftrightarrow> i < length (cd_subs c) \<and> pc_of c i = Sleeps"
    "cd_lock c = Some i \<longleftrightarrow> i < length (cd_subs c) \<and> pc_of c i \<in> {Locked, Relocked}"
  using assms by (simp_all add: cond_inv_def)

lemma cond_invI:
  assumes "distinct (cd_waiters c)" "\<And>i. i \<in> set (cd_waiters c) \<longleftrightarrow> i < length (cd_subs c) \<and> pc_of c i = Sleeps"
    "\<And>i. cd_lock c = Some i \<longleftrightarrow> i < length (cd_subs c) \<and> pc_of c i \<in> {Locked, Relocked}"
  shows "cond_inv c"
  using assms by (simp add: cond_inv_def)

lemma cond_inv_Broadcast:
  assumes "cond_inv c"
  shows "cond_inv (Broadcast c)"
proof (rule cond_invI)
  have pc: "pc_of (Broadcast c) k = (if pc_of c k = Sleeps then Notified else pc_of c k)" if "k < length (cd_subs c)" for k
    using Broadcast_nth [OF assms that] by (simp add: pc_of_def)
  show "i \<in> set (cd_waiters (Broadcast c)) \<longleftrightarrow> i < length (cd_subs (Broadcast c)) \<and> pc_of (Broadcast c) i = Sleeps" for i
    using pc [of i] by auto
  show "cd_lock (Broadcast c) = Some i \<longleftrightarrow> i < length (cd_subs (Broadcast c)) \<and> pc_of (Broadcast c) i \<in> {Locked, Relocked}" for i
    using pc [of i] cond_invD(3) [OF assms, of i] by (auto split: if_splits)
qed simp

text \<open>One goroutine goes somewhere: the list and the mutex follow it.\<close>

lemma cond_inv_moved:
  assumes "cond_inv c" "i < length (cd_subs c)" "length (cd_subs c') = length (cd_subs c)"
    and pc: "\<And>k. k < length (cd_subs c) \<Longrightarrow> pc_of c' k = (if k = i then p else pc_of c k)"
    and w: "distinct (cd_waiters c')" "set (cd_waiters c') = (if p = Sleeps then insert i else id) (set (cd_waiters c) - {i})"
    and l: "cd_lock c' = (if p \<in> {Locked, Relocked} then Some i else if cd_lock c = Some i then None else cd_lock c)"
      "p \<in> {Locked, Relocked} \<longrightarrow> cd_lock c \<in> {None, Some i}"
  shows "cond_inv c'"
proof (rule cond_invI)
  note inv = cond_invD [OF assms(1)]
  show "k \<in> set (cd_waiters c') \<longleftrightarrow> k < length (cd_subs c') \<and> pc_of c' k = Sleeps" for k
    using pc [of k] inv(2) [of k] assms(2,3) by (cases "k = i") (auto simp: w(2))
  show "cd_lock c' = Some k \<longleftrightarrow> k < length (cd_subs c') \<and> pc_of c' k \<in> {Locked, Relocked}" for k
    using pc [of k] inv(3) [of k] inv(3) [of i] assms(2,3) l by (cases "k = i") (auto split: if_splits)
qed (rule w(1))

lemma pc_of_set_sub:
  "k < length (cd_subs c) \<Longrightarrow> pc_of (set_sub i f c) k = (if k = i then su_pc (f (cd_subs c ! i)) else pc_of c k)"
  by (simp add: pc_of_def set_sub_nth)

lemma pc_of_update [simp]:
  "pc_of (c\<lparr>cd_lock := l\<rparr>) k = pc_of c k" "pc_of (c\<lparr>cd_waiters := w\<rparr>) k = pc_of c k"
  "pc_of (c\<lparr>cd_waiters := w, cd_lock := l\<rparr>) k = pc_of c k"
  by (simp_all add: pc_of_def)

lemma cond_inv_Signal:
  assumes "cond_inv c"
  shows "cond_inv (Signal c)"
proof (cases "cd_waiters c")
  case Nil
  with assms show ?thesis by (simp add: Signal_def)
next
  case (Cons i ws)
  note inv = cond_invD [OF assms]
  have i: "i < length (cd_subs c)" "pc_of c i = Sleeps" "i \<notin> set ws" "distinct ws"
    using inv(1) inv(2) [of i] Cons by auto
  then show ?thesis
    using inv(3) [of i]
    by (intro cond_inv_moved [OF assms i(1), where p = Notified]) (auto simp: Signal_def Cons pc_of_set_sub)
qed

lemma cond_inv_sub_step:
  assumes "sub_step i c c'" "cond_inv c"
  shows "cond_inv c'"
proof -
  note inv = cond_invD [OF assms(2)] and moved = cond_inv_moved [OF assms(2), of i c']
  from assms(1) have "i \<in> set (cd_waiters c) \<longleftrightarrow> False"
    unfolding inv(2) by cases (auto simp: pc_of_def)
  then have i: "set (cd_waiters c) - {i} = set (cd_waiters c)" by simp
  have owner: "cd_lock c = Some i \<longleftrightarrow> i < length (cd_subs c) \<and> su_pc (cd_subs c ! i) \<in> {Locked, Relocked}"
    using inv(3) [of i] by (simp add: pc_of_def)
  from assms(1) show ?thesis
  proof cases
    case lock
    show ?thesis
      by (rule moved [where p = Locked]) (use lock inv(1) i in \<open>auto simp: pc_of_set_sub\<close>)
  next
    case wait
    show ?thesis
      by (rule moved [where p = Sleeps]) (use wait inv(1) i owner in \<open>auto simp: pc_of_set_sub\<close>)
  next
    case relock
    show ?thesis
      by (rule moved [where p = Relocked]) (use relock inv(1) i in \<open>auto simp: pc_of_set_sub\<close>)
  next
    case unlock
    show ?thesis
      by (rule moved [where p = Selecting]) (use unlock inv(1) i owner in \<open>auto simp: pc_of_set_sub\<close>)
  next
    case ended
    show ?thesis
      by (rule moved [where p = Ended]) (use ended inv(1) i owner in \<open>auto simp: pc_of_set_sub\<close>)
  next
    case (deliver n)
    show ?thesis
      by (rule moved [where p = Begins]) (use deliver inv(1) i owner in \<open>auto simp: pc_of_set_sub\<close>)
  qed
qed

lemma cond_inv_same_pcs:
  assumes "cond_inv c" "cd_lock c' = cd_lock c" "cd_waiters c' = cd_waiters c" "length (cd_subs c') = length (cd_subs c)"
    and "\<And>k. k < length (cd_subs c) \<Longrightarrow> pc_of c' k = pc_of c k"
  shows "cond_inv c'"
  using assms unfolding cond_inv_def by metis

lemma cond_inv_NewSubscriber:
  assumes "cond_inv c"
  shows "cond_inv (NewSubscriber c)"
proof (rule cond_invI)
  note inv = cond_invD [OF assms]
  have pc: "pc_of (NewSubscriber c) k = pc_of c k" if "k < length (cd_subs c)" for k
    using that by (simp add: NewSubscriber_def pc_of_def nth_append)
  have new: "pc_of (NewSubscriber c) (length (cd_subs c)) = Begins" "length (cd_subs (NewSubscriber c)) = Suc (length (cd_subs c))"
    "cd_waiters (NewSubscriber c) = cd_waiters c" "cd_lock (NewSubscriber c) = cd_lock c"
    by (simp_all add: NewSubscriber_def pc_of_def)
  show "i \<in> set (cd_waiters (NewSubscriber c)) \<longleftrightarrow> i < length (cd_subs (NewSubscriber c)) \<and> pc_of (NewSubscriber c) i = Sleeps" for i
    using pc [of i] inv(2) [of i] new by (auto simp: less_Suc_eq)
  show "cd_lock (NewSubscriber c) = Some i \<longleftrightarrow>
      i < length (cd_subs (NewSubscriber c)) \<and> pc_of (NewSubscriber c) i \<in> {Locked, Relocked}" for i
    using pc [of i] inv(3) [of i] new by (auto simp: less_Suc_eq)
qed (use cond_invD(1) [OF assms] in \<open>simp add: NewSubscriber_def\<close>)

lemma cond_reachable_inv: "cond_reachable c \<Longrightarrow> cond_inv c"
proof (induction rule: cond_reachable.induct)
  case init
  then show ?case by (simp add: cond_inv_def cond_New_def)
next
  case (step c c')
  from step.hyps(2) step.IH show ?case
  proof cases
    case close_ch
    with step.IH show ?thesis
      by (intro cond_inv_same_pcs [OF step.IH]) (auto simp: cond_close_ch_def pc_of_def split: if_splits)
  next
    case (close_sub i)
    then show ?thesis
      by (intro cond_inv_same_pcs [OF step.IH]) (auto simp: cond_sub_Close_def pc_of_def set_sub_nth split: if_splits)
  next
    case (receive i)
    then show ?thesis
      by (intro cond_inv_same_pcs [OF step.IH]) (auto simp: pc_of_def set_sub_nth)
  qed (auto intro: cond_inv_NewSubscriber cond_inv_Broadcast cond_inv_Signal cond_inv_sub_step)
qed

section \<open>The goroutines come to rest\<close>

fun pc_rank :: "sub_pc \<Rightarrow> nat" where
  "pc_rank Begins = 2"
| "pc_rank Locked = 1"
| "pc_rank Sleeps = 0"
| "pc_rank Notified = 3"
| "pc_rank Relocked = 2"
| "pc_rank Selecting = 1"
| "pc_rank Ended = 0"

definition sub_rank :: "cond_sub \<Rightarrow> nat" where
  "sub_rank s = pc_rank (su_pc s) + 2 * su_receivers s"

definition cond_rank :: "cond \<Rightarrow> nat" where
  "cond_rank c = sum_list (map sub_rank (cd_subs c))"

lemma cond_rank_set_sub:
  assumes "i < length (cd_subs c)" "sub_rank (f (cd_subs c ! i)) < sub_rank (cd_subs c ! i)"
  shows "cond_rank (set_sub i f c) < cond_rank c"
proof -
  have "cd_subs c = take i (cd_subs c) @ cd_subs c ! i # drop (Suc i) (cd_subs c)"
    using assms(1) by (rule id_take_nth_drop)
  then have "cond_rank c = sum_list (map sub_rank (take i (cd_subs c))) + sub_rank (cd_subs c ! i) +
      sum_list (map sub_rank (drop (Suc i) (cd_subs c)))"
    unfolding cond_rank_def by (metis (no_types, lifting) map_append sum_list_append list.simps(9) sum_list.Cons add.assoc)
  moreover have "cond_rank (set_sub i f c) = sum_list (map sub_rank (take i (cd_subs c))) + sub_rank (f (cd_subs c ! i)) +
      sum_list (map sub_rank (drop (Suc i) (cd_subs c)))"
    using assms(1) by (simp add: cond_rank_def set_sub_def upd_conv_take_nth_drop)
  ultimately show ?thesis using assms(2) by linarith
qed

lemma cond_rank_lock [simp]: "cond_rank (c\<lparr>cd_lock := l\<rparr>) = cond_rank c" "cond_rank (c\<lparr>cd_waiters := w\<rparr>) = cond_rank c"
  by (simp_all add: cond_rank_def)

lemma sub_step_decreases: "sub_step i c c' \<Longrightarrow> cond_rank c' < cond_rank c"
  by (erule sub_stepE) (auto intro!: cond_rank_set_sub simp: sub_rank_def)

lemma no_infinite_run: "\<not> (\<forall>n. subs_step (run n) (run (Suc n)))"
proof
  assume "\<forall>n. subs_step (run n) (run (Suc n))"
  then have "(run (Suc n), run n) \<in> measure cond_rank" for n
    using sub_step_decreases by (auto simp: subs_step_def)
  moreover have "wf (measure cond_rank)" by simp
  ultimately show False
    unfolding wf_iff_no_infinite_down_chain by blast
qed

text \<open>Where no goroutine can go on, each sleeps, has ended, or offers a token that nobody takes.\<close>

lemma at_rest:
  assumes "cond_inv c" "\<nexists>c'. subs_step c c'" "i < length (cd_subs c)"
  shows "pc_of c i \<in> {Sleeps, Ended} \<or>
    pc_of c i = Selecting \<and> \<not> cd_closed c \<and> \<not> su_sclosed (cd_subs c ! i) \<and> su_receivers (cd_subs c ! i) = 0"
proof -
  from assms(2) have stuck: "\<not> sub_step k c c'" for k c'
    by (auto simp: subs_step_def)
  have free: "cd_lock c = None"
  proof (rule ccontr)
    assume "cd_lock c \<noteq> None"
    then obtain k where "k < length (cd_subs c)" "pc_of c k \<in> {Locked, Relocked}"
      using assms(1) by (auto simp: cond_inv_def)
    then show False
      using stuck sub_step.wait [of k c] sub_step.unlock [of k c] by (auto simp: pc_of_def)
  qed
  note steps = sub_step.lock [of i c] sub_step.relock [of i c] sub_step.wait [of i c]
    sub_step.unlock [of i c] sub_step.ended [of i c] sub_step.deliver [of i c]
  show ?thesis
  proof (cases "su_pc (cd_subs c ! i)")
    case Selecting
    then show ?thesis
      using assms(3) stuck steps(5,6) by (cases "su_receivers (cd_subs c ! i)") (auto simp: pc_of_def)
  qed (use assms(3) stuck free steps(1-4) in \<open>auto simp: pc_of_def\<close>)
qed

section \<open>What a Close reaches\<close>

text \<open>Without receivers a goroutine stays on its way: to sleep, or to its end.\<close>

definition to_sleep :: "sub_pc set" where
  "to_sleep = {Begins, Locked, Sleeps}"

definition unread :: "cond \<Rightarrow> bool" where
  "unread c \<longleftrightarrow> (\<forall>k < length (cd_subs c). su_receivers (cd_subs c ! k) = 0)"

lemma unread_step:
  assumes "sub_step i c c'" "unread c"
  shows "unread c' \<and> cd_closed c' = cd_closed c \<and> length (cd_subs c') = length (cd_subs c) \<and>
    (\<forall>k < length (cd_subs c). pc_of c' k \<in> to_sleep \<longleftrightarrow> pc_of c k \<in> to_sleep)"
  using assms
  by cases (auto simp: unread_def to_sleep_def pc_of_def set_sub_nth)

lemma unread_run:
  assumes "subs_step\<^sup>*\<^sup>* c c'" "unread c" "cond_inv c"
  shows "unread c' \<and> cd_closed c' = cd_closed c \<and> length (cd_subs c') = length (cd_subs c) \<and> cond_inv c' \<and>
    (\<forall>k < length (cd_subs c). pc_of c' k \<in> to_sleep \<longleftrightarrow> pc_of c k \<in> to_sleep)"
  using assms
proof (induction rule: rtranclp_induct)
  case (step c' c'')
  then obtain i where "sub_step i c' c''" by (auto simp: subs_step_def)
  with step unread_step [OF this] cond_inv_sub_step [OF this] show ?case by simp
qed simp

lemma Broadcast_to_sleep:
  assumes "cond_inv c" "k < length (cd_subs c)"
  shows "pc_of (Broadcast c) k \<in> to_sleep \<longleftrightarrow> pc_of c k \<in> {Begins, Locked}"
  using Broadcast_nth [OF assms] by (auto simp: pc_of_def to_sleep_def)

lemma unread_Broadcast: "cond_inv c \<Longrightarrow> unread c \<Longrightarrow> unread (Broadcast c)"
  by (simp add: unread_def Broadcast_nth)

text \<open>A subscriber that is closed while its goroutine sleeps is not woken.\<close>

lemma closed_subscriber_sleeps_on:
  assumes "cond_sub_Close i c = Returns c'" "pc_of c i = Sleeps" "i < length (cd_subs c)"
  shows "pc_of c' i = Sleeps \<and> (\<nexists>d. sub_step i c' d)"
  using assms by (auto simp: cond_sub_Close_def pc_of_def set_sub_nth elim!: sub_stepE split: if_splits)

text \<open>
  A receiver that waits at the \<open>Close\<close> can be given one more token: then the goroutine goes to
  sleep again, and no later receiver gets anything.
\<close>

definition two_subs :: "nat option \<Rightarrow> nat list \<Rightarrow> bool \<Rightarrow> sub_pc \<Rightarrow> sub_pc \<Rightarrow> nat \<Rightarrow> nat \<Rightarrow> cond" where
  "two_subs l ws closed p q receivers delivered = \<lparr>cd_lock = l, cd_waiters = ws, cd_closed = closed, cd_subs =
     [\<lparr>su_pc = p, su_sclosed = False, su_receivers = receivers, su_delivered = delivered\<rparr>,
      \<lparr>su_pc = q, su_sclosed = False, su_receivers = 0, su_delivered = 0\<rparr>]\<rparr>"

lemma step_to: "sub_step i c d \<Longrightarrow> d = c' \<Longrightarrow> subs_step\<^sup>*\<^sup>* b c \<Longrightarrow> subs_step\<^sup>*\<^sup>* b c'"
  unfolding subs_step_def by (metis (mono_tags, lifting) rtranclp.rtrancl_into_rtrancl)

lemma reach_to: "cond_reachable c \<Longrightarrow> cond_step c d \<Longrightarrow> d = c' \<Longrightarrow> cond_reachable c'"
  using cond_reachable.step by blast

lemmas two_subs_simps = two_subs_def set_sub_def cond_New_def NewSubscriber_def cond_close_ch_def Broadcast_def

lemma first_sleeps_reachable: "cond_reachable (two_subs None [0] False Sleeps Begins 0 0)"
proof -
  have 1: "cond_reachable (two_subs None [] False Begins Begins 0 0)"
    by (rule reach_to [OF cond_reachable.step [OF cond_reachable.init cond_step.subscribe] cond_step.subscribe])
      (simp add: two_subs_simps)
  have 2: "cond_reachable (two_subs (Some 0) [] False Locked Begins 0 0)"
    by (rule reach_to [OF 1 cond_step.run [OF sub_step.lock [of 0]]]) (simp_all add: two_subs_simps)
  show ?thesis
    by (rule reach_to [OF 2 cond_step.run [OF sub_step.wait [of 0]]]) (simp_all add: two_subs_simps)
qed

lemma closed_reachable: "cond_reachable (two_subs None [0] True Sleeps Begins 0 0)"
  by (rule reach_to [OF first_sleeps_reachable cond_step.close_ch [OF _]]) (simp_all add: two_subs_simps)

lemma receiver_misses_close:
  "cond_reachable (two_subs None [0] True Sleeps Begins 1 0) \<and>
   subs_step\<^sup>*\<^sup>* (Broadcast (two_subs None [0] True Sleeps Begins 1 0)) (two_subs None [0] True Sleeps Begins 0 1)"
proof
  show "cond_reachable (two_subs None [0] True Sleeps Begins 1 0)"
    by (rule reach_to [OF closed_reachable cond_step.receive [of 0]]) (simp_all add: two_subs_simps)
  have 0: "Broadcast (two_subs None [0] True Sleeps Begins 1 0) = two_subs None [] True Notified Begins 1 0"
    by (simp add: two_subs_simps)
  have 1: "subs_step\<^sup>*\<^sup>* (two_subs None [] True Notified Begins 1 0) (two_subs (Some 0) [] True Relocked Begins 1 0)"
    by (rule step_to [OF sub_step.relock [of 0] _ rtranclp.rtrancl_refl]) (simp_all add: two_subs_simps)
  have 2: "subs_step\<^sup>*\<^sup>* (two_subs None [] True Notified Begins 1 0) (two_subs None [] True Selecting Begins 1 0)"
    by (rule step_to [OF sub_step.unlock [of 0] _ 1]) (simp_all add: two_subs_simps)
  have 3: "subs_step\<^sup>*\<^sup>* (two_subs None [] True Notified Begins 1 0) (two_subs None [] True Begins Begins 0 1)"
    by (rule step_to [OF sub_step.deliver [of 0 _ 0] _ 2]) (simp_all add: two_subs_simps)
  have 4: "subs_step\<^sup>*\<^sup>* (two_subs None [] True Notified Begins 1 0) (two_subs (Some 0) [] True Locked Begins 0 1)"
    by (rule step_to [OF sub_step.lock [of 0] _ 3]) (simp_all add: two_subs_simps)
  show "subs_step\<^sup>*\<^sup>* (Broadcast (two_subs None [0] True Sleeps Begins 1 0)) (two_subs None [0] True Sleeps Begins 0 1)"
    unfolding 0 by (rule step_to [OF sub_step.wait [of 0] _ 4]) (simp_all add: two_subs_simps)
qed

lemma last_run: "subs_step\<^sup>*\<^sup>* (Broadcast (two_subs None [0] True Sleeps Begins 0 0)) (two_subs None [1] True Ended Sleeps 0 0)"
proof -
  have 0: "Broadcast (two_subs None [0] True Sleeps Begins 0 0) = two_subs None [] True Notified Begins 0 0"
    by (simp add: two_subs_simps)
  let ?R = "subs_step\<^sup>*\<^sup>* (two_subs None [] True Notified Begins 0 0)"
  have 1: "?R (two_subs (Some 0) [] True Relocked Begins 0 0)"
    by (rule step_to [OF sub_step.relock [of 0] _ rtranclp.rtrancl_refl]) (simp_all add: two_subs_simps)
  have 2: "?R (two_subs None [] True Selecting Begins 0 0)"
    by (rule step_to [OF sub_step.unlock [of 0] _ 1]) (simp_all add: two_subs_simps)
  have 3: "?R (two_subs None [] True Ended Begins 0 0)"
    by (rule step_to [OF sub_step.ended [of 0] _ 2]) (simp_all add: two_subs_simps)
  have 4: "?R (two_subs (Some 1) [] True Ended Locked 0 0)"
    by (rule step_to [OF sub_step.lock [of 1] _ 3]) (simp_all add: two_subs_simps)
  show ?thesis
    unfolding 0 by (rule step_to [OF sub_step.wait [of 1] _ 4]) (simp_all add: two_subs_simps)
qed

lemma at_rest_last: "\<nexists>c. subs_step (two_subs None [1] True Ended Sleeps 0 0) c"
proof
  assume "\<exists>c. subs_step (two_subs None [1] True Ended Sleeps 0 0) c"
  then obtain i c where "sub_step i (two_subs None [1] True Ended Sleeps 0 0) c"
    by (auto simp: subs_step_def)
  then show False
    by cases (auto simp: two_subs_def less_Suc_eq)
qed

section \<open>Properties\<close>



end
