(* ===== verification/Store.thy ===== *)
theory Store
  imports Prelude
begin

text \<open>
  A store for what the objects of the API refer to: an address leads to an array, addresses below a
  limit have been allocated. A copy is deep if it reads as the original and everything it leads
  to is new. The locale states this contract for the copy function of a type; the rules build
  deep copies of pairs, records, arrays and pointers from those of their parts.
\<close>

section \<open>The store\<close>

record 'c store =
  st_cells :: "nat \<Rightarrow> 'c"
  st_lim :: nat

definition alloc :: "'c \<Rightarrow> 'c store \<Rightarrow> nat \<times> 'c store" where
  "alloc c h = (st_lim h, h\<lparr>st_cells := (st_cells h)(st_lim h := c), st_lim := st_lim h + 1\<rparr>)"

definition put :: "nat \<Rightarrow> 'c \<Rightarrow> 'c store \<Rightarrow> 'c store" where
  "put p c h = h\<lparr>st_cells := (st_cells h)(p := c)\<rparr>"

text \<open>A slice shows a part of an array; a nil slice is \<open>None\<close>.\<close>

record slice =
  sl_at :: nat
  sl_from :: nat
  sl_len :: nat

definition slice_elems :: "('c \<Rightarrow> 'a list) \<Rightarrow> 'c store \<Rightarrow> slice \<Rightarrow> 'a list" where
  "slice_elems un h s = take (sl_len s) (drop (sl_from s) (un (st_cells h (sl_at s))))"

section \<open>Deep copies\<close>

definition grows :: "'c store \<Rightarrow> 'c store \<Rightarrow> bool" where
  "grows h h' \<longleftrightarrow> st_lim h \<le> st_lim h' \<and> (\<forall>x < st_lim h. st_cells h' x = st_cells h x)"

text \<open>\<open>view\<close> is what a value reads as, and \<open>foot\<close> the addresses it leads to.\<close>

locale deep_copy =
  fixes copy :: "'a \<Rightarrow> 'c store \<Rightarrow> 'a \<times> 'c store"
    and view :: "'c store \<Rightarrow> 'a \<Rightarrow> 'v"
    and foot :: "'c store \<Rightarrow> 'a \<Rightarrow> nat set"
  assumes copies: "foot h a \<subseteq> {..<st_lim h} \<Longrightarrow> copy a h = (b, h') \<Longrightarrow>
      grows h h' \<and> view h' b = view h a \<and> foot h' b \<subseteq> {st_lim h..<st_lim h'}"
    and local: "\<forall>x \<in> foot h a. st_cells h' x = st_cells h x \<Longrightarrow> view h' a = view h a \<and> foot h' a = foot h a"
begin

lemma copy_new:
  assumes "foot h a \<subseteq> {..<st_lim h}" "copy a h = (b, h')"
  shows "grows h h'" "view h' b = view h a" "foot h' b \<subseteq> {st_lim h..<st_lim h'}"
  using copies [OF assms] by simp_all

lemma old_after_growth:
  assumes "foot h a \<subseteq> {..<st_lim h}" "grows h h'"
  shows "view h' a = view h a" "foot h' a = foot h a" "foot h' a \<subseteq> {..<st_lim h'}"
proof -
  have same: "view h' a = view h a \<and> foot h' a = foot h a"
    by (rule local) (use assms in \<open>auto simp: grows_def\<close>)
  then show "view h' a = view h a" "foot h' a = foot h a" by simp_all
  have "st_lim h \<le> st_lim h'" using assms(2) by (simp add: grows_def)
  then show "foot h' a \<subseteq> {..<st_lim h'}"
    using same assms(1) by (auto dest: subsetD)
qed

text \<open>What is written through the copy is not seen through the original, and conversely.\<close>

lemma original_unaffected:
  assumes "foot h a \<subseteq> {..<st_lim h}" "copy a h = (b, h')" "\<forall>x < st_lim h. st_cells h'' x = st_cells h' x"
  shows "view h'' a = view h a"
proof -
  have "\<forall>x \<in> foot h a. st_cells h'' x = st_cells h x"
    using assms(1,3) copy_new(1) [OF assms(1,2)] by (auto simp: grows_def)
  then show ?thesis using local by blast
qed

lemma copy_unaffected:
  assumes "foot h a \<subseteq> {..<st_lim h}" "copy a h = (b, h')" "\<forall>x \<ge> st_lim h. st_cells h'' x = st_cells h' x"
  shows "view h'' b = view h a"
proof -
  have "\<forall>x \<in> foot h' b. st_cells h'' x = st_cells h' x"
    using assms(3) copy_new(3) [OF assms(1,2)] by auto
  then have "view h'' b = view h' b" using local by blast
  then show ?thesis by (simp add: copy_new(2) [OF assms(1,2)])
qed

end

lemma grows_refl [simp]: "grows h h"
  by (simp add: grows_def)

lemma grows_trans: "grows h h' \<Longrightarrow> grows h' h'' \<Longrightarrow> grows h h''"
  by (auto simp: grows_def)

lemma grows_alloc: "alloc c h = (p, h') \<Longrightarrow> grows h h'"
  by (auto simp: alloc_def grows_def)

section \<open>Copies of parts\<close>

text \<open>Values that lead nowhere.\<close>

definition copy_plain :: "'a \<Rightarrow> 'c store \<Rightarrow> 'a \<times> 'c store" where
  "copy_plain a h = (a, h)"

definition view_plain :: "'c store \<Rightarrow> 'a \<Rightarrow> 'a" where
  "view_plain h a = a"

definition foot_plain :: "'c store \<Rightarrow> 'a \<Rightarrow> nat set" where
  "foot_plain h a = {}"

interpretation plain: deep_copy copy_plain view_plain foot_plain
  by unfold_locales (simp_all add: copy_plain_def view_plain_def foot_plain_def)

definition copy_pair :: "('a \<Rightarrow> 'c store \<Rightarrow> 'a \<times> 'c store) \<Rightarrow> ('b \<Rightarrow> 'c store \<Rightarrow> 'b \<times> 'c store)
    \<Rightarrow> 'a \<times> 'b \<Rightarrow> 'c store \<Rightarrow> ('a \<times> 'b) \<times> 'c store" where
  "copy_pair c d x h = (case c (fst x) h of (a, h) \<Rightarrow> case d (snd x) h of (b, h) \<Rightarrow> ((a, b), h))"

definition view_pair :: "('c store \<Rightarrow> 'a \<Rightarrow> 'v) \<Rightarrow> ('c store \<Rightarrow> 'b \<Rightarrow> 'w) \<Rightarrow> 'c store \<Rightarrow> 'a \<times> 'b \<Rightarrow> 'v \<times> 'w" where
  "view_pair v w h x = (v h (fst x), w h (snd x))"

definition foot_pair :: "('c store \<Rightarrow> 'a \<Rightarrow> nat set) \<Rightarrow> ('c store \<Rightarrow> 'b \<Rightarrow> nat set) \<Rightarrow> 'c store \<Rightarrow> 'a \<times> 'b \<Rightarrow> nat set" where
  "foot_pair f g h x = f h (fst x) \<union> g h (snd x)"

lemma deep_copy_pair:
  assumes "deep_copy c v f" "deep_copy d w g"
  shows "deep_copy (copy_pair c d) (view_pair v w) (foot_pair f g)"
proof
  fix h h' :: "'b store" and x y 
  assume foot: "foot_pair f g h x \<subseteq> {..<st_lim h}" and copy: "copy_pair c d x h = (y, h')"
  obtain a h1 where 1: "c (fst x) h = (a, h1)" by fastforce
  obtain b where 2: "d (snd x) h1 = (b, h')" "y = (a, b)"
    using copy by (auto simp: copy_pair_def 1 split: prod.splits)
  from foot have old: "f h (fst x) \<subseteq> {..<st_lim h}" "g h (snd x) \<subseteq> {..<st_lim h}"
    by (auto simp: foot_pair_def)
  note c = deep_copy.copy_new [OF assms(1) old(1) 1]
  note d0 = deep_copy.old_after_growth [OF assms(2) old(2) c(1)]
  note d = deep_copy.copy_new [OF assms(2) d0(3) 2(1)]
  from c(1,3) d(1) have "f h1 a \<subseteq> {..<st_lim h1}" by auto
  note a = deep_copy.old_after_growth [OF assms(1) this d(1)]
  show "grows h h' \<and> view_pair v w h' y = view_pair v w h x \<and> foot_pair f g h' y \<subseteq> {st_lim h..<st_lim h'}"
    using c d a d0(1) grows_trans [OF c(1) d(1)]
    by (auto simp: view_pair_def foot_pair_def 2(2) grows_def)
next
  fix h h' :: "'b store" and x 
  assume "\<forall>i \<in> foot_pair f g h x. st_cells h' i = st_cells h i"
  then show "view_pair v w h' x = view_pair v w h x \<and> foot_pair f g h' x = foot_pair f g h x"
    using deep_copy.local [OF assms(1), of h "fst x" h'] deep_copy.local [OF assms(2), of h "snd x" h']
    by (simp add: view_pair_def foot_pair_def ball_Un)
qed

text \<open>A record, of which \<open>get\<close> takes the deep fields and \<open>upd\<close> replaces them; \<open>mk\<close> makes what it reads as.\<close>

lemma deep_copy_record:
  assumes "deep_copy c v f" "\<And>a h. C a h = (case c (get a) h of (x, h') \<Rightarrow> (upd a x, h'))"
    and "\<And>h a. V h a = mk a (v h (get a))" "\<And>h a. F h a = f h (get a)"
    and "\<And>a x. get (upd a x) = x" "\<And>a x. mk (upd a x) = mk a"
  shows "deep_copy C V F"
proof
  fix h h' :: "'b store" and a b 
  assume foot: "F h a \<subseteq> {..<st_lim h}" and copy: "C a h = (b, h')"
  obtain x where x: "c (get a) h = (x, h')" "b = upd a x"
    using copy unfolding assms(2) by (auto split: prod.splits)
  from deep_copy.copies [OF assms(1) foot [unfolded assms(4)] x(1)]
  show "grows h h' \<and> V h' b = V h a \<and> F h' b \<subseteq> {st_lim h..<st_lim h'}"
    by (simp add: x(2) assms(3-6))
next
  fix h h' :: "'b store" and a 
  assume "\<forall>i \<in> F h a. st_cells h' i = st_cells h i"
  from deep_copy.local [OF assms(1) this [unfolded assms(4)]]
  show "V h' a = V h a \<and> F h' a = F h a"
    by (simp add: assms(3,4))
qed

section \<open>Arrays and pointers\<close>

fun copy_each :: "('a \<Rightarrow> 'c store \<Rightarrow> 'a \<times> 'c store) \<Rightarrow> 'a list \<Rightarrow> 'c store \<Rightarrow> 'a list \<times> 'c store" where
  "copy_each c [] h = ([], h)"
| "copy_each c (x # xs) h = (case c x h of (y, h) \<Rightarrow> case copy_each c xs h of (ys, h) \<Rightarrow> (y # ys, h))"

definition view_each :: "('c store \<Rightarrow> 'a \<Rightarrow> 'v) \<Rightarrow> 'c store \<Rightarrow> 'a list \<Rightarrow> 'v list" where
  "view_each v h xs = map (v h) xs"

definition foot_each :: "('c store \<Rightarrow> 'a \<Rightarrow> nat set) \<Rightarrow> 'c store \<Rightarrow> 'a list \<Rightarrow> nat set" where
  "foot_each f h xs = \<Union> (f h ` set xs)"

lemma deep_copy_each:
  assumes "deep_copy c v f"
  shows "deep_copy (copy_each c) (view_each v) (foot_each f)"
proof
  fix h h' :: "'b store" and xs ys 
  assume "foot_each f h xs \<subseteq> {..<st_lim h}" "copy_each c xs h = (ys, h')"
  then show "grows h h' \<and> view_each v h' ys = view_each v h xs \<and> foot_each f h' ys \<subseteq> {st_lim h..<st_lim h'}"
  proof (induction xs arbitrary: h ys)
    case Nil
    then show ?case by (simp add: view_each_def foot_each_def)
  next
    case (Cons x xs)
    obtain y h1 where 1: "c x h = (y, h1)" by fastforce
    obtain zs where 2: "copy_each c xs h1 = (zs, h')" "ys = y # zs"
      using Cons.prems(2) by (auto simp: 1 split: prod.splits)
    from Cons.prems(1) have old: "f h x \<subseteq> {..<st_lim h}" "\<And>z. z \<in> set xs \<Longrightarrow> f h z \<subseteq> {..<st_lim h}"
      by (auto simp: foot_each_def)
    note c = deep_copy.copy_new [OF assms old(1) 1]
    note rest = deep_copy.old_after_growth [OF assms old(2) c(1)]
    from rest(3) have "foot_each f h1 xs \<subseteq> {..<st_lim h1}"
      by (auto simp: foot_each_def)
    note IH = Cons.IH [OF this 2(1)]
    from IH have g: "grows h1 h'" by simp
    from c(3) have "f h1 y \<subseteq> {..<st_lim h1}" by auto
    note y = deep_copy.old_after_growth [OF assms this g]
    have "view_each v h' zs = view_each v h xs"
      using IH rest(1) by (simp add: view_each_def cong: map_cong)
    moreover have "foot_each f h' zs \<subseteq> {st_lim h..<st_lim h'}"
      using IH c(1) by (auto simp: grows_def)
    moreover have "f h' y \<subseteq> {st_lim h..<st_lim h'}"
      using y(2) c(3) g by (auto simp: grows_def)
    ultimately show ?case
      using grows_trans [OF c(1) g] y(1) c(2) by (simp add: view_each_def foot_each_def 2(2))
  qed
next
  fix h h' :: "'b store" and xs 
  assume "\<forall>i \<in> foot_each f h xs. st_cells h' i = st_cells h i"
  then have "v h' x = v h x \<and> f h' x = f h x" if "x \<in> set xs" for x
    using deep_copy.local [OF assms, of h x h'] that by (auto simp: foot_each_def)
  then show "view_each v h' xs = view_each v h xs \<and> foot_each f h' xs = foot_each f h xs"
    by (simp add: view_each_def foot_each_def)
qed

text \<open>
  \<open>make\<close> and the loop over the elements: the array is new, and filled with the copies. \<open>un\<close> and \<open>mk\<close>
  select and make the arrays of the type of the elements.
\<close>

definition copy_slice :: "('c \<Rightarrow> 'a list) \<Rightarrow> ('a list \<Rightarrow> 'c) \<Rightarrow> ('a \<Rightarrow> 'c store \<Rightarrow> 'a \<times> 'c store)
    \<Rightarrow> slice option \<Rightarrow> 'c store \<Rightarrow> slice option \<times> 'c store" where
  "copy_slice un mk c s h = (case s of None \<Rightarrow> (None, h)
     | Some s \<Rightarrow>
         let xs = slice_elems un h s
         in case alloc (mk []) h of (p, h) \<Rightarrow>
              case copy_each c xs h of (ys, h) \<Rightarrow>
                (Some \<lparr>sl_at = p, sl_from = 0, sl_len = length ys\<rparr>, put p (mk ys) h))"

definition view_slice :: "('c \<Rightarrow> 'a list) \<Rightarrow> ('c store \<Rightarrow> 'a \<Rightarrow> 'v) \<Rightarrow> 'c store \<Rightarrow> slice option \<Rightarrow> 'v list option" where
  "view_slice un v h s = map_option (\<lambda>s. view_each v h (slice_elems un h s)) s"

definition foot_slice :: "('c \<Rightarrow> 'a list) \<Rightarrow> ('c store \<Rightarrow> 'a \<Rightarrow> nat set) \<Rightarrow> 'c store \<Rightarrow> slice option \<Rightarrow> nat set" where
  "foot_slice un f h s = (case s of None \<Rightarrow> {} | Some s \<Rightarrow> insert (sl_at s) (foot_each f h (slice_elems un h s)))"

lemma deep_copy_slice:
  assumes c: "deep_copy c v f" and un: "\<And>xs. un (mk xs) = xs"
  shows "deep_copy (copy_slice un mk c) (view_slice un v) (foot_slice un f)"
proof
  note each = deep_copy_each [OF c]
  fix h h' :: "'b store" and s t 
  assume foot: "foot_slice un f h s \<subseteq> {..<st_lim h}" and copy: "copy_slice un mk c s h = (t, h')"
  show "grows h h' \<and> view_slice un v h' t = view_slice un v h s \<and> foot_slice un f h' t \<subseteq> {st_lim h..<st_lim h'}"
  proof (cases s)
    case None
    with copy show ?thesis by (simp add: copy_slice_def view_slice_def foot_slice_def)
  next
    case (Some r)
    let ?xs = "slice_elems un h r"
    obtain h1 where 1: "alloc (mk []) h = (st_lim h, h1)" "st_lim h1 = st_lim h + 1"
      by (simp add: alloc_def)
    obtain ys h2 where 2: "copy_each c ?xs h1 = (ys, h2)" by fastforce
    have t: "t = Some \<lparr>sl_at = st_lim h, sl_from = 0, sl_len = length ys\<rparr>" "h' = put (st_lim h) (mk ys) h2"
      using copy by (simp_all add: copy_slice_def Some 1(1) 2 Let_def)
    have g1: "grows h h1" by (rule grows_alloc [OF 1(1)])
    from foot Some have "foot_each f h ?xs \<subseteq> {..<st_lim h}" by (simp add: foot_slice_def)
    note old = deep_copy.old_after_growth [OF each this g1]
    note new = deep_copy.copy_new [OF each old(3) 2]
    have "\<forall>x \<in> foot_each f h2 ys. st_cells h' x = st_cells h2 x"
      using new(3) 1(2) by (auto simp: t(2) put_def)
    note ys = deep_copy.local [OF each this]
    have lims: "st_lim h < st_lim h2" "st_lim h' = st_lim h2"
      using new(1) 1(2) by (auto simp: grows_def t(2) put_def)
    have "grows h h'"
      using grows_trans [OF g1 new(1)] lims by (auto simp: grows_def t(2) put_def)
    moreover have elems: "slice_elems un h' \<lparr>sl_at = st_lim h, sl_from = 0, sl_len = length ys\<rparr> = ys"
      by (simp add: slice_elems_def t(2) put_def un)
    ultimately show ?thesis
      using ys new(2,3) old(1) lims 1(2) by (auto simp: view_slice_def foot_slice_def Some t(1) elems)
  qed
next
  fix h h' :: "'b store" and s 
  assume same: "\<forall>i \<in> foot_slice un f h s. st_cells h' i = st_cells h i"
  show "view_slice un v h' s = view_slice un v h s \<and> foot_slice un f h' s = foot_slice un f h s"
  proof (cases s)
    case (Some r)
    with same have "slice_elems un h' r = slice_elems un h r"
      by (simp add: slice_elems_def foot_slice_def)
    moreover have "\<forall>i \<in> foot_each f h (slice_elems un h r). st_cells h' i = st_cells h i"
      using same Some by (simp add: foot_slice_def)
    ultimately show ?thesis
      using deep_copy.local [OF deep_copy_each [OF c], of h "slice_elems un h r" h'] Some
      by (simp add: view_slice_def foot_slice_def)
  qed (simp add: view_slice_def foot_slice_def)
qed

text \<open>A pointer leads to an array of one element, made by \<open>new\<close>.\<close>

definition whole :: "nat \<Rightarrow> slice" where
  "whole p = \<lparr>sl_at = p, sl_from = 0, sl_len = 1\<rparr>"

definition copy_ptr :: "('c \<Rightarrow> 'a list) \<Rightarrow> ('a list \<Rightarrow> 'c) \<Rightarrow> ('a \<Rightarrow> 'c store \<Rightarrow> 'a \<times> 'c store)
    \<Rightarrow> nat option \<Rightarrow> 'c store \<Rightarrow> nat option \<times> 'c store" where
  "copy_ptr un mk c p h =
     (case copy_slice un mk c (map_option whole p) h of (s, h) \<Rightarrow> (map_option sl_at s, h))"

definition view_ptr :: "('c \<Rightarrow> 'a list) \<Rightarrow> ('c store \<Rightarrow> 'a \<Rightarrow> 'v) \<Rightarrow> 'c store \<Rightarrow> nat option \<Rightarrow> 'v list option" where
  "view_ptr un v h p = view_slice un v h (map_option whole p)"

definition foot_ptr :: "('c \<Rightarrow> 'a list) \<Rightarrow> ('c store \<Rightarrow> 'a \<Rightarrow> nat set) \<Rightarrow> 'c store \<Rightarrow> nat option \<Rightarrow> nat set" where
  "foot_ptr un f h p = foot_slice un f h (map_option whole p)"

lemma length_copy_each: "copy_each c xs h = (ys, h') \<Longrightarrow> length ys = length xs"
  by (induction xs arbitrary: h ys) (auto split: prod.splits)

lemma deep_copy_ptr:
  assumes c: "deep_copy c v f" and un: "\<And>xs. un (mk xs) = xs"
  shows "deep_copy (copy_ptr un mk c) (view_ptr un v) (foot_ptr un f)"
proof
  note slice = deep_copy_slice [OF assms]
  fix h h' :: "'b store" and p q
  assume foot: "foot_ptr un f h p \<subseteq> {..<st_lim h}" and copy: "copy_ptr un mk c p h = (q, h')"
  obtain s where s: "copy_slice un mk c (map_option whole p) h = (s, h')" "q = map_option sl_at s"
    using copy by (auto simp: copy_ptr_def split: prod.splits)
  have "view_ptr un v h' q = view_slice un v h' s \<and> foot_ptr un f h' q = foot_slice un f h' s"
  proof (cases p)
    case None
    with s show ?thesis by (simp add: copy_slice_def view_ptr_def foot_ptr_def)
  next
    case (Some i)
    obtain a h1 where 1: "alloc (mk []) h = (a, h1)" by fastforce
    obtain ys h2 where 2: "copy_each c (slice_elems un h (whole i)) h1 = (ys, h2)" by fastforce
    have t: "s = Some \<lparr>sl_at = a, sl_from = 0, sl_len = length ys\<rparr>" "h' = put a (mk ys) h2"
      using s(1) by (simp_all add: copy_slice_def Some 1 2 Let_def)
    have "length ys \<le> 1"
      using length_copy_each [OF 2] by (simp add: slice_elems_def whole_def)
    then have "slice_elems un h' (whole a) = slice_elems un h' \<lparr>sl_at = a, sl_from = 0, sl_len = length ys\<rparr>"
      by (simp add: slice_elems_def whole_def t(2) put_def un)
    then show ?thesis
      by (simp add: view_ptr_def foot_ptr_def view_slice_def foot_slice_def s(2) t(1)) (simp add: whole_def)
  qed
  with deep_copy.copies [OF slice foot [unfolded foot_ptr_def] s(1)]
  show "grows h h' \<and> view_ptr un v h' q = view_ptr un v h p \<and> foot_ptr un f h' q \<subseteq> {st_lim h..<st_lim h'}"
    by (simp add: view_ptr_def)
next
  fix h h' :: "'b store" and p
  assume "\<forall>i \<in> foot_ptr un f h p. st_cells h' i = st_cells h i"
  then show "view_ptr un v h' p = view_ptr un v h p \<and> foot_ptr un f h' p = foot_ptr un f h p"
    unfolding view_ptr_def foot_ptr_def by (rule deep_copy.local [OF deep_copy_slice [OF assms]])
qed

text \<open>\<open>DeepCopy\<close> of a type: the struct itself is new, and \<open>nil\<close> is copied to \<open>nil\<close>.\<close>

definition new_copy :: "('a \<Rightarrow> 'c store \<Rightarrow> 'a \<times> 'c store) \<Rightarrow> 'a option \<Rightarrow> 'c store \<Rightarrow> 'a option \<times> 'c store" where
  "new_copy c p h = (case p of None \<Rightarrow> (None, h) | Some a \<Rightarrow> case c a h of (out, h) \<Rightarrow> (Some out, h))"

end
