(* ===== verification/DeepCopies.thy ===== *)
theory DeepCopies
  imports Store IpAlloc
begin

text \<open>
  The copies of the objects of the two API packages, \<open>zz_generated.deepcopy.go\<close> of
  \<open>controlplane/api/v1alpha1\<close> and \<open>tetrad/api/v1alpha1\<close>, over a store. The controllers change copies of
  objects that the client's cache shares. A struct is a record whose slices and pointers lead into
  the store; the records are generic in them, so that the same record with lists is what a struct
  reads as. The types of the Kubernetes libraries and their copies are parameters.
\<close>

section \<open>The objects\<close>

record type_meta =
  tm_Kind :: string
  tm_APIVersion :: string

record block_spec =
  bsp_CIDR :: string

text \<open>The status of a block and that of a template have no fields.\<close>

record 'm block_object =
  bo_TypeMeta :: type_meta
  bo_ObjectMeta :: 'm
  bo_Spec :: block_spec
  bo_Status :: unit

record 'm claim_spec =
  csp_Selector :: 'm
  csp_SizeBit :: int

record 'm claim_object =
  co_TypeMeta :: type_meta
  co_ObjectMeta :: 'm
  co_Spec :: "'m claim_spec"
  co_Status :: claim_status

record 'm template_spec =
  tsp_Selector :: 'm
  tsp_SizeBit :: int

record 'm template_object =
  to_TypeMeta :: type_meta
  to_ObjectMeta :: 'm
  to_Spec :: "'m template_spec"
  to_Status :: unit

record attributes =
  at_HostName :: string
  at_OS :: string
  at_Arch :: string

record ('s, 'm) peer_spec =
  psp_PublicKey :: string
  psp_PublicDiscoKey :: string
  psp_Attributes :: attributes
  psp_Endpoints :: 's
  psp_StaticRoutes :: 's
  psp_ClaimsSelector :: 'm
  psp_AddressesSelector :: 'm

record peer_status =
  pst_ObservedGeneration :: int
  pst_Message :: string

record ('s, 'm) peer_object =
  po_TypeMeta :: type_meta
  po_ObjectMeta :: 'm
  po_Spec :: "('s, 'm) peer_spec"
  po_Status :: peer_status

text \<open>The four types of lists have the same shape.\<close>

record ('i, 'm) object_list =
  ol_TypeMeta :: type_meta
  ol_ListMeta :: 'm
  ol_Items :: 'i

record 'p kubeconfig_object =
  ko_File :: string
  ko_Inline :: 'p
  ko_Context :: string

record ('s, 'p) control_plane_object =
  cpo_APIEndpoint :: string
  cpo_RootCACert :: string
  cpo_Token :: string
  cpo_Namespace :: string
  cpo_KubeConfig :: "'p kubeconfig_object"
  cpo_AddressClaimTemplates :: 's

record wireguard_object =
  wo_PrivateKey :: string
  wo_ListenPort :: int
  wo_STUNEndpoint :: string
  wo_Name :: string
  wo_Netns :: string

record ('s, 'p) cnid_object =
  cno_AddressClaimTemplates :: 's
  cno_Extra :: bool
  cno_SocketPath :: string
  cno_KubeConfig :: "'p kubeconfig_object"

record ('s, 'p, 'm) cni_object =
  ci_TypeMeta :: type_meta
  ci_ManagerSpec :: 'm
  ci_ClusterName :: string
  ci_NodeName :: string
  ci_ControlPlane :: "('s, 'p) control_plane_object"
  ci_NetworkNamespace :: string
  ci_Wireguard :: wireguard_object
  ci_Cleanup :: bool
  ci_StaticAdvertisedRoutes :: 's
  ci_CNID :: "('s, 'p) cnid_object"

section \<open>The store\<close>

text \<open>Arrays of strings, of objects and of values of the libraries, and what the libraries store.\<close>

datatype ('m, 'l) cell =
  Strings (strings_of: "string list")
| Blocks (blocks_of: "'m block_object list")
| Claims (claims_of: "'m claim_object list")
| Templates (templates_of: "'m template_object list")
| Peers (peers_in: "(slice option, 'm) peer_object list")
| LibValues (lib_values_of: "'m list")
| LibCell 'l

type_synonym ('m, 'l) heap = "('m, 'l) cell store"
type_synonym ('a, 'm, 'l) copier = "'a \<Rightarrow> ('m, 'l) heap \<Rightarrow> 'a \<times> ('m, 'l) heap"

text \<open>The copies of the library's types: \<open>ObjectMeta\<close>, \<open>ListMeta\<close>, \<open>LabelSelector\<close> and those of the configuration.\<close>

record ('m, 'l) api_lib =
  lc_ObjectMeta :: "('m, 'm, 'l) copier"
  lc_ListMeta :: "('m, 'm, 'l) copier"
  lc_LabelSelector :: "('m, 'm, 'l) copier"
  lc_ManagerSpec :: "('m, 'm, 'l) copier"
  lc_Config :: "('m, 'm, 'l) copier"

section \<open>DeepCopyInto\<close>

text \<open>
  Each begins with the assignment of the whole struct, so that \<open>out\<close> shares everything with the
  original, and then replaces what must not be shared.
\<close>

definition copy_strings :: "(slice option, 'm, 'l) copier" where
  "copy_strings = copy_slice strings_of Strings copy_plain"

definition Attributes_DeepCopyInto :: "('m, 'l) api_lib \<Rightarrow> (attributes, 'm, 'l) copier" where
  "Attributes_DeepCopyInto L inp h =
     (let out = inp
      in (out, h))"

definition CIDRBlockSpec_DeepCopyInto :: "('m, 'l) api_lib \<Rightarrow> (block_spec, 'm, 'l) copier" where
  "CIDRBlockSpec_DeepCopyInto L inp h =
     (let out = inp
      in (out, h))"

definition CIDRBlockStatus_DeepCopyInto :: "('m, 'l) api_lib \<Rightarrow> (unit, 'm, 'l) copier" where
  "CIDRBlockStatus_DeepCopyInto L inp h =
     (let out = inp
      in (out, h))"

definition CIDRClaimStatus_DeepCopyInto :: "('m, 'l) api_lib \<Rightarrow> (claim_status, 'm, 'l) copier" where
  "CIDRClaimStatus_DeepCopyInto L inp h =
     (let out = inp
      in (out, h))"

definition CIDRClaimTemplateStatus_DeepCopyInto :: "('m, 'l) api_lib \<Rightarrow> (unit, 'm, 'l) copier" where
  "CIDRClaimTemplateStatus_DeepCopyInto L inp h =
     (let out = inp
      in (out, h))"

definition PeerNodeStatus_DeepCopyInto :: "('m, 'l) api_lib \<Rightarrow> (peer_status, 'm, 'l) copier" where
  "PeerNodeStatus_DeepCopyInto L inp h =
     (let out = inp
      in (out, h))"

definition Wireguard_DeepCopyInto :: "('m, 'l) api_lib \<Rightarrow> (wireguard_object, 'm, 'l) copier" where
  "Wireguard_DeepCopyInto L inp h =
     (let out = inp
      in (out, h))"

definition CIDRBlock_DeepCopyInto :: "('m, 'l) api_lib \<Rightarrow> ('m block_object, 'm, 'l) copier" where
  "CIDRBlock_DeepCopyInto L inp h =
     (let out = inp; out = out\<lparr>bo_TypeMeta := bo_TypeMeta inp\<rparr>
      in case lc_ObjectMeta L (bo_ObjectMeta inp) h of (x, h) \<Rightarrow> let out = out\<lparr>bo_ObjectMeta := x\<rparr>; out = out\<lparr>bo_Spec := bo_Spec inp\<rparr>; out = out\<lparr>bo_Status := bo_Status inp\<rparr>
      in (out, h))"

definition CIDRClaimSpec_DeepCopyInto :: "('m, 'l) api_lib \<Rightarrow> ('m claim_spec, 'm, 'l) copier" where
  "CIDRClaimSpec_DeepCopyInto L inp h =
     (let out = inp
      in case lc_LabelSelector L (csp_Selector inp) h of (x, h) \<Rightarrow> let out = out\<lparr>csp_Selector := x\<rparr>
      in (out, h))"

definition CIDRClaim_DeepCopyInto :: "('m, 'l) api_lib \<Rightarrow> ('m claim_object, 'm, 'l) copier" where
  "CIDRClaim_DeepCopyInto L inp h =
     (let out = inp; out = out\<lparr>co_TypeMeta := co_TypeMeta inp\<rparr>
      in case lc_ObjectMeta L (co_ObjectMeta inp) h of (x, h) \<Rightarrow> let out = out\<lparr>co_ObjectMeta := x\<rparr>
      in case CIDRClaimSpec_DeepCopyInto L (co_Spec inp) h of (x, h) \<Rightarrow> let out = out\<lparr>co_Spec := x\<rparr>; out = out\<lparr>co_Status := co_Status inp\<rparr>
      in (out, h))"

definition CIDRClaimTemplateSpec_DeepCopyInto :: "('m, 'l) api_lib \<Rightarrow> ('m template_spec, 'm, 'l) copier" where
  "CIDRClaimTemplateSpec_DeepCopyInto L inp h =
     (let out = inp
      in case lc_LabelSelector L (tsp_Selector inp) h of (x, h) \<Rightarrow> let out = out\<lparr>tsp_Selector := x\<rparr>
      in (out, h))"

definition CIDRClaimTemplate_DeepCopyInto :: "('m, 'l) api_lib \<Rightarrow> ('m template_object, 'm, 'l) copier" where
  "CIDRClaimTemplate_DeepCopyInto L inp h =
     (let out = inp; out = out\<lparr>to_TypeMeta := to_TypeMeta inp\<rparr>
      in case lc_ObjectMeta L (to_ObjectMeta inp) h of (x, h) \<Rightarrow> let out = out\<lparr>to_ObjectMeta := x\<rparr>
      in case CIDRClaimTemplateSpec_DeepCopyInto L (to_Spec inp) h of (x, h) \<Rightarrow> let out = out\<lparr>to_Spec := x\<rparr>; out = out\<lparr>to_Status := to_Status inp\<rparr>
      in (out, h))"

definition PeerNodeSpec_DeepCopyInto :: "('m, 'l) api_lib \<Rightarrow> ((slice option, 'm) peer_spec, 'm, 'l) copier" where
  "PeerNodeSpec_DeepCopyInto L inp h =
     (let out = inp; out = out\<lparr>psp_Attributes := psp_Attributes inp\<rparr>
      in case copy_strings (psp_Endpoints inp) h of (x, h) \<Rightarrow> let out = out\<lparr>psp_Endpoints := x\<rparr>
      in case copy_strings (psp_StaticRoutes inp) h of (x, h) \<Rightarrow> let out = out\<lparr>psp_StaticRoutes := x\<rparr>
      in case lc_LabelSelector L (psp_ClaimsSelector inp) h of (x, h) \<Rightarrow> let out = out\<lparr>psp_ClaimsSelector := x\<rparr>
      in case lc_LabelSelector L (psp_AddressesSelector inp) h of (x, h) \<Rightarrow> let out = out\<lparr>psp_AddressesSelector := x\<rparr>
      in (out, h))"

definition PeerNode_DeepCopyInto :: "('m, 'l) api_lib \<Rightarrow> ((slice option, 'm) peer_object, 'm, 'l) copier" where
  "PeerNode_DeepCopyInto L inp h =
     (let out = inp; out = out\<lparr>po_TypeMeta := po_TypeMeta inp\<rparr>
      in case lc_ObjectMeta L (po_ObjectMeta inp) h of (x, h) \<Rightarrow> let out = out\<lparr>po_ObjectMeta := x\<rparr>
      in case PeerNodeSpec_DeepCopyInto L (po_Spec inp) h of (x, h) \<Rightarrow> let out = out\<lparr>po_Spec := x\<rparr>; out = out\<lparr>po_Status := po_Status inp\<rparr>
      in (out, h))"

definition CIDRBlockList_DeepCopyInto :: "('m, 'l) api_lib \<Rightarrow> ((slice option, 'm) object_list, 'm, 'l) copier" where
  "CIDRBlockList_DeepCopyInto L inp h =
     (let out = inp; out = out\<lparr>ol_TypeMeta := ol_TypeMeta inp\<rparr>
      in case lc_ListMeta L (ol_ListMeta inp) h of (x, h) \<Rightarrow> let out = out\<lparr>ol_ListMeta := x\<rparr>
      in case copy_slice blocks_of Blocks (CIDRBlock_DeepCopyInto L) (ol_Items inp) h of (x, h) \<Rightarrow> let out = out\<lparr>ol_Items := x\<rparr>
      in (out, h))"

definition CIDRClaimList_DeepCopyInto :: "('m, 'l) api_lib \<Rightarrow> ((slice option, 'm) object_list, 'm, 'l) copier" where
  "CIDRClaimList_DeepCopyInto L inp h =
     (let out = inp; out = out\<lparr>ol_TypeMeta := ol_TypeMeta inp\<rparr>
      in case lc_ListMeta L (ol_ListMeta inp) h of (x, h) \<Rightarrow> let out = out\<lparr>ol_ListMeta := x\<rparr>
      in case copy_slice claims_of Claims (CIDRClaim_DeepCopyInto L) (ol_Items inp) h of (x, h) \<Rightarrow> let out = out\<lparr>ol_Items := x\<rparr>
      in (out, h))"

definition CIDRClaimTemplateList_DeepCopyInto :: "('m, 'l) api_lib \<Rightarrow> ((slice option, 'm) object_list, 'm, 'l) copier" where
  "CIDRClaimTemplateList_DeepCopyInto L inp h =
     (let out = inp; out = out\<lparr>ol_TypeMeta := ol_TypeMeta inp\<rparr>
      in case lc_ListMeta L (ol_ListMeta inp) h of (x, h) \<Rightarrow> let out = out\<lparr>ol_ListMeta := x\<rparr>
      in case copy_slice templates_of Templates (CIDRClaimTemplate_DeepCopyInto L) (ol_Items inp) h of (x, h) \<Rightarrow> let out = out\<lparr>ol_Items := x\<rparr>
      in (out, h))"

definition PeerNodeList_DeepCopyInto :: "('m, 'l) api_lib \<Rightarrow> ((slice option, 'm) object_list, 'm, 'l) copier" where
  "PeerNodeList_DeepCopyInto L inp h =
     (let out = inp; out = out\<lparr>ol_TypeMeta := ol_TypeMeta inp\<rparr>
      in case lc_ListMeta L (ol_ListMeta inp) h of (x, h) \<Rightarrow> let out = out\<lparr>ol_ListMeta := x\<rparr>
      in case copy_slice peers_in Peers (PeerNode_DeepCopyInto L) (ol_Items inp) h of (x, h) \<Rightarrow> let out = out\<lparr>ol_Items := x\<rparr>
      in (out, h))"

definition KubeConfig_DeepCopyInto :: "('m, 'l) api_lib \<Rightarrow> (nat option kubeconfig_object, 'm, 'l) copier" where
  "KubeConfig_DeepCopyInto L inp h =
     (let out = inp
      in case copy_ptr lib_values_of LibValues (lc_Config L) (ko_Inline inp) h of (x, h) \<Rightarrow> let out = out\<lparr>ko_Inline := x\<rparr>
      in (out, h))"

definition ControlPlane_DeepCopyInto :: "('m, 'l) api_lib \<Rightarrow> ((slice option, nat option) control_plane_object, 'm, 'l) copier" where
  "ControlPlane_DeepCopyInto L inp h =
     (let out = inp
      in case KubeConfig_DeepCopyInto L (cpo_KubeConfig inp) h of (x, h) \<Rightarrow> let out = out\<lparr>cpo_KubeConfig := x\<rparr>
      in case copy_strings (cpo_AddressClaimTemplates inp) h of (x, h) \<Rightarrow> let out = out\<lparr>cpo_AddressClaimTemplates := x\<rparr>
      in (out, h))"

definition CNIDConfig_DeepCopyInto :: "('m, 'l) api_lib \<Rightarrow> ((slice option, nat option) cnid_object, 'm, 'l) copier" where
  "CNIDConfig_DeepCopyInto L inp h =
     (let out = inp
      in case copy_strings (cno_AddressClaimTemplates inp) h of (x, h) \<Rightarrow> let out = out\<lparr>cno_AddressClaimTemplates := x\<rparr>
      in case KubeConfig_DeepCopyInto L (cno_KubeConfig inp) h of (x, h) \<Rightarrow> let out = out\<lparr>cno_KubeConfig := x\<rparr>
      in (out, h))"

definition CNIConfig_DeepCopyInto :: "('m, 'l) api_lib \<Rightarrow> ((slice option, nat option, 'm) cni_object, 'm, 'l) copier" where
  "CNIConfig_DeepCopyInto L inp h =
     (let out = inp; out = out\<lparr>ci_TypeMeta := ci_TypeMeta inp\<rparr>
      in case lc_ManagerSpec L (ci_ManagerSpec inp) h of (x, h) \<Rightarrow> let out = out\<lparr>ci_ManagerSpec := x\<rparr>
      in case ControlPlane_DeepCopyInto L (ci_ControlPlane inp) h of (x, h) \<Rightarrow> let out = out\<lparr>ci_ControlPlane := x\<rparr>; out = out\<lparr>ci_Wireguard := ci_Wireguard inp\<rparr>
      in case copy_strings (ci_StaticAdvertisedRoutes inp) h of (x, h) \<Rightarrow> let out = out\<lparr>ci_StaticAdvertisedRoutes := x\<rparr>
      in case CNIDConfig_DeepCopyInto L (ci_CNID inp) h of (x, h) \<Rightarrow> let out = out\<lparr>ci_CNID := x\<rparr>
      in (out, h))"

section \<open>DeepCopy and DeepCopyObject\<close>

text \<open>A pointer to a struct is the struct, and \<open>nil\<close> is \<open>None\<close>; \<open>new_copy\<close> is the body of every \<open>DeepCopy\<close>.\<close>

definition Attributes_DeepCopy :: "('m, 'l) api_lib \<Rightarrow> ((attributes) option, 'm, 'l) copier" where
  "Attributes_DeepCopy L = new_copy (Attributes_DeepCopyInto L)"

definition CIDRBlockSpec_DeepCopy :: "('m, 'l) api_lib \<Rightarrow> ((block_spec) option, 'm, 'l) copier" where
  "CIDRBlockSpec_DeepCopy L = new_copy (CIDRBlockSpec_DeepCopyInto L)"

definition CIDRBlockStatus_DeepCopy :: "('m, 'l) api_lib \<Rightarrow> ((unit) option, 'm, 'l) copier" where
  "CIDRBlockStatus_DeepCopy L = new_copy (CIDRBlockStatus_DeepCopyInto L)"

definition CIDRClaimStatus_DeepCopy :: "('m, 'l) api_lib \<Rightarrow> ((claim_status) option, 'm, 'l) copier" where
  "CIDRClaimStatus_DeepCopy L = new_copy (CIDRClaimStatus_DeepCopyInto L)"

definition CIDRClaimTemplateStatus_DeepCopy :: "('m, 'l) api_lib \<Rightarrow> ((unit) option, 'm, 'l) copier" where
  "CIDRClaimTemplateStatus_DeepCopy L = new_copy (CIDRClaimTemplateStatus_DeepCopyInto L)"

definition PeerNodeStatus_DeepCopy :: "('m, 'l) api_lib \<Rightarrow> ((peer_status) option, 'm, 'l) copier" where
  "PeerNodeStatus_DeepCopy L = new_copy (PeerNodeStatus_DeepCopyInto L)"

definition Wireguard_DeepCopy :: "('m, 'l) api_lib \<Rightarrow> ((wireguard_object) option, 'm, 'l) copier" where
  "Wireguard_DeepCopy L = new_copy (Wireguard_DeepCopyInto L)"

definition CIDRBlock_DeepCopy :: "('m, 'l) api_lib \<Rightarrow> (('m block_object) option, 'm, 'l) copier" where
  "CIDRBlock_DeepCopy L = new_copy (CIDRBlock_DeepCopyInto L)"

definition CIDRClaimSpec_DeepCopy :: "('m, 'l) api_lib \<Rightarrow> (('m claim_spec) option, 'm, 'l) copier" where
  "CIDRClaimSpec_DeepCopy L = new_copy (CIDRClaimSpec_DeepCopyInto L)"

definition CIDRClaim_DeepCopy :: "('m, 'l) api_lib \<Rightarrow> (('m claim_object) option, 'm, 'l) copier" where
  "CIDRClaim_DeepCopy L = new_copy (CIDRClaim_DeepCopyInto L)"

definition CIDRClaimTemplateSpec_DeepCopy :: "('m, 'l) api_lib \<Rightarrow> (('m template_spec) option, 'm, 'l) copier" where
  "CIDRClaimTemplateSpec_DeepCopy L = new_copy (CIDRClaimTemplateSpec_DeepCopyInto L)"

definition CIDRClaimTemplate_DeepCopy :: "('m, 'l) api_lib \<Rightarrow> (('m template_object) option, 'm, 'l) copier" where
  "CIDRClaimTemplate_DeepCopy L = new_copy (CIDRClaimTemplate_DeepCopyInto L)"

definition PeerNodeSpec_DeepCopy :: "('m, 'l) api_lib \<Rightarrow> (((slice option, 'm) peer_spec) option, 'm, 'l) copier" where
  "PeerNodeSpec_DeepCopy L = new_copy (PeerNodeSpec_DeepCopyInto L)"

definition PeerNode_DeepCopy :: "('m, 'l) api_lib \<Rightarrow> (((slice option, 'm) peer_object) option, 'm, 'l) copier" where
  "PeerNode_DeepCopy L = new_copy (PeerNode_DeepCopyInto L)"

definition CIDRBlockList_DeepCopy :: "('m, 'l) api_lib \<Rightarrow> (((slice option, 'm) object_list) option, 'm, 'l) copier" where
  "CIDRBlockList_DeepCopy L = new_copy (CIDRBlockList_DeepCopyInto L)"

definition CIDRClaimList_DeepCopy :: "('m, 'l) api_lib \<Rightarrow> (((slice option, 'm) object_list) option, 'm, 'l) copier" where
  "CIDRClaimList_DeepCopy L = new_copy (CIDRClaimList_DeepCopyInto L)"

definition CIDRClaimTemplateList_DeepCopy :: "('m, 'l) api_lib \<Rightarrow> (((slice option, 'm) object_list) option, 'm, 'l) copier" where
  "CIDRClaimTemplateList_DeepCopy L = new_copy (CIDRClaimTemplateList_DeepCopyInto L)"

definition PeerNodeList_DeepCopy :: "('m, 'l) api_lib \<Rightarrow> (((slice option, 'm) object_list) option, 'm, 'l) copier" where
  "PeerNodeList_DeepCopy L = new_copy (PeerNodeList_DeepCopyInto L)"

definition KubeConfig_DeepCopy :: "('m, 'l) api_lib \<Rightarrow> ((nat option kubeconfig_object) option, 'm, 'l) copier" where
  "KubeConfig_DeepCopy L = new_copy (KubeConfig_DeepCopyInto L)"

definition ControlPlane_DeepCopy :: "('m, 'l) api_lib \<Rightarrow> (((slice option, nat option) control_plane_object) option, 'm, 'l) copier" where
  "ControlPlane_DeepCopy L = new_copy (ControlPlane_DeepCopyInto L)"

definition CNIDConfig_DeepCopy :: "('m, 'l) api_lib \<Rightarrow> (((slice option, nat option) cnid_object) option, 'm, 'l) copier" where
  "CNIDConfig_DeepCopy L = new_copy (CNIDConfig_DeepCopyInto L)"

definition CNIConfig_DeepCopy :: "('m, 'l) api_lib \<Rightarrow> (((slice option, nat option, 'm) cni_object) option, 'm, 'l) copier" where
  "CNIConfig_DeepCopy L = new_copy (CNIConfig_DeepCopyInto L)"

text \<open>The copy as a \<open>runtime.Object\<close>, which is \<open>nil\<close> where there is no copy.\<close>

definition as_object :: "('a option, 'm, 'l) copier \<Rightarrow> ('a option, 'm, 'l) copier" where
  "as_object copy inp h = (case copy inp h of (Some c, h) \<Rightarrow> (Some c, h) | (None, h) \<Rightarrow> (None, h))"

definition CIDRBlock_DeepCopyObject :: "('m, 'l) api_lib \<Rightarrow> (('m block_object) option, 'm, 'l) copier" where
  "CIDRBlock_DeepCopyObject L = as_object (CIDRBlock_DeepCopy L)"

definition CIDRBlockList_DeepCopyObject :: "('m, 'l) api_lib \<Rightarrow> (((slice option, 'm) object_list) option, 'm, 'l) copier" where
  "CIDRBlockList_DeepCopyObject L = as_object (CIDRBlockList_DeepCopy L)"

definition CIDRClaim_DeepCopyObject :: "('m, 'l) api_lib \<Rightarrow> (('m claim_object) option, 'm, 'l) copier" where
  "CIDRClaim_DeepCopyObject L = as_object (CIDRClaim_DeepCopy L)"

definition CIDRClaimList_DeepCopyObject :: "('m, 'l) api_lib \<Rightarrow> (((slice option, 'm) object_list) option, 'm, 'l) copier" where
  "CIDRClaimList_DeepCopyObject L = as_object (CIDRClaimList_DeepCopy L)"

definition CIDRClaimTemplate_DeepCopyObject :: "('m, 'l) api_lib \<Rightarrow> (('m template_object) option, 'm, 'l) copier" where
  "CIDRClaimTemplate_DeepCopyObject L = as_object (CIDRClaimTemplate_DeepCopy L)"

definition CIDRClaimTemplateList_DeepCopyObject :: "('m, 'l) api_lib \<Rightarrow> (((slice option, 'm) object_list) option, 'm, 'l) copier" where
  "CIDRClaimTemplateList_DeepCopyObject L = as_object (CIDRClaimTemplateList_DeepCopy L)"

definition PeerNode_DeepCopyObject :: "('m, 'l) api_lib \<Rightarrow> (((slice option, 'm) peer_object) option, 'm, 'l) copier" where
  "PeerNode_DeepCopyObject L = as_object (PeerNode_DeepCopy L)"

definition PeerNodeList_DeepCopyObject :: "('m, 'l) api_lib \<Rightarrow> (((slice option, 'm) object_list) option, 'm, 'l) copier" where
  "PeerNodeList_DeepCopyObject L = as_object (PeerNodeList_DeepCopy L)"

definition CNIConfig_DeepCopyObject :: "('m, 'l) api_lib \<Rightarrow> (((slice option, nat option, 'm) cni_object) option, 'm, 'l) copier" where
  "CNIConfig_DeepCopyObject L = as_object (CNIConfig_DeepCopy L)"

section \<open>What an object reads as, and where it leads\<close>

text \<open>\<open>V\<close> and \<open>F\<close> are those of the library's values.\<close>

definition view_strings :: "('m, 'l) heap \<Rightarrow> slice option \<Rightarrow> string list option" where
  "view_strings = view_slice strings_of view_plain"

definition foot_strings :: "('m, 'l) heap \<Rightarrow> slice option \<Rightarrow> nat set" where
  "foot_strings = foot_slice strings_of foot_plain"

interpretation strings: deep_copy copy_strings view_strings foot_strings
  unfolding copy_strings_def view_strings_def foot_strings_def
  by (rule deep_copy_slice [OF plain.deep_copy_axioms]) simp

definition view_block :: "(('m, 'l) heap \<Rightarrow> 'm \<Rightarrow> 'v) \<Rightarrow> ('m, 'l) heap \<Rightarrow> 'm block_object \<Rightarrow> 'v block_object" where
  "view_block V h b = \<lparr>bo_TypeMeta = bo_TypeMeta b, bo_ObjectMeta = V h (bo_ObjectMeta b), bo_Spec = bo_Spec b, bo_Status = bo_Status b\<rparr>"

definition foot_block :: "(('m, 'l) heap \<Rightarrow> 'm \<Rightarrow> nat set) \<Rightarrow> ('m, 'l) heap \<Rightarrow> 'm block_object \<Rightarrow> nat set" where
  "foot_block F h b = F h (bo_ObjectMeta b)"

definition view_claim_spec :: "(('m, 'l) heap \<Rightarrow> 'm \<Rightarrow> 'v) \<Rightarrow> ('m, 'l) heap \<Rightarrow> 'm claim_spec \<Rightarrow> 'v claim_spec" where
  "view_claim_spec V h s = \<lparr>csp_Selector = V h (csp_Selector s), csp_SizeBit = csp_SizeBit s\<rparr>"

definition foot_claim_spec :: "(('m, 'l) heap \<Rightarrow> 'm \<Rightarrow> nat set) \<Rightarrow> ('m, 'l) heap \<Rightarrow> 'm claim_spec \<Rightarrow> nat set" where
  "foot_claim_spec F h s = F h (csp_Selector s)"

definition view_claim :: "(('m, 'l) heap \<Rightarrow> 'm \<Rightarrow> 'v) \<Rightarrow> ('m, 'l) heap \<Rightarrow> 'm claim_object \<Rightarrow> 'v claim_object" where
  "view_claim V h c = \<lparr>co_TypeMeta = co_TypeMeta c, co_ObjectMeta = V h (co_ObjectMeta c),
     co_Spec = view_claim_spec V h (co_Spec c), co_Status = co_Status c\<rparr>"

definition foot_claim :: "(('m, 'l) heap \<Rightarrow> 'm \<Rightarrow> nat set) \<Rightarrow> ('m, 'l) heap \<Rightarrow> 'm claim_object \<Rightarrow> nat set" where
  "foot_claim F h c = F h (co_ObjectMeta c) \<union> foot_claim_spec F h (co_Spec c)"

definition view_template_spec :: "(('m, 'l) heap \<Rightarrow> 'm \<Rightarrow> 'v) \<Rightarrow> ('m, 'l) heap \<Rightarrow> 'm template_spec \<Rightarrow> 'v template_spec" where
  "view_template_spec V h s = \<lparr>tsp_Selector = V h (tsp_Selector s), tsp_SizeBit = tsp_SizeBit s\<rparr>"

definition foot_template_spec :: "(('m, 'l) heap \<Rightarrow> 'm \<Rightarrow> nat set) \<Rightarrow> ('m, 'l) heap \<Rightarrow> 'm template_spec \<Rightarrow> nat set" where
  "foot_template_spec F h s = F h (tsp_Selector s)"

definition view_template :: "(('m, 'l) heap \<Rightarrow> 'm \<Rightarrow> 'v) \<Rightarrow> ('m, 'l) heap \<Rightarrow> 'm template_object \<Rightarrow> 'v template_object" where
  "view_template V h c = \<lparr>to_TypeMeta = to_TypeMeta c, to_ObjectMeta = V h (to_ObjectMeta c),
     to_Spec = view_template_spec V h (to_Spec c), to_Status = to_Status c\<rparr>"

definition foot_template :: "(('m, 'l) heap \<Rightarrow> 'm \<Rightarrow> nat set) \<Rightarrow> ('m, 'l) heap \<Rightarrow> 'm template_object \<Rightarrow> nat set" where
  "foot_template F h c = F h (to_ObjectMeta c) \<union> foot_template_spec F h (to_Spec c)"

definition view_peer_spec :: "(('m, 'l) heap \<Rightarrow> 'm \<Rightarrow> 'v) \<Rightarrow> ('m, 'l) heap \<Rightarrow> (slice option, 'm) peer_spec
    \<Rightarrow> (string list option, 'v) peer_spec" where
  "view_peer_spec V h p = \<lparr>psp_PublicKey = psp_PublicKey p, psp_PublicDiscoKey = psp_PublicDiscoKey p,
     psp_Attributes = psp_Attributes p, psp_Endpoints = view_strings h (psp_Endpoints p),
     psp_StaticRoutes = view_strings h (psp_StaticRoutes p), psp_ClaimsSelector = V h (psp_ClaimsSelector p),
     psp_AddressesSelector = V h (psp_AddressesSelector p)\<rparr>"

definition foot_peer_spec :: "(('m, 'l) heap \<Rightarrow> 'm \<Rightarrow> nat set) \<Rightarrow> ('m, 'l) heap \<Rightarrow> (slice option, 'm) peer_spec \<Rightarrow> nat set" where
  "foot_peer_spec F h p = foot_strings h (psp_Endpoints p) \<union> (foot_strings h (psp_StaticRoutes p) \<union>
     (F h (psp_ClaimsSelector p) \<union> F h (psp_AddressesSelector p)))"

definition view_peer :: "(('m, 'l) heap \<Rightarrow> 'm \<Rightarrow> 'v) \<Rightarrow> ('m, 'l) heap \<Rightarrow> (slice option, 'm) peer_object
    \<Rightarrow> (string list option, 'v) peer_object" where
  "view_peer V h p = \<lparr>po_TypeMeta = po_TypeMeta p, po_ObjectMeta = V h (po_ObjectMeta p),
     po_Spec = view_peer_spec V h (po_Spec p), po_Status = po_Status p\<rparr>"

definition foot_peer :: "(('m, 'l) heap \<Rightarrow> 'm \<Rightarrow> nat set) \<Rightarrow> ('m, 'l) heap \<Rightarrow> (slice option, 'm) peer_object \<Rightarrow> nat set" where
  "foot_peer F h p = F h (po_ObjectMeta p) \<union> foot_peer_spec F h (po_Spec p)"

text \<open>A list, with what its items read as and where they lead.\<close>

definition view_list :: "(('m, 'l) cell \<Rightarrow> 'a list) \<Rightarrow> (('m, 'l) heap \<Rightarrow> 'm \<Rightarrow> 'v) \<Rightarrow> (('m, 'l) heap \<Rightarrow> 'a \<Rightarrow> 'w)
    \<Rightarrow> ('m, 'l) heap \<Rightarrow> (slice option, 'm) object_list \<Rightarrow> ('w list option, 'v) object_list" where
  "view_list un V v h l = \<lparr>ol_TypeMeta = ol_TypeMeta l, ol_ListMeta = V h (ol_ListMeta l), ol_Items = view_slice un v h (ol_Items l)\<rparr>"

definition foot_list :: "(('m, 'l) cell \<Rightarrow> 'a list) \<Rightarrow> (('m, 'l) heap \<Rightarrow> 'm \<Rightarrow> nat set) \<Rightarrow> (('m, 'l) heap \<Rightarrow> 'a \<Rightarrow> nat set)
    \<Rightarrow> ('m, 'l) heap \<Rightarrow> (slice option, 'm) object_list \<Rightarrow> nat set" where
  "foot_list un F f h l = F h (ol_ListMeta l) \<union> foot_slice un f h (ol_Items l)"

text \<open>The parts of the daemon's configuration.\<close>

definition view_kubeconfig :: "(('m, 'l) heap \<Rightarrow> 'm \<Rightarrow> 'v) \<Rightarrow> ('m, 'l) heap \<Rightarrow> nat option kubeconfig_object \<Rightarrow> 'v list option kubeconfig_object" where
  "view_kubeconfig V h k = \<lparr>ko_File = ko_File k, ko_Inline = view_ptr lib_values_of V h (ko_Inline k), ko_Context = ko_Context k\<rparr>"

definition foot_kubeconfig :: "(('m, 'l) heap \<Rightarrow> 'm \<Rightarrow> nat set) \<Rightarrow> ('m, 'l) heap \<Rightarrow> nat option kubeconfig_object \<Rightarrow> nat set" where
  "foot_kubeconfig F h k = foot_ptr lib_values_of F h (ko_Inline k)"

definition view_control_plane :: "(('m, 'l) heap \<Rightarrow> 'm \<Rightarrow> 'v) \<Rightarrow> ('m, 'l) heap \<Rightarrow> (slice option, nat option) control_plane_object
    \<Rightarrow> (string list option, 'v list option) control_plane_object" where
  "view_control_plane V h c = \<lparr>cpo_APIEndpoint = cpo_APIEndpoint c, cpo_RootCACert = cpo_RootCACert c, cpo_Token = cpo_Token c,
     cpo_Namespace = cpo_Namespace c, cpo_KubeConfig = view_kubeconfig V h (cpo_KubeConfig c),
     cpo_AddressClaimTemplates = view_strings h (cpo_AddressClaimTemplates c)\<rparr>"

definition foot_control_plane :: "(('m, 'l) heap \<Rightarrow> 'm \<Rightarrow> nat set) \<Rightarrow> ('m, 'l) heap \<Rightarrow> (slice option, nat option) control_plane_object \<Rightarrow> nat set" where
  "foot_control_plane F h c = foot_kubeconfig F h (cpo_KubeConfig c) \<union> foot_strings h (cpo_AddressClaimTemplates c)"

definition view_cnid :: "(('m, 'l) heap \<Rightarrow> 'm \<Rightarrow> 'v) \<Rightarrow> ('m, 'l) heap \<Rightarrow> (slice option, nat option) cnid_object
    \<Rightarrow> (string list option, 'v list option) cnid_object" where
  "view_cnid V h c = \<lparr>cno_AddressClaimTemplates = view_strings h (cno_AddressClaimTemplates c), cno_Extra = cno_Extra c,
     cno_SocketPath = cno_SocketPath c, cno_KubeConfig = view_kubeconfig V h (cno_KubeConfig c)\<rparr>"

definition foot_cnid :: "(('m, 'l) heap \<Rightarrow> 'm \<Rightarrow> nat set) \<Rightarrow> ('m, 'l) heap \<Rightarrow> (slice option, nat option) cnid_object \<Rightarrow> nat set" where
  "foot_cnid F h c = foot_strings h (cno_AddressClaimTemplates c) \<union> foot_kubeconfig F h (cno_KubeConfig c)"

definition view_cni :: "(('m, 'l) heap \<Rightarrow> 'm \<Rightarrow> 'v) \<Rightarrow> ('m, 'l) heap \<Rightarrow> (slice option, nat option, 'm) cni_object
    \<Rightarrow> (string list option, 'v list option, 'v) cni_object" where
  "view_cni V h c = \<lparr>ci_TypeMeta = ci_TypeMeta c, ci_ManagerSpec = V h (ci_ManagerSpec c), ci_ClusterName = ci_ClusterName c,
     ci_NodeName = ci_NodeName c, ci_ControlPlane = view_control_plane V h (ci_ControlPlane c),
     ci_NetworkNamespace = ci_NetworkNamespace c, ci_Wireguard = ci_Wireguard c, ci_Cleanup = ci_Cleanup c,
     ci_StaticAdvertisedRoutes = view_strings h (ci_StaticAdvertisedRoutes c), ci_CNID = view_cnid V h (ci_CNID c)\<rparr>"

definition foot_cni :: "(('m, 'l) heap \<Rightarrow> 'm \<Rightarrow> nat set) \<Rightarrow> ('m, 'l) heap \<Rightarrow> (slice option, nat option, 'm) cni_object \<Rightarrow> nat set" where
  "foot_cni F h c = F h (ci_ManagerSpec c) \<union> (foot_control_plane F h (ci_ControlPlane c) \<union>
     (foot_strings h (ci_StaticAdvertisedRoutes c) \<union> foot_cnid F h (ci_CNID c)))"

section \<open>The copies are deep\<close>

text \<open>What the library promises of its own copies.\<close>

definition lib_copies :: "('m, 'l) api_lib \<Rightarrow> (('m, 'l) heap \<Rightarrow> 'm \<Rightarrow> 'v) \<Rightarrow> (('m, 'l) heap \<Rightarrow> 'm \<Rightarrow> nat set) \<Rightarrow> bool" where
  "lib_copies L V F \<longleftrightarrow> deep_copy (lc_ObjectMeta L) V F \<and> deep_copy (lc_ListMeta L) V F \<and>
     deep_copy (lc_LabelSelector L) V F \<and> deep_copy (lc_ManagerSpec L) V F \<and> deep_copy (lc_Config L) V F"

lemma lib_copiesD:
  assumes "lib_copies L V F"
  shows "deep_copy (lc_ObjectMeta L) V F" "deep_copy (lc_ListMeta L) V F" "deep_copy (lc_LabelSelector L) V F"
    "deep_copy (lc_ManagerSpec L) V F" "deep_copy (lc_Config L) V F"
  using assms by (simp_all add: lib_copies_def)

lemmas pair_defs = copy_pair_def view_pair_def foot_pair_def

lemma block_copies:
  assumes "lib_copies L V F"
  shows "deep_copy (CIDRBlock_DeepCopyInto L) (view_block V) (foot_block F)"
  by (rule deep_copy_record [OF lib_copiesD(1) [OF assms], where get = bo_ObjectMeta and upd = "\<lambda>b x. b\<lparr>bo_ObjectMeta := x\<rparr>"
        and mk = "\<lambda>b x. \<lparr>bo_TypeMeta = bo_TypeMeta b, bo_ObjectMeta = x, bo_Spec = bo_Spec b, bo_Status = bo_Status b\<rparr>"])
    (auto simp: CIDRBlock_DeepCopyInto_def view_block_def foot_block_def Let_def split: prod.splits)

lemma claim_spec_copies:
  assumes "lib_copies L V F"
  shows "deep_copy (CIDRClaimSpec_DeepCopyInto L) (view_claim_spec V) (foot_claim_spec F)"
  by (rule deep_copy_record [OF lib_copiesD(3) [OF assms], where get = csp_Selector and upd = "\<lambda>s x. s\<lparr>csp_Selector := x\<rparr>"
        and mk = "\<lambda>s x. \<lparr>csp_Selector = x, csp_SizeBit = csp_SizeBit s\<rparr>"])
    (auto simp: CIDRClaimSpec_DeepCopyInto_def view_claim_spec_def foot_claim_spec_def Let_def split: prod.splits)

lemma claim_copies:
  assumes "lib_copies L V F"
  shows "deep_copy (CIDRClaim_DeepCopyInto L) (view_claim V) (foot_claim F)"
  by (rule deep_copy_record [OF deep_copy_pair [OF lib_copiesD(1) [OF assms] claim_spec_copies [OF assms]],
        where get = "\<lambda>r. (co_ObjectMeta r, co_Spec r)" and upd = "\<lambda>r x. r\<lparr>co_ObjectMeta := fst x, co_Spec := snd x\<rparr>" and mk = "\<lambda>r x. \<lparr>co_TypeMeta = co_TypeMeta r, co_ObjectMeta = fst x, co_Spec = snd x, co_Status = co_Status r\<rparr>"])
    (auto simp: CIDRClaim_DeepCopyInto_def view_claim_def foot_claim_def pair_defs Let_def split: prod.splits)

lemma template_spec_copies:
  assumes "lib_copies L V F"
  shows "deep_copy (CIDRClaimTemplateSpec_DeepCopyInto L) (view_template_spec V) (foot_template_spec F)"
  by (rule deep_copy_record [OF lib_copiesD(3) [OF assms], where get = tsp_Selector and upd = "\<lambda>s x. s\<lparr>tsp_Selector := x\<rparr>"
        and mk = "\<lambda>s x. \<lparr>tsp_Selector = x, tsp_SizeBit = tsp_SizeBit s\<rparr>"])
    (auto simp: CIDRClaimTemplateSpec_DeepCopyInto_def view_template_spec_def foot_template_spec_def Let_def split: prod.splits)

lemma template_copies:
  assumes "lib_copies L V F"
  shows "deep_copy (CIDRClaimTemplate_DeepCopyInto L) (view_template V) (foot_template F)"
  by (rule deep_copy_record [OF deep_copy_pair [OF lib_copiesD(1) [OF assms] template_spec_copies [OF assms]],
        where get = "\<lambda>r. (to_ObjectMeta r, to_Spec r)" and upd = "\<lambda>r x. r\<lparr>to_ObjectMeta := fst x, to_Spec := snd x\<rparr>" and mk = "\<lambda>r x. \<lparr>to_TypeMeta = to_TypeMeta r, to_ObjectMeta = fst x, to_Spec = snd x, to_Status = to_Status r\<rparr>"])
    (auto simp: CIDRClaimTemplate_DeepCopyInto_def view_template_def foot_template_def pair_defs Let_def split: prod.splits)

lemma peer_spec_copies:
  assumes "lib_copies L V F"
  shows "deep_copy (PeerNodeSpec_DeepCopyInto L) (view_peer_spec V) (foot_peer_spec F)"
  by (rule deep_copy_record [OF deep_copy_pair [OF strings.deep_copy_axioms
          deep_copy_pair [OF strings.deep_copy_axioms deep_copy_pair [OF lib_copiesD(3) [OF assms] lib_copiesD(3) [OF assms]]]],
        where get = "\<lambda>p. (psp_Endpoints p, psp_StaticRoutes p, psp_ClaimsSelector p, psp_AddressesSelector p)"
        and upd = "\<lambda>p (e, s, c, a). p\<lparr>psp_Endpoints := e, psp_StaticRoutes := s, psp_ClaimsSelector := c, psp_AddressesSelector := a\<rparr>"
        and mk = "\<lambda>p (e, s, c, a). \<lparr>psp_PublicKey = psp_PublicKey p, psp_PublicDiscoKey = psp_PublicDiscoKey p,
          psp_Attributes = psp_Attributes p, psp_Endpoints = e, psp_StaticRoutes = s, psp_ClaimsSelector = c, psp_AddressesSelector = a\<rparr>"])
    (auto simp: PeerNodeSpec_DeepCopyInto_def view_peer_spec_def foot_peer_spec_def pair_defs Let_def split: prod.splits)

lemma peer_copies:
  assumes "lib_copies L V F"
  shows "deep_copy (PeerNode_DeepCopyInto L) (view_peer V) (foot_peer F)"
  by (rule deep_copy_record [OF deep_copy_pair [OF lib_copiesD(1) [OF assms] peer_spec_copies [OF assms]],
        where get = "\<lambda>r. (po_ObjectMeta r, po_Spec r)" and upd = "\<lambda>r x. r\<lparr>po_ObjectMeta := fst x, po_Spec := snd x\<rparr>" and mk = "\<lambda>r x. \<lparr>po_TypeMeta = po_TypeMeta r, po_ObjectMeta = fst x, po_Spec = snd x, po_Status = po_Status r\<rparr>"])
    (auto simp: PeerNode_DeepCopyInto_def view_peer_def foot_peer_def pair_defs Let_def split: prod.splits)

text \<open>The fields of a list that lead somewhere.\<close>

definition list_parts :: "('i, 'm) object_list \<Rightarrow> 'm \<times> 'i" where
  "list_parts l = (ol_ListMeta l, ol_Items l)"

definition set_list_parts :: "('i, 'm) object_list \<Rightarrow> 'm \<times> 'i \<Rightarrow> ('i, 'm) object_list" where
  "set_list_parts l x = l\<lparr>ol_ListMeta := fst x, ol_Items := snd x\<rparr>"

definition mk_list :: "('i, 'm) object_list \<Rightarrow> 'v \<times> 'w \<Rightarrow> ('w, 'v) object_list" where
  "mk_list l x = \<lparr>ol_TypeMeta = ol_TypeMeta l, ol_ListMeta = fst x, ol_Items = snd x\<rparr>"

lemmas list_defs = list_parts_def set_list_parts_def mk_list_def view_list_def foot_list_def

lemma block_list_copies:
  assumes "lib_copies L V F"
  shows "deep_copy (CIDRBlockList_DeepCopyInto L) (view_list blocks_of V (view_block V)) (foot_list blocks_of F (foot_block F))"
  by (rule deep_copy_record [OF deep_copy_pair [OF lib_copiesD(2) [OF assms] deep_copy_slice [OF block_copies [OF assms] cell.sel(2)]],
        where get = list_parts and upd = set_list_parts and mk = mk_list])
    (auto simp: CIDRBlockList_DeepCopyInto_def list_defs pair_defs Let_def split: prod.splits)

lemma claim_list_copies:
  assumes "lib_copies L V F"
  shows "deep_copy (CIDRClaimList_DeepCopyInto L) (view_list claims_of V (view_claim V)) (foot_list claims_of F (foot_claim F))"
  by (rule deep_copy_record [OF deep_copy_pair [OF lib_copiesD(2) [OF assms] deep_copy_slice [OF claim_copies [OF assms] cell.sel(3)]],
        where get = list_parts and upd = set_list_parts and mk = mk_list])
    (auto simp: CIDRClaimList_DeepCopyInto_def list_defs pair_defs Let_def split: prod.splits)

lemma template_list_copies:
  assumes "lib_copies L V F"
  shows "deep_copy (CIDRClaimTemplateList_DeepCopyInto L) (view_list templates_of V (view_template V)) (foot_list templates_of F (foot_template F))"
  by (rule deep_copy_record [OF deep_copy_pair [OF lib_copiesD(2) [OF assms] deep_copy_slice [OF template_copies [OF assms] cell.sel(4)]],
        where get = list_parts and upd = set_list_parts and mk = mk_list])
    (auto simp: CIDRClaimTemplateList_DeepCopyInto_def list_defs pair_defs Let_def split: prod.splits)

lemma peer_list_copies:
  assumes "lib_copies L V F"
  shows "deep_copy (PeerNodeList_DeepCopyInto L) (view_list peers_in V (view_peer V)) (foot_list peers_in F (foot_peer F))"
  by (rule deep_copy_record [OF deep_copy_pair [OF lib_copiesD(2) [OF assms] deep_copy_slice [OF peer_copies [OF assms] cell.sel(5)]],
        where get = list_parts and upd = set_list_parts and mk = mk_list])
    (auto simp: PeerNodeList_DeepCopyInto_def list_defs pair_defs Let_def split: prod.splits)

lemma kubeconfig_copies:
  assumes "lib_copies L V F"
  shows "deep_copy (KubeConfig_DeepCopyInto L) (view_kubeconfig V) (foot_kubeconfig F)"
  by (rule deep_copy_record [OF deep_copy_ptr [OF lib_copiesD(5) [OF assms] cell.sel(6)], where get = ko_Inline and upd = "\<lambda>k x. k\<lparr>ko_Inline := x\<rparr>"
        and mk = "\<lambda>k x. \<lparr>ko_File = ko_File k, ko_Inline = x, ko_Context = ko_Context k\<rparr>"])
    (auto simp: KubeConfig_DeepCopyInto_def view_kubeconfig_def foot_kubeconfig_def Let_def split: prod.splits)

lemma control_plane_copies:
  assumes "lib_copies L V F"
  shows "deep_copy (ControlPlane_DeepCopyInto L) (view_control_plane V) (foot_control_plane F)"
  by (rule deep_copy_record [OF deep_copy_pair [OF kubeconfig_copies [OF assms] strings.deep_copy_axioms],
        where get = "\<lambda>r. (cpo_KubeConfig r, cpo_AddressClaimTemplates r)" and upd = "\<lambda>r x. r\<lparr>cpo_KubeConfig := fst x, cpo_AddressClaimTemplates := snd x\<rparr>" and mk = "\<lambda>r x. \<lparr>cpo_APIEndpoint = cpo_APIEndpoint r, cpo_RootCACert = cpo_RootCACert r, cpo_Token = cpo_Token r, cpo_Namespace = cpo_Namespace r, cpo_KubeConfig = fst x, cpo_AddressClaimTemplates = snd x\<rparr>"])
    (auto simp: ControlPlane_DeepCopyInto_def view_control_plane_def foot_control_plane_def pair_defs Let_def split: prod.splits)

lemma cnid_copies:
  assumes "lib_copies L V F"
  shows "deep_copy (CNIDConfig_DeepCopyInto L) (view_cnid V) (foot_cnid F)"
  by (rule deep_copy_record [OF deep_copy_pair [OF strings.deep_copy_axioms kubeconfig_copies [OF assms]],
        where get = "\<lambda>r. (cno_AddressClaimTemplates r, cno_KubeConfig r)" and upd = "\<lambda>r x. r\<lparr>cno_AddressClaimTemplates := fst x, cno_KubeConfig := snd x\<rparr>" and mk = "\<lambda>r x. \<lparr>cno_AddressClaimTemplates = fst x, cno_Extra = cno_Extra r, cno_SocketPath = cno_SocketPath r, cno_KubeConfig = snd x\<rparr>"])
    (auto simp: CNIDConfig_DeepCopyInto_def view_cnid_def foot_cnid_def pair_defs Let_def split: prod.splits)

lemma cni_copies:
  assumes "lib_copies L V F"
  shows "deep_copy (CNIConfig_DeepCopyInto L) (view_cni V) (foot_cni F)"
  by (rule deep_copy_record [OF deep_copy_pair [OF lib_copiesD(4) [OF assms] deep_copy_pair [OF control_plane_copies [OF assms]
          deep_copy_pair [OF strings.deep_copy_axioms cnid_copies [OF assms]]]],
        where get = "\<lambda>c. (ci_ManagerSpec c, ci_ControlPlane c, ci_StaticAdvertisedRoutes c, ci_CNID c)"
        and upd = "\<lambda>c (m, p, s, d). c\<lparr>ci_ManagerSpec := m, ci_ControlPlane := p, ci_StaticAdvertisedRoutes := s, ci_CNID := d\<rparr>"
        and mk = "\<lambda>c (m, p, s, d). \<lparr>ci_TypeMeta = ci_TypeMeta c, ci_ManagerSpec = m, ci_ClusterName = ci_ClusterName c,
          ci_NodeName = ci_NodeName c, ci_ControlPlane = p, ci_NetworkNamespace = ci_NetworkNamespace c,
          ci_Wireguard = ci_Wireguard c, ci_Cleanup = ci_Cleanup c, ci_StaticAdvertisedRoutes = s, ci_CNID = d\<rparr>"])
    (auto simp: CNIConfig_DeepCopyInto_def view_cni_def foot_cni_def pair_defs Let_def split: prod.splits)

text \<open>A copy whose type copies deeply shares nothing with the original, whatever is written later.\<close>

definition shares_nothing :: "('c store \<Rightarrow> 'a \<Rightarrow> 'v) \<Rightarrow> 'a \<Rightarrow> 'c store \<Rightarrow> 'a \<Rightarrow> 'c store \<Rightarrow> bool" where
  "shares_nothing view a h b h' \<longleftrightarrow> view h' b = view h a \<and>
     (\<forall>h''. (\<forall>x < st_lim h. st_cells h'' x = st_cells h' x) \<longrightarrow> view h'' a = view h a) \<and>
     (\<forall>h''. (\<forall>x \<ge> st_lim h. st_cells h'' x = st_cells h' x) \<longrightarrow> view h'' b = view h a)"

lemma new_copy_shares_nothing:
  assumes "deep_copy c view foot" "foot h a \<subseteq> {..<st_lim h}" "new_copy c (Some a) h = (Some b, h')"
  shows "shares_nothing view a h b h'"
proof -
  from assms(3) have copy: "c a h = (b, h')"
    by (simp add: new_copy_def split: prod.splits)
  show ?thesis
    unfolding shares_nothing_def
    using deep_copy.copy_new(2) [OF assms(1,2) copy] deep_copy.original_unaffected [OF assms(1,2) copy]
      deep_copy.copy_unaffected [OF assms(1,2) copy] by simp
qed

text \<open>The copies that the program makes itself: a claim with its status, and its configuration.\<close>

lemma claim_copy_shares_nothing:
  assumes "lib_copies L V F" "foot_claim F h c \<subseteq> {..<st_lim h}" "CIDRClaim_DeepCopy L (Some c) h = (Some d, h')"
  shows "shares_nothing (view_claim V) c h d h'"
  by (rule new_copy_shares_nothing [OF claim_copies [OF assms(1)] assms(2) assms(3) [unfolded CIDRClaim_DeepCopy_def]])

lemma config_copy_shares_nothing:
  assumes "lib_copies L V F" "foot_cni F h c \<subseteq> {..<st_lim h}" "CNIConfig_DeepCopy L (Some c) h = (Some d, h')"
  shows "shares_nothing (view_cni V) c h d h'"
  by (rule new_copy_shares_nothing [OF cni_copies [OF assms(1)] assms(2) assms(3) [unfolded CNIConfig_DeepCopy_def]])

section \<open>An example\<close>

text \<open>A value of the library is a slice of strings; there is a list with one peer, which has an endpoint.\<close>

definition ex_lib :: "(slice option, unit) api_lib" where
  "ex_lib = \<lparr>lc_ObjectMeta = copy_strings, lc_ListMeta = copy_strings, lc_LabelSelector = copy_strings,
     lc_ManagerSpec = copy_strings, lc_Config = copy_strings\<rparr>"

definition ex_peer :: "(slice option, slice option) peer_object" where
  "ex_peer = \<lparr>po_TypeMeta = \<lparr>tm_Kind = ''PeerNode'', tm_APIVersion = ''v1alpha1''\<rparr>, po_ObjectMeta = Some (whole 0),
     po_Spec = \<lparr>psp_PublicKey = ''k'', psp_PublicDiscoKey = ''d'', psp_Attributes = \<lparr>at_HostName = ''h'', at_OS = ''linux'', at_Arch = ''amd64''\<rparr>,
       psp_Endpoints = Some (whole 1), psp_StaticRoutes = None, psp_ClaimsSelector = Some (whole 0), psp_AddressesSelector = None\<rparr>,
     po_Status = \<lparr>pst_ObservedGeneration = 1, pst_Message = []\<rparr>\<rparr>"

definition ex_list :: "(slice option, slice option) object_list" where
  "ex_list = \<lparr>ol_TypeMeta = \<lparr>tm_Kind = ''PeerNodeList'', tm_APIVersion = ''v1alpha1''\<rparr>, ol_ListMeta = None, ol_Items = Some (whole 2)\<rparr>"

definition ex_heap :: "(slice option, unit) heap" where
  "ex_heap = \<lparr>st_cells = (\<lambda>i. if i = 0 then Strings [''app=a''] else if i = 1 then Strings [''1.2.3.4:5''] else Peers [ex_peer]), st_lim = 3\<rparr>"

lemma ex_lib_copies: "lib_copies ex_lib view_strings foot_strings"
  by (simp add: lib_copies_def ex_lib_def strings.deep_copy_axioms)

section \<open>Properties\<close>

text \<open>
  C29. A copy of a list of peers shares nothing with the original: it reads the same; whatever is
  written to what existed before, the labels, endpoints, routes and selectors of the copy stay;
  and whatever is written through the copy, those of the original stay.
\<close>
theorem copies_share_nothing:
  assumes "lib_copies L V F" "foot_list peers_in F (foot_peer F) h l \<subseteq> {..<st_lim h}"
    and "PeerNodeList_DeepCopy L (Some l) h = (Some l', h')"
  shows "view_list peers_in V (view_peer V) h' l' = view_list peers_in V (view_peer V) h l \<and>
    (\<forall>h''. (\<forall>x < st_lim h. st_cells h'' x = st_cells h' x) \<longrightarrow>
       view_list peers_in V (view_peer V) h'' l = view_list peers_in V (view_peer V) h l) \<and>
    (\<forall>h''. (\<forall>x \<ge> st_lim h. st_cells h'' x = st_cells h' x) \<longrightarrow>
       view_list peers_in V (view_peer V) h'' l' = view_list peers_in V (view_peer V) h l)"
  using new_copy_shares_nothing [OF peer_list_copies [OF assms(1)] assms(2) assms(3) [unfolded PeerNodeList_DeepCopy_def]]
  by (simp add: shares_nothing_def)

theorem copies_share_nothing_witness:
  "\<exists>l' h'. PeerNodeList_DeepCopy ex_lib (Some ex_list) ex_heap = (Some l', h') \<and>
     view_list peers_in view_strings (view_peer view_strings) (put 1 (Strings [''changed'']) h') l' =
     view_list peers_in view_strings (view_peer view_strings) ex_heap ex_list"
proof -
  obtain l' h' where copy: "PeerNodeList_DeepCopy ex_lib (Some ex_list) ex_heap = (Some l', h')"
    by (cases "PeerNodeList_DeepCopyInto ex_lib ex_list ex_heap") (auto simp: PeerNodeList_DeepCopy_def new_copy_def)
  have "foot_list peers_in foot_strings (foot_peer foot_strings) ex_heap ex_list \<subseteq> {..<st_lim ex_heap}"
    by (simp add: foot_list_def foot_slice_def foot_each_def slice_elems_def ex_list_def ex_heap_def whole_def foot_peer_def
        foot_peer_spec_def foot_strings_def foot_plain_def ex_peer_def)
  from copies_share_nothing [OF ex_lib_copies this copy, THEN conjunct2, THEN conjunct2, THEN spec, of "put 1 (Strings [''changed'']) h'"] copy
  show ?thesis by (simp add: put_def ex_heap_def)
qed

end
