(* ===== verification/Delivery.thy ===== *)
theory Delivery
  imports Traffic Disco
begin

text \<open>
  Where the WireGuard device sends the packets of a peer: from the address that disco has chosen
  (\<open>disco\<close>), through \<open>reconfig\<close> of the engine (\<open>tetraengine\<close>) and the differences that are sent to the
  device (\<open>tetraengine/wgengine\<close>). The device is a parameter, as in \<open>Traffic\<close>.
\<close>

section \<open>The endpoints of the device\<close>

text \<open>
  As documented, a peer that is configured without an endpoint keeps the one it has, and a peer that
  is removed, or replaced with all others, loses it. Addresses and routes of the interface are apart.
\<close>

type_synonym endpoints = "key \<Rightarrow> addr_port option"

definition set_endpoint :: "wg_peer \<Rightarrow> endpoints \<Rightarrow> endpoints" where
  "set_endpoint p d =
     (if wp_Remove p then d(wp_PublicKey p := None)
      else case wp_Endpoint p of None \<Rightarrow> d | Some ap \<Rightarrow> d(wp_PublicKey p := Some ap))"

definition configure_endpoints :: "wg_config \<Rightarrow> endpoints \<Rightarrow> endpoints" where
  "configure_endpoints c d = fold set_endpoint (wc_Peers c) (if wc_ReplacePeers c then (\<lambda>_. None) else d)"

definition endpoint_law :: "'n kernel \<Rightarrow> ('n \<Rightarrow> endpoints) \<Rightarrow> bool" where
  "endpoint_law K ends \<longleftrightarrow>
     (\<forall>c n n'. nk_ConfigureDevice K c n = (n', True) \<longrightarrow> ends n' = configure_endpoints c (ends n)) \<and>
     (\<forall>a n. ends (fst (nk_AddrDel K a n)) = ends n \<and> ends (fst (nk_AddrAdd K a n)) = ends n) \<and>
     (\<forall>r n. ends (fst (nk_RouteDel K r n)) = ends n \<and> ends (fst (nk_RouteAdd K r n)) = ends n)"

text \<open>The device sends to the endpoints of the peers that have one, as the code compares them: by their text.\<close>

definition sends_to :: "endpoints \<Rightarrow> wg_peer list \<Rightarrow> bool" where
  "sends_to d ps \<longleftrightarrow> (\<forall>p \<in> set ps. \<forall>ap. wp_Endpoint p = Some ap \<longrightarrow>
     map_option udp_String (d (wp_PublicKey p)) = Some (udp_String ap))"

text \<open>What a list of peers with different keys does.\<close>

lemma fold_set_endpoint:
  "distinct (map wp_PublicKey ps) \<Longrightarrow> fold set_endpoint ps d k =
     (case peers_of ps k of
        None \<Rightarrow> d k
      | Some p \<Rightarrow> if wp_Remove p then None else case wp_Endpoint p of None \<Rightarrow> d k | Some ap \<Rightarrow> Some ap)"
proof (induction ps arbitrary: d)
  case (Cons p ps)
  have "peers_of ps (wp_PublicKey p) = None"
    using Cons.prems by (simp add: peers_of_None) (metis image_eqI)
  with Cons show ?case
    by (auto simp: set_endpoint_def peers_of_def split: option.split)
qed (simp add: peers_of_def)

lemma diffPeers_endpoints:
  assumes E: "distinct (map wp_PublicKey E)" and C: "distinct (map wp_PublicKey C)" and keep: "\<forall>p \<in> set E. \<not> wp_Remove p"
    and "sends_to d C"
  shows "sends_to (fold set_endpoint (diffPeers E C) d) E"
  unfolding sends_to_def
proof (intro ballI allI impI)
  let ?ps = "diffPeers E C"
  note dist = diffPeers_members(2) [OF E C]
  fix p ap assume p: "p \<in> set E" "wp_Endpoint p = Some ap"
  let ?k = "wp_PublicKey p"
  from p(1) have "peers_of E ?k = Some p" by (simp add: peers_of_Some [OF E])
  with diffPeers_effect [OF E C keep, of ?k]
  obtain q where q: "apply_peers ?ps (peers_of C) ?k = Some q" "\<not> peer_differs p q"
    by (auto simp: option_rel_Some1)
  from q(2) p(2) obtain ap' where ap': "wp_Endpoint q = Some ap'" "udp_String ap' = udp_String ap"
    by (auto simp: peer_differs_def map_option_case split: option.splits)
  show "map_option udp_String (fold set_endpoint ?ps d ?k) = Some (udp_String ap)"
  proof (cases "peers_of ?ps ?k")
    case None
    with q(1) have "peers_of C ?k = Some q" by (simp add: apply_peers_at [OF dist])
    then have "q \<in> set C" "wp_PublicKey q = ?k" by (simp_all add: peers_of_Some [OF C])
    with assms(4) ap' have "map_option udp_String (d ?k) = Some (udp_String ap)"
      unfolding sends_to_def by fastforce
    with None show ?thesis by (simp add: fold_set_endpoint [OF dist])
  next
    case (Some r)
    with q(1) have "\<not> wp_Remove r" "r = q"
      by (auto simp: apply_peers_at [OF dist] split: if_splits)
    with Some ap' show ?thesis by (simp add: fold_set_endpoint [OF dist])
  qed
qed

section \<open>The engine\<close>

lemma reconfigWireguard_endpoints:
  assumes law: "endpoint_law K ends" and E: "distinct (map wp_PublicKey (wc_Peers config))"
    and C: "distinct (map wp_PublicKey (wc_Peers (we_prevConfig e)))" and keep: "\<forall>p \<in> set (wc_Peers config). \<not> wp_Remove p"
    and agree: "sends_to (ends (we_net e)) (wc_Peers (we_prevConfig e))"
    and step: "reconfigWireguard K config e = (e', True)"
  shows "sends_to (ends (we_net e')) (wc_Peers config) \<and> (we_prevConfig e' = config \<or> e' = e)"
proof -
  let ?ps = "diffPeers (wc_Peers config) (wc_Peers (we_prevConfig e))"
  note follow = diffPeers_endpoints [OF E C keep]
  obtain diff hasDiff where diff: "diffConfigs config (we_prevConfig e) = (diff, hasDiff)" by fastforce
  then have fields: "wc_Peers diff = ?ps" "wc_ReplacePeers diff = (wc_Peers (we_prevConfig e) = [])" "\<not> hasDiff \<Longrightarrow> ?ps = []"
    by (auto simp: diffConfigs_def Let_def)
  show ?thesis
  proof (cases hasDiff)
    case False
    with step have "e' = e" by (simp add: reconfigWireguard_def diff)
    with follow [OF agree] fields(3) [OF False] show ?thesis by simp
  next
    case True
    with step obtain n where n: "nk_ConfigureDevice K diff (we_net e) = (n, True)" "we_net e' = n" "we_prevConfig e' = config"
      by (auto simp: reconfigWireguard_def diff split: prod.splits bool.splits)
    have start: "sends_to (if wc_Peers (we_prevConfig e) = [] then (\<lambda>_. None) else ends (we_net e)) (wc_Peers (we_prevConfig e))"
      using agree by (simp add: sends_to_def)
    have "ends n = configure_endpoints diff (ends (we_net e))"
      using law n(1) unfolding endpoint_law_def by blast
    with follow [OF start] n(2,3) show ?thesis
      by (simp add: configure_endpoints_def fields)
  qed
qed

lemma apply_each_keeps:
  assumes "\<And>x n. g (fst (f x n)) = g n"
  shows "g (fst (apply_each f xs s)) = g (fst s)"
proof (induction xs arbitrary: s)
  case (Cons x xs)
  obtain n ok where s: "s = (n, ok)" by fastforce
  obtain n' ok' where f: "f x n = (n', ok')" by fastforce
  have "g n' = g n" using assms [of x n] f by simp
  with Cons show ?case by (simp add: s f)
qed simp

lemma wg_Reconfig_endpoints:
  assumes law: "endpoint_law K ends" and step: "wg_Reconfig K config addrs e = (e', True)"
  shows "\<exists>e1. reconfigWireguard K config e = (e1, True) \<and> ends (we_net e') = ends (we_net e1) \<and> we_prevConfig e' = we_prevConfig e1"
proof -
  from law have calls: "\<And>a n. ends (fst (nk_AddrDel K a n)) = ends n" "\<And>a n. ends (fst (nk_AddrAdd K a n)) = ends n"
    "\<And>r n. ends (fst (nk_RouteDel K r n)) = ends n" "\<And>r n. ends (fst (nk_RouteAdd K r n)) = ends n"
    by (simp_all add: endpoint_law_def)
  note keeps = apply_each_keeps [of ends "nk_AddrDel K", OF calls(1)] apply_each_keeps [of ends "nk_AddrAdd K", OF calls(2)]
    apply_each_keeps [of ends "nk_RouteDel K", OF calls(3)] apply_each_keeps [of ends "nk_RouteAdd K", OF calls(4)]
  have addrs: "ends (we_net (fst (reconfigAddresses K addrs e))) = ends (we_net e) \<and>
      we_prevConfig (fst (reconfigAddresses K addrs e)) = we_prevConfig e" for e
  proof (cases "nk_AddrList K (we_net e)")
    case (Some current)
    obtain added deleted where d: "diffIPs addrs current = (added, deleted)" by fastforce
    show ?thesis
      using keeps(2) [of added "apply_each (nk_AddrDel K) deleted (we_net e, True)"] keeps(1) [of deleted "(we_net e, True)"]
      by (auto simp: reconfigAddresses_def Some d split: prod.split)
  qed (simp add: reconfigAddresses_def)
  have routes: "ends (we_net (fst (reconfigRoutes K config e))) = ends (we_net e) \<and>
      we_prevConfig (fst (reconfigRoutes K config e)) = we_prevConfig e" for e
  proof (cases "nk_RouteList K (we_link e) 0 (we_net e)")
    case (Some current)
    obtain added deleted where d: "diffRoutes (generateRoutesFromWGConfig config (we_link e) 0) current = (added, deleted)" by fastforce
    let ?gone = "filter (\<lambda>d. \<not> route_exempt d) deleted"
    show ?thesis
      using keeps(4) [of added "apply_each (nk_RouteDel K) ?gone (we_net e, True)"] keeps(3) [of ?gone "(we_net e, True)"]
      by (auto simp: reconfigRoutes_def Some d split: prod.split)
  qed (simp add: reconfigRoutes_def)
  obtain e1 where e1: "reconfigWireguard K config e = (e1, True)"
    using step by (auto simp: wg_Reconfig_def split: prod.splits bool.splits)
  with step have "e' = fst (reconfigRoutes K config (fst (reconfigAddresses K addrs e1)))"
    by (auto simp: wg_Reconfig_def split: prod.splits)
  with e1 addrs [of e1] routes [of "fst (reconfigAddresses K addrs e1)"] show ?thesis by simp
qed

section \<open>From disco to the device\<close>

lemma wg_peer_of_fields:
  assumes "wg_peer_of L statuses pc = Some w"
  shows "lib_ParseKey L (pc_PublicKey pc) = Some (wp_PublicKey w)" "\<not> wp_Remove w"
  using assms by (auto simp: wg_peer_of_def toWGConfig_def split: option.splits if_splits)

lemma different_keys:
  assumes "distinct (map (\<lambda>pc. lib_ParseKey L (pc_PublicKey pc)) pcs)"
  shows "distinct (map wp_PublicKey (List.map_filter (wg_peer_of L statuses) pcs))"
  using assms
proof (induction pcs)
  case (Cons pc pcs)
  show ?case
  proof (cases "wg_peer_of L statuses pc")
    case (Some w)
    have "wp_PublicKey w \<noteq> wp_PublicKey v" if "q \<in> set pcs" "wg_peer_of L statuses q = Some v" for q v
      using Cons.prems that wg_peer_of_fields(1) [OF Some] wg_peer_of_fields(1) [OF that(2)] by force
    with Some Cons show ?thesis
      by (auto simp: List.map_filter_simps set_map_filter)
  qed (use Cons in \<open>simp add: List.map_filter_simps\<close>)
qed simp

lemma active_endpoint_configured:
  assumes "toWGConfig L pc = Some wg" "key_Parse (pc_PublicDiscoKey pc) = Inr dk" "map_of statuses dk = Some st"
    and "addr_port_is_valid (ps_ActiveEndpoint st)"
  shows "\<exists>w. wg_peer_of L statuses pc = Some w \<and> wp_PublicKey w = wp_PublicKey wg \<and> wp_Endpoint w = Some (ps_ActiveEndpoint st)"
  using assms by (simp add: wg_peer_of_def getDiscoStatus_def)

text \<open>The keys and addresses that disco gets from the engine's configuration.\<close>

definition wanted_peers :: "tetra_engine \<Rightarrow> (key \<times> addr_port list) list" where
  "wanted_peers e = disco_peers (case te_globalEndpoints e of None \<Rightarrow> [] | Some eps \<Rightarrow> map ap_addr eps) (tc_Peers (te_currentConfig e))"

lemma reconfig_parts:
  assumes "reconfig L ops K e d w = Returns (d', w', True)"
  obtains privKey where "SetPeers ops (wanted_peers e) d = Returns d'"
    "wg_Reconfig K (toWGDevice L (GetAllStatuses ops d') (te_currentConfig e) privKey) (tc_Addresses (te_currentConfig e)) w = (w', True)"
proof (cases "lib_ParseKey L (tc_PrivateKey (te_currentConfig e))")
  case None
  with assms show ?thesis by (simp add: reconfig_def)
next
  case (Some privKey)
  with assms have "SetPeers ops (wanted_peers e) d = Returns d'"
    "wg_Reconfig K (toWGDevice L (GetAllStatuses ops d') (te_currentConfig e) privKey) (tc_Addresses (te_currentConfig e)) w = (w', True)"
    by (auto simp: reconfig_def reconfigDisco_def wanted_peers_def Let_def bind_outcome_eq_Returns split: prod.splits)
  then show ?thesis by (rule that)
qed

section \<open>An example\<close>

text \<open>A peer of disco with an active endpoint, and a device that is its endpoints.\<close>

definition ex_disco :: "endpoint disco_peer disco" where
  "ex_disco = (disco_New example_box [])\<lparr>d_peers :=
     [(replicate 32 1, example_peer\<lparr>dp_status := new_cell \<lparr>ps_ActiveEndpoint = AddrPort (IP4 0x01020304) 5, ps_ActiveRTT = 3\<rparr>\<rparr>)]\<rparr>"

definition ex_kernel :: "endpoints kernel" where
  "ex_kernel = \<lparr>nk_AddrList = (\<lambda>_. Some []), nk_AddrDel = (\<lambda>_ n. (n, True)), nk_AddrAdd = (\<lambda>_ n. (n, True)),
     nk_RouteList = (\<lambda>_ _ _. Some []), nk_RouteDel = (\<lambda>_ n. (n, True)), nk_RouteAdd = (\<lambda>_ n. (n, True)),
     nk_ConfigureDevice = (\<lambda>c n. (configure_endpoints c n, True))\<rparr>"

definition ex_wg_engine :: "endpoints wg_engine" where
  "ex_wg_engine = \<lparr>we_link = 5, we_prevConfig = \<lparr>wc_PrivateKey = None, wc_ListenPort = None, wc_FirewallMark = None,
     wc_ReplacePeers = False, wc_Peers = []\<rparr>, we_net = (\<lambda>_. None)\<rparr>"

lemma ex_law: "endpoint_law ex_kernel id"
  by (simp add: endpoint_law_def ex_kernel_def)

lemma apply_each_no_change: "apply_each (\<lambda>_ n. (n, True)) xs s = s"
  by (induction xs arbitrary: s) auto

lemma ex_succeeds: "snd (wg_Reconfig ex_kernel config addrs w)"
proof -
  have "snd (reconfigWireguard ex_kernel config w)"
    by (simp add: reconfigWireguard_def ex_kernel_def split: prod.split)
  moreover have "snd (reconfigAddresses ex_kernel addrs e)" "snd (reconfigRoutes ex_kernel config e)" for e
    by (simp_all add: reconfigAddresses_def reconfigRoutes_def ex_kernel_def apply_each_no_change split: prod.split)
  ultimately show ?thesis
    by (simp add: wg_Reconfig_def split: prod.split bool.split) (metis prod.sel(2))
qed

lemma ex_ready: "disco_ready discoPeer_ok discoPeer_room (wanted_peers (init_engine [] example_te_config)) ex_disco"
proof -
  let ?e = "init_engine [] example_te_config"
  have short: "length (peer_endpoints gs eps) \<le> length eps" for gs eps
    unfolding peer_endpoints_def List.map_filter_def
    by (rule order_trans [OF length_filter_le]) (simp add: order_trans [OF length_filter_le])
  have "length eps \<le> 3" if "(k, eps) \<in> set (wanted_peers ?e)" for k eps
    using that disco_peers_spec [of "[]" "tc_Peers example_te_config"] short [of "[]" "[''1.2.3.4:5'', ''9.9.9.9:5'', ''junk'']"]
    by (auto simp: wanted_peers_def init_engine_def example_te_config_def)
  moreover have "discoPeer_ok (example_peer\<lparr>dp_status := s\<rparr>)" "discoPeer_room (example_peer\<lparr>dp_status := s\<rparr>) = 2 ^ 32 - 1" for s
    by (simp_all add: discoPeer_ok_def discoPeer_room_def example_peer_def NewDiscoPeer_def peer_inv_def sm_ok_def)
  ultimately show ?thesis
    unfolding disco_ready_def ex_disco_def by (simp add: disco_New_def sm_ok_def) fastforce
qed

lemma ex_status: "map_of (GetAllStatuses (discoPeer_ops example_box []) ex_disco) (replicate 32 1) =
    Some \<lparr>ps_ActiveEndpoint = AddrPort (IP4 0x01020304) 5, ps_ActiveRTT = 3\<rparr>"
  by (simp add: map_of_GetAllStatuses ex_disco_def sm_ok_def sm_Load_def discoPeer_ops_def cell_Get_def new_cell_def)

section \<open>Properties\<close>

text \<open>
  C3. From a ping to packets: if a \<open>reconfig\<close> of the engine succeeds, the device sends the packets of
  every peer of the configuration whose disco has an active endpoint to this endpoint (as text),
  provided that the device sent to the endpoints configured before, which then holds again for
  the new configuration.
\<close>
theorem device_uses_active_endpoints:
  assumes law: "endpoint_law K ends" and ready: "disco_ready discoPeer_ok discoPeer_room (wanted_peers e) d"
    and keys: "distinct (map (\<lambda>pc. lib_ParseKey L (pc_PublicKey pc)) (tc_Peers (te_currentConfig e)))"
      "distinct (map wp_PublicKey (wc_Peers (we_prevConfig w)))"
    and agree: "sends_to (ends (we_net w)) (wc_Peers (we_prevConfig w))"
    and run: "reconfig L (discoPeer_ops B privateKey) K e d w = Returns (d', w', True)"
  shows "sends_to (ends (we_net w')) (wc_Peers (we_prevConfig w')) \<and>
    (\<forall>pc \<in> set (tc_Peers (te_currentConfig e)). \<forall>wg dk st.
       toWGConfig L pc = Some wg \<and> key_Parse (pc_PublicDiscoKey pc) = Inr dk \<and>
       map_of (GetAllStatuses (discoPeer_ops B privateKey) d) dk = Some st \<and> addr_port_is_valid (ps_ActiveEndpoint st) \<longrightarrow>
         map_option udp_String (ends (we_net w') (wp_PublicKey wg)) = Some (udp_String (ps_ActiveEndpoint st)))"
proof -
  let ?ops = "discoPeer_ops B privateKey"
  from run obtain privKey where set: "SetPeers ?ops (wanted_peers e) d = Returns d'"
    and wg: "wg_Reconfig K (toWGDevice L (GetAllStatuses ?ops d') (te_currentConfig e) privKey) (tc_Addresses (te_currentConfig e)) w = (w', True)"
    by (rule reconfig_parts)
  let ?config = "toWGDevice L (GetAllStatuses ?ops d') (te_currentConfig e) privKey"
  have peers: "wc_Peers ?config = List.map_filter (wg_peer_of L (GetAllStatuses ?ops d')) (tc_Peers (te_currentConfig e))"
    by (simp add: toWGDevice_def)
  from wg_Reconfig_endpoints [OF law wg] obtain w1 where w1: "reconfigWireguard K ?config w = (w1, True)"
    "ends (we_net w') = ends (we_net w1)" "we_prevConfig w' = we_prevConfig w1" by blast
  have "\<forall>p \<in> set (wc_Peers ?config). \<not> wp_Remove p"
    unfolding peers set_map_filter using wg_peer_of_fields(2) by blast
  from reconfigWireguard_endpoints [OF law _ keys(2) this agree w1(1)] different_keys [OF keys(1)]
  have sends: "sends_to (ends (we_net w1)) (wc_Peers ?config)" "we_prevConfig w1 = ?config \<or> w1 = w"
    unfolding peers by blast+
  have "map_option udp_String (ends (we_net w1) (wp_PublicKey wg)) = Some (udp_String (ps_ActiveEndpoint st))"
    if pc: "pc \<in> set (tc_Peers (te_currentConfig e))" "toWGConfig L pc = Some wg" "key_Parse (pc_PublicDiscoKey pc) = Inr dk"
      and st: "map_of (GetAllStatuses ?ops d) dk = Some st" "addr_port_is_valid (ps_ActiveEndpoint st)" for pc wg dk st
  proof -
    note spec = disco_peers_spec [folded wanted_peers_def]
    have "distinct (map fst (wanted_peers e))" "dk \<in> fst ` set (wanted_peers e)"
      using spec pc(1,3) unfolding wanted_peers_def by blast+
    with discoPeer_SetPeers [OF ready, of B privateKey] set st(1)
    have "map_of (GetAllStatuses ?ops d') dk = Some st" by auto
    from active_endpoint_configured [OF pc(2,3) this st(2)] obtain p where
      "wg_peer_of L (GetAllStatuses ?ops d') pc = Some p" "wp_PublicKey p = wp_PublicKey wg" "wp_Endpoint p = Some (ps_ActiveEndpoint st)"
      by blast
    moreover from this(1) pc(1) have "p \<in> set (wc_Peers ?config)"
      unfolding peers set_map_filter by blast
    ultimately show ?thesis
      using sends(1) unfolding sends_to_def by metis
  qed
  moreover have "sends_to (ends (we_net w')) (wc_Peers (we_prevConfig w'))"
    using sends agree w1(2,3) by metis
  ultimately show ?thesis
    unfolding w1(2) by blast
qed

theorem device_uses_active_endpoints_witness:
  "\<exists>d' w'. reconfig v4_keys (discoPeer_ops example_box []) ex_kernel (init_engine [] example_te_config) ex_disco ex_wg_engine =
       Returns (d', w', True) \<and>
     map_option udp_String (we_net w' (replicate 32 112)) = Some ''1.2.3.4:5''"
proof -
  let ?e = "init_engine [] example_te_config" and ?ops = "discoPeer_ops example_box []"
  from discoPeer_SetPeers [OF ex_ready, of example_box "[]"] disco_peers_spec [of "[]" "tc_Peers example_te_config"]
  obtain d' where d': "SetPeers ?ops (wanted_peers ?e) ex_disco = Returns d'"
    by (auto simp: wanted_peers_def init_engine_def)
  have key: "lib_ParseKey v4_keys (tc_PrivateKey (te_currentConfig ?e)) = Some (replicate 32 107)"
    by code_simp
  let ?config = "toWGDevice v4_keys (GetAllStatuses ?ops d') (te_currentConfig ?e) (replicate 32 107)"
  obtain w' where "wg_Reconfig ex_kernel ?config (tc_Addresses (te_currentConfig ?e)) ex_wg_engine = (w', True)"
    using ex_succeeds [of ?config] by (metis prod.collapse)
  with key d' have run: "reconfig v4_keys ?ops ex_kernel ?e ex_disco ex_wg_engine = Returns (d', w', True)"
    by (simp add: reconfig_def reconfigDisco_def wanted_peers_def)
  have keys: "distinct (map (\<lambda>pc. lib_ParseKey v4_keys (pc_PublicKey pc)) (tc_Peers (te_currentConfig ?e)))"
    "distinct (map wp_PublicKey (wc_Peers (we_prevConfig ex_wg_engine)))"
    "sends_to (id (we_net ex_wg_engine)) (wc_Peers (we_prevConfig ex_wg_engine))"
    by (simp_all add: init_engine_def example_te_config_def ex_wg_engine_def sends_to_def)
  obtain pc where pc: "tc_Peers (te_currentConfig ?e) = [pc]" "pc_PublicDiscoKey pc = key_String (replicate 32 1)"
    "pc_PublicKey pc = ''p''" "pc_AllowedIPs pc = [''10.0.0.2/32'']"
    by (simp add: init_engine_def example_te_config_def)
  have "key_Parse (pc_PublicDiscoKey pc) = Inr (replicate 32 1)"
    unfolding pc(2) using key_text_roundtrip [of "replicate 32 1"] by (simp add: is_key_def)
  moreover have "prefix_String (Prefix (IP4 0x0A000002) 32) = ''10.0.0.2/32''"
    by code_simp
  then have "ParsePrefix ''10.0.0.2/32'' = Some (Prefix (IP4 0x0A000002) 32)"
    using ParsePrefix_ip4 [of 32 "0x0A000002"] by simp
  then obtain wg where "toWGConfig v4_keys pc = Some wg" "wp_PublicKey wg = replicate 32 112"
    by (simp add: toWGConfig_def pc(3,4) v4_keys_def)
  ultimately have "map_option udp_String (id (we_net w') (replicate 32 112)) = Some (udp_String (AddrPort (IP4 0x01020304) 5))"
    using device_uses_active_endpoints [OF ex_law ex_ready keys run, THEN conjunct2, THEN bspec [of _ _ pc], THEN spec [of _ wg],
        THEN spec [of _ "replicate 32 1"], THEN spec [of _ "\<lparr>ps_ActiveEndpoint = AddrPort (IP4 0x01020304) 5, ps_ActiveRTT = 3\<rparr>"]] pc(1) ex_status
    by (simp add: addr_port_is_valid_def addr_is_valid_def)
  moreover have "udp_String (AddrPort (IP4 0x01020304) 5) = ''1.2.3.4:5''"
    by code_simp
  ultimately show ?thesis
    using run by auto
qed

end
