(* ===== verification/Services.thy ===== *)
theory Services
  imports Complex_Main Startup CniServer Alarm
begin

text \<open>
  The services around the daemon's core: the socket of the CNI server with its life between
  \<open>NewServer\<close> and \<open>Shutdown\<close>, over the files of the host; the retries of its handlers; the monitor
  between \<open>New\<close> and \<open>Close\<close>; and the main function of the control plane.
\<close>

section \<open>The socket of the CNI server\<close>

text \<open>
  A file of the host, of which only the kind matters: a socket knows the listener that is bound to
  it. The servers are those of all processes, by the number of their listener; \<open>sv_open\<close> says that
  the listener is open. A server that has not been run yet does not answer.
\<close>

datatype fs_entry = Directory | PlainFile | Socket nat

type_synonym files = "(string \<times> fs_entry) list"

datatype server_pc = NotServing | Serving | ServeReturned

record cni_server =
  sv_path :: string
  sv_handler :: cni_handler
  sv_localCache :: bool
  sv_open :: bool
  sv_down :: bool
  sv_pc :: server_pc

record host =
  ho_files :: files
  ho_servers :: "(nat \<times> cni_server) list"

text \<open>\<open>os.Remove\<close> deletes a file or an empty directory; its error is ignored.\<close>

definition os_Remove :: "string \<Rightarrow> files \<Rightarrow> files" where
  "os_Remove p F =
     (if map_of F p = Some Directory \<and> (\<exists>(q, e) \<in> set F. take (length p + 1) q = p @ ''/'') then F
      else AList.delete p F)"

text \<open>\<open>os.MkdirAll\<close> is a parameter: it makes the missing directories on the path, and nothing else.\<close>

definition mkdir_laws :: "(string \<Rightarrow> files \<Rightarrow> files \<times> bool) \<Rightarrow> bool" where
  "mkdir_laws mkdir \<longleftrightarrow>
     (\<forall>p F F' ok. mkdir p F = (F', ok) \<longrightarrow>
        (\<forall>q. map_of F q \<noteq> None \<longrightarrow> map_of F' q = map_of F q) \<and>
        (\<forall>q. map_of F' q \<noteq> map_of F q \<longrightarrow> map_of F' q = Some Directory))"

text \<open>
  \<open>NewServer\<close>: \<open>bound\<close> says whether the kernel would bind the socket to a free name. Listening fails
  where there is any file of this name. The number of the listener is a new one.
\<close>

definition new_listener :: "host \<Rightarrow> nat" where
  "new_listener H = length (ho_servers H)"

definition NewServer :: "(string \<Rightarrow> files \<Rightarrow> files \<times> bool) \<Rightarrow> bool \<Rightarrow> string \<Rightarrow> cni_handler \<Rightarrow> bool \<Rightarrow> host \<Rightarrow> host \<times> nat option" where
  "NewServer mkdir bound socketPath handler localCache H =
     (case mkdir (Dir socketPath) (ho_files H) of
        (F, False) \<Rightarrow> (H\<lparr>ho_files := F\<rparr>, None)
      | (F, True) \<Rightarrow>
          let F = os_Remove socketPath F
          in if \<not> bound \<or> map_of F socketPath \<noteq> None then (H\<lparr>ho_files := F\<rparr>, None)
             else (H\<lparr>ho_files := AList.update socketPath (Socket (new_listener H)) F,
                     ho_servers := ho_servers H @ [(new_listener H,
                       \<lparr>sv_path = socketPath, sv_handler = handler, sv_localCache = localCache, sv_open = True,
                        sv_down = False, sv_pc = NotServing\<rparr>)]\<rparr>, Some (new_listener H)))"

definition set_server :: "nat \<Rightarrow> cni_server \<Rightarrow> host \<Rightarrow> host" where
  "set_server l s H = H\<lparr>ho_servers := AList.update l s (ho_servers H)\<rparr>"

text \<open>Closing a listener of the library removes the file of its name.\<close>

definition close_listener :: "nat \<Rightarrow> host \<Rightarrow> host" where
  "close_listener l H =
     (case map_of (ho_servers H) l of
        None \<Rightarrow> H
      | Some s \<Rightarrow>
          if sv_open s then (set_server l (s\<lparr>sv_open := False\<rparr>) H)\<lparr>ho_files := os_Remove (sv_path s) (ho_files H)\<rparr>
          else H)"

text \<open>
  \<open>Run\<close> serves until the server is shut down; a server that was shut down before closes its listener
  and returns. \<open>Shutdown\<close> closes the listeners that are served; \<open>Run\<close> returns then.
\<close>

definition server_Run :: "nat \<Rightarrow> host \<Rightarrow> host" where
  "server_Run l H =
     (case map_of (ho_servers H) l of
        None \<Rightarrow> H
      | Some s \<Rightarrow>
          if sv_down s then close_listener l (set_server l (s\<lparr>sv_pc := ServeReturned\<rparr>) H)
          else set_server l (s\<lparr>sv_pc := Serving\<rparr>) H)"

definition server_Shutdown :: "nat \<Rightarrow> host \<Rightarrow> host" where
  "server_Shutdown l H =
     (case map_of (ho_servers H) l of
        None \<Rightarrow> H
      | Some s \<Rightarrow>
          if sv_pc s = Serving then close_listener l (set_server l (s\<lparr>sv_down := True, sv_pc := ServeReturned\<rparr>) H)
          else set_server l (s\<lparr>sv_down := True\<rparr>) H)"

text \<open>Whom a client reaches that dials a path.\<close>

definition dials :: "string \<Rightarrow> host \<Rightarrow> cni_server option" where
  "dials p H =
     (case map_of (ho_files H) p of
        Some (Socket l) \<Rightarrow>
          (case map_of (ho_servers H) l of
             None \<Rightarrow> None
           | Some s \<Rightarrow> if sv_open s \<and> sv_pc s = Serving then Some s else None)
      | _ \<Rightarrow> None)"

definition plugin_GetPodCIDRs :: "string \<Rightarrow> host \<Rightarrow> 's node_claim list option list \<Rightarrow> 's node_claim list option" where
  "plugin_GetPodCIDRs p H attempts =
     (case dials p H of None \<Rightarrow> None | Some s \<Rightarrow> client_GetPodCIDRs True (sv_handler s) attempts)"

text \<open>The handler that \<open>SetupCNId\<close> asks for.\<close>

definition cni_options :: "'c cni_config \<Rightarrow> cni_handler" where
  "cni_options cc =
     \<lparr>h_clusterName = cfg_ClusterName cc, h_nodeName = cfg_NodeName cc,
      h_podAddressClaimTemplates = cnid_AddressClaimTemplates (cfg_CNID cc)\<rparr>"

subsection \<open>Who is reached\<close>

lemma map_of_update: "map_of (AList.update k v m) = (map_of m)(k \<mapsto> v)"
  by (rule ext) (simp add: update_conv)

lemma map_of_delete: "map_of (AList.delete k m) = (map_of m)(k := None)"
  by (rule ext) (simp add: delete_conv)

text \<open>The numbers of the listeners are their places in the list.\<close>

definition host_ok :: "host \<Rightarrow> bool" where
  "host_ok H \<longleftrightarrow> (\<forall>l s. map_of (ho_servers H) l = Some s \<longrightarrow> l < length (ho_servers H))"

lemma length_update: "map_of m k \<noteq> None \<Longrightarrow> length (AList.update k v m) = length m"
  by (induction m) auto

lemma host_ok_set_server: "host_ok H \<Longrightarrow> map_of (ho_servers H) l \<noteq> None \<Longrightarrow> host_ok (set_server l s H)"
  by (auto simp: host_ok_def set_server_def map_of_update length_update)

lemma set_server_simps [simp]:
  "ho_files (set_server l s H) = ho_files H" "map_of (ho_servers (set_server l s H)) = (map_of (ho_servers H))(l \<mapsto> s)"
  by (simp_all add: set_server_def map_of_update)

lemma close_listener_ok:
  assumes "host_ok H"
  shows "host_ok (close_listener l H)"
proof -
  have "host_ok (H\<lparr>ho_files := F\<rparr>) = host_ok H" for H F by (simp add: host_ok_def)
  with assms show ?thesis
    by (simp add: close_listener_def host_ok_set_server split: option.split)
qed

lemma host_ok_operations:
  assumes "host_ok H"
  shows "host_ok (server_Run l H)" "host_ok (server_Shutdown l H)"
  using assms by (simp_all add: server_Run_def server_Shutdown_def close_listener_ok host_ok_set_server split: option.split)

text \<open>
  A server starts unless the directory cannot be made or the name is refused, whatever the process
  before it left there: only a directory with files in it is in the way. From its \<open>Run\<close> on it
  is the one that the plugins reach.
\<close>

lemma NewServer_starts:
  assumes "mkdir (Dir p) (ho_files H) = (F, True)" "mkdir_laws mkdir"
    and "map_of (ho_files H) p \<in> {Some PlainFile} \<union> range (\<lambda>l. Some (Socket l)) \<or> map_of F p = None"
  shows "\<exists>H'. NewServer mkdir True p h c H = (H', Some (new_listener H))"
proof -
  from assms(1,2) have "map_of (ho_files H) p \<noteq> None \<Longrightarrow> map_of F p = map_of (ho_files H) p"
    unfolding mkdir_laws_def by blast
  with assms(3) have "map_of F p \<noteq> Some Directory" by auto
  then have "map_of (os_Remove p F) p = None"
    by (simp add: os_Remove_def map_of_delete)
  with assms(1) show ?thesis by (simp add: NewServer_def Let_def)
qed

lemma NewServer_Some:
  assumes "NewServer mkdir bound p h c H = (H', Some l)" "host_ok H"
  shows "l = new_listener H" "host_ok H'" "map_of (ho_files H') p = Some (Socket l)"
    "map_of (ho_servers H') = (map_of (ho_servers H))(l \<mapsto>
       \<lparr>sv_path = p, sv_handler = h, sv_localCache = c, sv_open = True, sv_down = False, sv_pc = NotServing\<rparr>)"
proof -
  from assms(1) obtain F where H': "l = new_listener H" "ho_files H' = AList.update p (Socket l) F"
    "ho_servers H' = ho_servers H @ [(l, \<lparr>sv_path = p, sv_handler = h, sv_localCache = c, sv_open = True,
       sv_down = False, sv_pc = NotServing\<rparr>)]"
    by (auto simp: NewServer_def Let_def split: prod.splits bool.splits if_splits)
  have fresh: "map_of (ho_servers H) l = None"
    using assms(2) unfolding host_ok_def H'(1) new_listener_def by (metis less_irrefl not_None_eq)
  show "l = new_listener H" by (rule H'(1))
  show "map_of (ho_files H') p = Some (Socket l)" by (simp add: H'(2) map_of_update)
  show servers: "map_of (ho_servers H') = (map_of (ho_servers H))(l \<mapsto>
       \<lparr>sv_path = p, sv_handler = h, sv_localCache = c, sv_open = True, sv_down = False, sv_pc = NotServing\<rparr>)"
    using fresh by (auto simp: H'(3) map_add_def fun_eq_iff split: option.splits)
  show "host_ok H'"
    using assms(2) unfolding host_ok_def servers by (auto simp: H'(1,3) new_listener_def less_Suc_eq)
qed

lemma server_is_reached:
  assumes "NewServer mkdir bound p h c H = (H', Some l)" "host_ok H"
  shows "\<exists>s. dials p (server_Run l H') = Some s \<and> sv_handler s = h \<and> sv_localCache s = c"
  using NewServer_Some [OF assms] by (simp add: dials_def server_Run_def)

text \<open>So the plugins of a pod are answered with ready claims of this daemon's node.\<close>

lemma plugin_gets_ready_claims:
  assumes "NewServer mkdir bound p (cni_options cc) c H = (H', Some l)" "host_ok H"
    and "plugin_GetPodCIDRs p (server_Run l H') attempts = Some cs"
  shows "\<forall>claim \<in> set cs. claim_served claim \<and>
    selects (PodCIDRTypeForNode (cfg_ClusterName cc) (cfg_NodeName cc) []) (nc_Labels claim)"
proof -
  from server_is_reached [OF assms(1,2)] assms(3) have "GetPodCIDRs (cni_options cc) attempts = (cs, True)"
    by (auto simp: plugin_GetPodCIDRs_def client_GetPodCIDRs_def rpcCall_def prod_eq_iff split: if_splits)
  then show ?thesis
    using pod_attempts_served by (fastforce simp: GetPodCIDRs_def cni_options_def)
qed

text \<open>
  After its \<open>Shutdown\<close> a server is not reached, whether it was run before or is run later, and
  its listener is closed once both have happened.
\<close>

lemma shut_down_server:
  assumes "map_of (ho_servers H) l = Some s" "sv_open s" "sv_pc s = NotServing" "\<not> sv_down s"
  shows "\<not> sv_open (the (map_of (ho_servers (server_Shutdown l (server_Run l H))) l))"
    "\<not> sv_open (the (map_of (ho_servers (server_Run l (server_Shutdown l H))) l))"
    "dials p (server_Shutdown l H) \<noteq> Some s"
  using assms
  by (auto simp: server_Shutdown_def server_Run_def close_listener_def dials_def split: option.splits fs_entry.splits)

text \<open>
  The file of a name belongs to the last that made it, but it is removed by every listener of the
  name that is closed: where two daemons overlap, the older takes the socket of the newer away.
\<close>

lemma successor_loses_socket:
  assumes "NewServer mkdir bound p h c H = (H', Some l)" "host_ok H"
    and "map_of (ho_servers H) l0 = Some s" "sv_path s = p" "sv_open s" "sv_pc s = Serving"
  shows "dials p (server_Shutdown l0 (server_Run l H')) = None"
proof -
  note new = NewServer_Some [OF assms(1,2)]
  have "l0 \<noteq> l"
    using assms(2,3) unfolding host_ok_def new(1) new_listener_def by blast
  with new(3,4) assms(3-6) show ?thesis
    by (simp add: server_Shutdown_def server_Run_def close_listener_def dials_def os_Remove_def map_of_delete)
qed

section \<open>How often a handler retries\<close>

text \<open>
  The settings of \<open>newExpBackoff\<close>, in nanoseconds, with the factors of the library. The library waits
  a random time around an interval that grows up to a limit, as it documents: \<open>backs_off\<close> are the
  waits of one call. It stops after the time \<open>MaxElapsedTime\<close>, so that what was waited before the
  last wait is no longer than this.
\<close>

record exp_backoff =
  eb_InitialInterval :: int
  eb_RandomizationFactor :: rat
  eb_Multiplier :: rat
  eb_MaxInterval :: int
  eb_MaxElapsedTime :: int

definition newExpBackoff :: exp_backoff where
  "newExpBackoff =
     \<lparr>eb_InitialInterval = 100 * 1000000, eb_RandomizationFactor = 1 / 2, eb_Multiplier = 3 / 2,
      eb_MaxInterval = 5 * 1000000000, eb_MaxElapsedTime = 30 * 1000000000\<rparr>"

definition next_interval :: "exp_backoff \<Rightarrow> int \<Rightarrow> int" where
  "next_interval b i = min (eb_MaxInterval b) \<lfloor>of_int i * eb_Multiplier b\<rfloor>"

definition least_wait :: "exp_backoff \<Rightarrow> int \<Rightarrow> int" where
  "least_wait b i = \<lfloor>of_int i * (1 - eb_RandomizationFactor b)\<rfloor>"

fun waits_from :: "exp_backoff \<Rightarrow> int \<Rightarrow> int list \<Rightarrow> bool" where
  "waits_from b i [] \<longleftrightarrow> True"
| "waits_from b i (w # ws) \<longleftrightarrow> least_wait b i \<le> w \<and> waits_from b (next_interval b i) ws"

definition backs_off :: "exp_backoff \<Rightarrow> int list \<Rightarrow> bool" where
  "backs_off b ws \<longleftrightarrow> waits_from b (eb_InitialInterval b) ws \<and> sum_list (butlast ws) \<le> eb_MaxElapsedTime b"

fun least_sum :: "exp_backoff \<Rightarrow> int \<Rightarrow> nat \<Rightarrow> int" where
  "least_sum b i 0 = 0"
| "least_sum b i (Suc n) = least_wait b i + least_sum b (next_interval b i) n"

lemma waits_from_sum: "waits_from b i ws \<Longrightarrow> least_sum b i (length ws) \<le> sum_list ws"
  by (induction b i ws rule: waits_from.induct) auto

lemma waits_from_butlast: "waits_from b i ws \<Longrightarrow> waits_from b i (butlast ws)"
  by (induction b i ws rule: waits_from.induct) auto

lemma least_sum_mono:
  assumes "0 \<le> i" "0 \<le> eb_MaxInterval b" "0 \<le> eb_Multiplier b" "eb_RandomizationFactor b \<le> 1" "m \<le> n"
  shows "least_sum b i m \<le> least_sum b i n"
  using assms
proof (induction m arbitrary: i n)
  case 0
  have "0 \<le> least_sum b j n" if "0 \<le> j" for j
    using that
  proof (induction n arbitrary: j)
    case (Suc n)
    with 0 show ?case by (simp add: least_wait_def next_interval_def)
  qed simp
  with 0 show ?case by simp
next
  case (Suc m)
  then obtain n' where "n = Suc n'" "m \<le> n'" by (cases n) auto
  with Suc show ?case by (simp add: next_interval_def)
qed

lemma floor_quotient: "\<lfloor>(numeral a :: rat) / numeral b\<rfloor> = numeral a div numeral b"
  by (metis floor_divide_of_int_eq of_int_numeral)

text \<open>A call of a plugin is answered after at most 22 attempts.\<close>

lemma attempts_bound:
  assumes "backs_off newExpBackoff ws"
  shows "length ws \<le> 21"
proof (rule ccontr)
  let ?b = newExpBackoff and ?i = "eb_InitialInterval newExpBackoff"
  assume "\<not> length ws \<le> 21"
  then have "least_sum ?b ?i 20 \<le> least_sum ?b ?i (length (butlast ws))"
    by (intro least_sum_mono) (simp_all add: newExpBackoff_def)
  also have "\<dots> \<le> sum_list (butlast ws)"
    using assms waits_from_sum waits_from_butlast unfolding backs_off_def by blast
  finally have "least_sum ?b ?i 20 \<le> eb_MaxElapsedTime ?b"
    using assms by (simp add: backs_off_def)
  then show False
    by (simp add: newExpBackoff_def least_wait_def next_interval_def eval_nat_numeral floor_quotient)
qed

section \<open>The monitor\<close>

text \<open>
  The places of the goroutine of a monitor: before it looks at \<open>stopped\<close>, in \<open>Receive\<close>, in the ten
  seconds after an error, and where it wakes the subscribers. \<open>Receive\<close> fails on a closed socket.
\<close>

datatype monitor_pc = MoLooks | MoReceives | MoSleeps | MoWakes | MoReturned

record monitor =
  mo_alarm :: alarm
  mo_open :: bool
  mo_stopped :: bool
  mo_pc :: monitor_pc

definition monitor_New :: "bool \<Rightarrow> monitor option" where
  "monitor_New dial =
     (if \<not> dial then None else Some \<lparr>mo_alarm = new_alarm, mo_open = True, mo_stopped = False, mo_pc = MoLooks\<rparr>)"

definition monitor_Subscribe :: "monitor \<Rightarrow> monitor \<times> int" where
  "monitor_Subscribe m = (case Subscribe (mo_alarm m) of (a, s) \<Rightarrow> (m\<lparr>mo_alarm := a\<rparr>, s))"

text \<open>\<open>ok\<close> says whether the socket reports no error; it is closed in any case.\<close>

definition monitor_Close :: "bool \<Rightarrow> monitor \<Rightarrow> monitor \<times> bool" where
  "monitor_Close ok m =
     (let m = m\<lparr>mo_stopped := True\<rparr>; m = m\<lparr>mo_open := False\<rparr>
      in if \<not> ok then (m, False) else (m, True))"

definition action_pc :: "monitor_action \<Rightarrow> monitor_pc" where
  "action_pc act =
     (case act of MonitorReturns \<Rightarrow> MoReturned | MonitorSleeps \<Rightarrow> MoSleeps | MonitorContinues \<Rightarrow> MoLooks | MonitorWakes \<Rightarrow> MoWakes)"

inductive monitor_step :: "monitor \<Rightarrow> monitor \<Rightarrow> bool" where
  looks: "mo_pc m = MoLooks \<Longrightarrow> monitor_step m (m\<lparr>mo_pc := if mo_stopped m then MoReturned else MoReceives\<rparr>)"
| receives: "mo_pc m = MoReceives \<Longrightarrow> (msgs \<noteq> None \<longrightarrow> mo_open m) \<Longrightarrow>
    monitor_step m (m\<lparr>mo_pc := action_pc (monitor_run False (msgs :: byte list list option) (mo_stopped m))\<rparr>)"
| sleeps: "mo_pc m = MoSleeps \<Longrightarrow> monitor_step m (m\<lparr>mo_pc := MoLooks\<rparr>)"
| wakes: "mo_pc m = MoWakes \<Longrightarrow> WakeUpAll (mo_alarm m) = Returns a \<Longrightarrow> monitor_step m (m\<lparr>mo_alarm := a, mo_pc := MoLooks\<rparr>)"

text \<open>After \<open>Close\<close> the goroutine ends within two steps, wherever it is.\<close>

definition steps_left :: "monitor_pc \<Rightarrow> nat" where
  "steps_left pc = (case pc of MoReturned \<Rightarrow> 0 | MoLooks \<Rightarrow> 1 | MoReceives \<Rightarrow> 1 | MoSleeps \<Rightarrow> 2 | MoWakes \<Rightarrow> 2)"

lemma closed_monitor_decreases:
  assumes "monitor_step m m'" "mo_stopped m" "\<not> mo_open m"
  shows "steps_left (mo_pc m') < steps_left (mo_pc m) \<and> mo_stopped m' \<and> \<not> mo_open m'"
  using assms by cases (auto simp: steps_left_def monitor_run_def action_pc_def)

lemma closed_monitor_ends:
  assumes "m = fst (monitor_Close ok m0)" "(monitor_step ^^ n) m m'"
  shows "n \<le> 2 \<and> (n = steps_left (mo_pc m) \<longrightarrow> mo_pc m' = MoReturned)"
proof -
  have "n + steps_left (mo_pc m') \<le> steps_left (mo_pc m) \<and> mo_stopped m' \<and> \<not> mo_open m'"
    using assms(2)
  proof (induction n arbitrary: m')
    case 0
    then show ?case using assms(1) by (auto simp: monitor_Close_def Let_def split: if_splits)
  next
    case (Suc n)
    then obtain k where "(monitor_step ^^ n) m k" "monitor_step k m'" by auto
    with Suc.IH [of k] closed_monitor_decreases [of k m'] show ?case by auto
  qed
  moreover have "steps_left pc \<le> 2" "steps_left pc = 0 \<Longrightarrow> pc = MoReturned" for pc
    by (cases pc; simp add: steps_left_def)+
  ultimately show ?thesis by (metis add_leD1 add_diff_cancel_left' diff_is_0_eq le_trans le_zero_eq)
qed

section \<open>The control plane\<close>

text \<open>
  \<open>main\<close> of \<open>controlplane\<close>: the calls in their order; the first that fails ends the process. The
  controller of peers does nothing when an object changes.
\<close>

record plane_calls =
  pk_NewManager :: bool
  pk_PeerNode :: bool
  pk_CIDRClaim :: bool
  pk_healthz :: bool
  pk_readyz :: bool
  pk_Start :: bool

datatype plane_controller = PeerNodeController | CIDRClaimController

definition plane_main :: "plane_calls \<Rightarrow> plane_controller list \<times> main_end" where
  "plane_main K =
     (if \<not> pk_NewManager K then ([], Exits 1)
      else case register [(PeerNodeController, pk_PeerNode K), (CIDRClaimController, pk_CIDRClaim K)] of
             (cs, False) \<Rightarrow> (cs, Exits 1)
           | (cs, True) \<Rightarrow>
               if \<not> pk_healthz K then (cs, Exits 1)
               else if \<not> pk_readyz K then (cs, Exits 1)
               else if \<not> pk_Start K then (cs, Exits 1)
               else (cs, MainReturns))"

definition peer_node_Reconcile :: "'o \<Rightarrow> 'o \<times> bool" where
  "peer_node_Reconcile objects = (objects, True)"

text \<open>The kinds of objects whose changes cause a request: those that a controller is for or that it owns.\<close>

datatype object_kind = PeerNodeKind | CIDRClaimKind

definition peer_node_watches :: "object_kind list" where
  "peer_node_watches = [PeerNodeKind, CIDRClaimKind]"

definition claim_watches :: "object_kind list" where
  "claim_watches = [CIDRClaimKind]"

lemma plane_runs_both:
  "plane_main K = (cs, MainReturns) \<Longrightarrow> cs = [PeerNodeController, CIDRClaimController]"
  by (auto simp: plane_main_def split: if_splits)

lemma plane_stops_at_first_failure:
  "snd (plane_main K) = (if pk_NewManager K \<and> pk_PeerNode K \<and> pk_CIDRClaim K \<and> pk_healthz K \<and> pk_readyz K \<and> pk_Start K
     then MainReturns else Exits 1)"
  by (simp add: plane_main_def)

text \<open>The file of the daemon's configuration: a flag, else the variable, else the default.\<close>

definition daemon_configPath :: "env \<Rightarrow> string option \<Rightarrow> string" where
  "daemon_configPath getenv flag =
     (let configPath = ''/etc/tetrapod/tetrad.yaml'';
          c = getenv ''TETRAPOD_DAEMON_CONFIG'';
          configPath = (if c \<noteq> [] then c else configPath)
      in case flag of None \<Rightarrow> configPath | Some f \<Rightarrow> f)"

end
