(* ===== verification/Plugins.thy ===== *)
theory Plugins
  imports PodAddrs Services
begin

text \<open>
  The CNI plugins of \<open>tetracni/cmd\<close> from their standard input to what they do: the functions
  \<open>loadConfig\<close> in front of the commands of \<open>PodNet\<close> and \<open>PodAddrs\<close>, and the calls through the socket of
  \<open>Services\<close>. The decoders of JSON, of earlier results and of the arguments are parameters.
\<close>

section \<open>Configurations\<close>

text \<open>
  Every \<open>loadConfig\<close> decodes the input, then the result of the plugins before, which is converted;
  \<open>None\<close> stands for the error of a call. \<open>'j\<close> is what the library keeps of the earlier result.
\<close>

record ('conf, 'j) conf_lib =
  jl_Unmarshal :: "string \<Rightarrow> 'conf option"
  jl_ParsePrevResult :: "string \<Rightarrow> 'j option"
  jl_NewResultFromResult :: "'j \<Rightarrow> cni_result option"

definition load_result :: "('conf, 'j) conf_lib \<Rightarrow> string \<Rightarrow> ('conf \<times> cni_result) option" where
  "load_result J stdin =
     (case jl_Unmarshal J stdin of
        None \<Rightarrow> None
      | Some conf \<Rightarrow>
          (case jl_ParsePrevResult J stdin of
             None \<Rightarrow> None
           | Some prev \<Rightarrow> (case jl_NewResultFromResult J prev of None \<Rightarrow> None | Some result \<Rightarrow> Some (conf, result))))"

record hostvrf_conf =
  hc_VRF :: string

definition hostvrf_loadConfig :: "(hostvrf_conf, 'j) conf_lib \<Rightarrow> string \<Rightarrow> (hostvrf_conf \<times> cni_result) option" where
  "hostvrf_loadConfig J stdin = load_result J stdin"

definition route_pods_loadConfig :: "(route_conf, 'j) conf_lib \<Rightarrow> string \<Rightarrow> (route_conf \<times> cni_result) option" where
  "route_pods_loadConfig J stdin =
     (case load_result J stdin of
        None \<Rightarrow> None
      | Some (conf, result) \<Rightarrow> map_option (\<lambda>conf. (conf, result)) (route_loadConfig conf))"

record cni_args =
  ca_K8S_POD_NAME :: string
  ca_K8S_POD_NAMESPACE :: string
  ca_K8S_POD_INFRA_CONTAINER_ID :: string

record extra_conf =
  ec_SocketPath :: string
  ec_VRF :: string
  ec_Args :: "cni_args option"

definition extra_loadConfig :: "(extra_conf, 'j) conf_lib \<Rightarrow> (string \<Rightarrow> cni_args option) \<Rightarrow> string \<Rightarrow> string
    \<Rightarrow> (extra_conf \<times> cni_args \<times> cni_result) option" where
  "extra_loadConfig J LoadArgs stdin cniArgs =
     (case load_result J stdin of
        None \<Rightarrow> None
      | Some (conf, result) \<Rightarrow>
          let conf = (if ec_SocketPath conf = [] then conf\<lparr>ec_SocketPath := ''/run/tetrapod/cni.sock''\<rparr> else conf)
          in case LoadArgs cniArgs of
               None \<Rightarrow> None
             | Some args \<Rightarrow> Some (conf\<lparr>ec_Args := Some args\<rparr>, args, result))"

text \<open>The input of \<open>tetra-pod-ipam\<close> is decoded twice: for the delegated plugin, whose ranges it has, and for itself.\<close>

definition ipam_readConfig :: "(string \<Rightarrow> ip_range list list option) \<Rightarrow> (string \<Rightarrow> ipam_conf option) \<Rightarrow> string
    \<Rightarrow> (ip_range list list \<times> ipam_conf) option" where
  "ipam_readConfig UnmarshalNet UnmarshalConfig stdin =
     (case UnmarshalNet stdin of
        None \<Rightarrow> None
      | Some ranges \<Rightarrow>
          (case UnmarshalConfig stdin of
             None \<Rightarrow> None
           | Some config \<Rightarrow> map_option (\<lambda>config. (ranges, config)) (ipam_LoadConfig config)))"

section \<open>The commands on their input\<close>

definition hostvrf_Add :: "(hostvrf_conf, 'j) conf_lib \<Rightarrow> (string \<Rightarrow> bool) \<Rightarrow> (string \<Rightarrow> bool) \<Rightarrow> string \<Rightarrow> link list \<Rightarrow> link list \<times> bool" where
  "hostvrf_Add J F fails stdin ls =
     (case hostvrf_loadConfig J stdin of
        None \<Rightarrow> (ls, False)
      | Some (conf, result) \<Rightarrow> hostvrf_cmdAdd F fails (hc_VRF conf) result ls)"

definition hostvrf_Check :: "(hostvrf_conf, 'j) conf_lib \<Rightarrow> (string \<Rightarrow> bool) \<Rightarrow> string \<Rightarrow> link list \<Rightarrow> bool" where
  "hostvrf_Check J F stdin ls =
     (case hostvrf_loadConfig J stdin of None \<Rightarrow> False | Some (conf, result) \<Rightarrow> hostvrf_cmdCheck F result ls)"

text \<open>The client's call for the extra claims of a pod; the server has a local cache or not.\<close>

definition plugin_GetExtraPodCIDRs :: "string \<Rightarrow> host \<Rightarrow> string \<Rightarrow> string \<Rightarrow> (pod option \<times> 's node_claim list option) list
    \<Rightarrow> 's node_claim list option" where
  "plugin_GetExtraPodCIDRs p H namespace name attempts =
     (case dials p H of
        None \<Rightarrow> None
      | Some s \<Rightarrow> client_GetExtraPodCIDRs True (sv_handler s) (sv_localCache s) namespace name attempts)"

definition extra_Add :: "(extra_conf, 'j) conf_lib \<Rightarrow> (string \<Rightarrow> cni_args option) \<Rightarrow> host \<Rightarrow> (pod option \<times> 's node_claim list option) list
    \<Rightarrow> (string \<Rightarrow> ip_net option) \<Rightarrow> 'n route_lib \<Rightarrow> (string \<Rightarrow> bool) \<Rightarrow> link list \<Rightarrow> string \<Rightarrow> string \<Rightarrow> 'n \<Rightarrow> 'n \<times> bool" where
  "extra_Add J LoadArgs H attempts ParseCIDR K F ls stdin cniArgs n =
     (case extra_loadConfig J LoadArgs stdin cniArgs of
        None \<Rightarrow> (n, False)
      | Some (conf, args, result) \<Rightarrow>
          extra_cmdAdd ParseCIDR K F (ec_VRF conf)
            (plugin_GetExtraPodCIDRs (ec_SocketPath conf) H (ca_K8S_POD_NAMESPACE args) (ca_K8S_POD_NAME args) attempts) result ls n)"

definition ipam_Add :: "(string \<Rightarrow> ip_range list list option) \<Rightarrow> (string \<Rightarrow> ipam_conf option) \<Rightarrow> host \<Rightarrow> 's node_claim list option list
    \<Rightarrow> (string \<Rightarrow> ip_range list list \<Rightarrow> 'r option) \<Rightarrow> (string \<Rightarrow> ip_net option) \<Rightarrow> 'b range_lib \<Rightarrow> string \<Rightarrow> 'r option outcome" where
  "ipam_Add UnmarshalNet UnmarshalConfig H attempts exe ParseCIDR L stdin =
     (case ipam_readConfig UnmarshalNet UnmarshalConfig stdin of
        None \<Rightarrow> Returns None
      | Some (ranges, config) \<Rightarrow>
          bind_outcome (MutateConfig ParseCIDR L (plugin_GetPodCIDRs (ic_SocketPath config) H attempts) config ranges) (\<lambda>r.
            Returns (case r of None \<Rightarrow> None | Some ranges \<Rightarrow> exe (ic_IPAMPlugin config) ranges)))"

section \<open>The plugins and the daemon\<close>

text \<open>Without a path on either side the plugins dial the socket that the daemon makes.\<close>

lemma default_paths_meet:
  assumes "cnid_SocketPath c = []"
  shows "ipam_readConfig N U stdin = Some (ranges, config) \<Longrightarrow> U stdin = Some conf0 \<Longrightarrow> ic_SocketPath conf0 = [] \<Longrightarrow>
      ic_SocketPath config = cnid_SocketPath (CNIDConfig_Load env configPath c)"
    and "extra_loadConfig J A stdin cniArgs = Some (conf, args, result) \<Longrightarrow> jl_Unmarshal J stdin = Some conf1 \<Longrightarrow>
      ec_SocketPath conf1 = [] \<Longrightarrow> ec_SocketPath conf = cnid_SocketPath (CNIDConfig_Load env configPath c)"
  using assms
  by (auto simp: ipam_readConfig_def ipam_LoadConfig_def extra_loadConfig_def load_result_def CNIDConfig_Load_def Let_def
      or_default_def split: option.splits if_splits)

text \<open>
  The claims that the plugin of a pod gets are ready claims of this pod: they were served by the
  handler that \<open>NewServer\<close> was given.
\<close>

lemma extra_claims_of_the_pod:
  assumes new: "NewServer mkdir bound p (cni_options cc) True H = (H', Some l)" "host_ok H"
    and call: "plugin_GetExtraPodCIDRs p (server_Run l H') namespace name attempts = Some cs"
  shows "\<forall>claim \<in> set cs. claim_served claim \<and>
    selects (ExtraPodCIDRTypeForNode (cfg_ClusterName cc) (cfg_NodeName cc) namespace name []) (nc_Labels claim)"
proof -
  from server_is_reached [OF new] call have "GetExtraPodCIDRs (cni_options cc) True namespace name attempts = (cs, True)"
    by (auto simp: plugin_GetExtraPodCIDRs_def client_GetExtraPodCIDRs_def rpcCall_def prod_eq_iff split: if_splits)
  then show ?thesis
    using extra_attempts_served by (fastforce simp: GetExtraPodCIDRs_def cni_options_def)
qed

section \<open>An example\<close>

definition ex_cc :: "unit cni_config" where
  "ex_cc =
     \<lparr>cfg_ClusterName = ''c'', cfg_NodeName = ''x'',
      cfg_ControlPlane = \<lparr>cpc_APIEndpoint = [], cpc_RootCACert = [], cpc_Token = [], cpc_Namespace = [],
        cpc_KubeConfig = \<lparr>kc_File = [], kc_Inline = None, kc_Context = []\<rparr>, cpc_AddressClaimTemplates = []\<rparr>,
      cfg_NetworkNamespace = [],
      cfg_Wireguard = \<lparr>ws_PrivateKey = [], ws_ListenPort = 0, ws_STUNEndpoint = [], ws_Name = [], ws_Netns = []\<rparr>,
      cfg_Cleanup = False, cfg_StaticAdvertisedRoutes = [],
      cfg_CNID = \<lparr>cnid_AddressClaimTemplates = [''t''], cnid_Extra = True, cnid_SocketPath = [],
        cnid_KubeConfig = \<lparr>kc_File = [], kc_Inline = None, kc_Context = []\<rparr>\<rparr>\<rparr>"

definition ex_host :: host where
  "ex_host = \<lparr>ho_files = [(''/run/tetrapod'', Directory), (''/run/tetrapod/cni.sock'', PlainFile)], ho_servers = []\<rparr>"

lemma ex_server: "\<exists>H'. NewServer (\<lambda>_ F. (F, True)) True ''/run/tetrapod/cni.sock'' (cni_options ex_cc) True ex_host = (H', Some 0)"
  by (simp add: NewServer_def ex_host_def os_Remove_def new_listener_def)

section \<open>Properties\<close>



end
